(* ===== verification/Prelude.thy ===== *)
theory Prelude
  imports Main "HOL-Library.Word" "HOL-Library.Sublist"
begin

text \<open>
  Shared vocabulary of the development: the outcomes of C code that leaves the language
  (\<open>fault\<close>), results that may be such a fault (\<open>'a res\<close>, sequenced by \<open>bind_res\<close>), C strings as
  character lists without a terminator, flat character memory, and singly linked lists that are
  threaded through a store by a next pointer (\<open>walk\<close>, \<open>chain\<close>).
\<close>

named_theorems res_simps \<open>evaluation rules for results that may be faults\<close>
named_theorems mem_simps \<open>closed forms of the memory routines\<close>

section \<open>Faults and results\<close>

text \<open>
  The kernel is freestanding C: what the language leaves undefined, and a loop that never ends,
  are outcomes of their own. An error that the code reports is not a fault but an ordinary value
  (the -1 or the null pointer it returns).
\<close>

datatype fault =
    Null_Deref       \<comment> \<open>a null pointer is dereferenced\<close>
  | Out_Of_Bounds    \<comment> \<open>a read or write outside the object\<close>
  | Buffer_Overflow  \<comment> \<open>a string copy runs past its destination\<close>
  | Indeterminate    \<comment> \<open>an uninitialised variable is used\<close>
  | Hang             \<comment> \<open>\<open>while(1)\<close>, or a loop that does not end\<close>

type_synonym 'a res = "fault + 'a"
type_synonym u8 = "8 word"
type_synonym u32 = "32 word"
type_synonym u64 = "64 word"

definition bind_res :: "'a res \<Rightarrow> ('a \<Rightarrow> 'b res) \<Rightarrow> 'b res" where
  "bind_res m f = (case m of Inl e \<Rightarrow> Inl e | Inr x \<Rightarrow> f x)"

definition guard_res :: "bool \<Rightarrow> fault \<Rightarrow> unit res" where
  "guard_res b e = (if b then Inr () else Inl e)"

definition of_option :: "fault \<Rightarrow> 'a option \<Rightarrow> 'a res" where
  "of_option e x = (case x of None \<Rightarrow> Inl e | Some y \<Rightarrow> Inr y)"

definition map_res :: "('a \<Rightarrow> 'b) \<Rightarrow> 'a res \<Rightarrow> 'b res" where
  "map_res f m = bind_res m (\<lambda>x. Inr (f x))"

lemma bind_res_simps [simp, res_simps]:
  "bind_res (Inl e) f = Inl e"
  "bind_res (Inr x) f = f x"
  by (simp_all add: bind_res_def)

lemma map_res_simps [simp, res_simps]:
  "map_res f (Inl e) = Inl e"
  "map_res f (Inr x) = Inr (f x)"
  by (simp_all add: map_res_def)

lemma guard_res_simps [simp, res_simps]:
  "guard_res True e = Inr ()"
  "guard_res False e = Inl e"
  by (simp_all add: guard_res_def)

lemma of_option_simps [simp, res_simps]:
  "of_option e None = Inl e"
  "of_option e (Some x) = Inr x"
  by (simp_all add: of_option_def)

lemma bind_res_Inr_iff: "bind_res m f = Inr y \<longleftrightarrow> (\<exists>x. m = Inr x \<and> f x = Inr y)"
  by (cases m) auto

lemma map_res_Inr_iff: "map_res f m = Inr y \<longleftrightarrow> (\<exists>x. m = Inr x \<and> y = f x)"
  by (cases m) auto

lemma guard_res_Inr_iff: "guard_res b e = Inr u \<longleftrightarrow> b"
  by (simp add: guard_res_def)

lemma of_option_Inr_iff: "of_option e x = Inr y \<longleftrightarrow> x = Some y"
  by (cases x) auto

lemmas res_Inr_iffs = bind_res_Inr_iff map_res_Inr_iff guard_res_Inr_iff of_option_Inr_iff

lemma bind_res_cong [fundef_cong]:
  "m = m' \<Longrightarrow> (\<And>x. m' = Inr x \<Longrightarrow> f x = f' x) \<Longrightarrow> bind_res m f = bind_res m' f'"
  by (cases m') auto

section \<open>Strings and flat memory\<close>

text \<open>
  A \<open>char\<close> of the code is a HOL \<open>char\<close> (one byte). The value of a C string is the list of the
  characters before its terminator; \<open>cstring\<close> reads it off the bytes of a buffer, and \<open>cstr\<close> says
  that a list can be such a value.
\<close>

abbreviation NUL :: char where
  "NUL \<equiv> CHR 0x00"

abbreviation cstr :: "string \<Rightarrow> bool" where
  "cstr s \<equiv> NUL \<notin> set s"

definition cstring :: "char list \<Rightarrow> string" where
  "cstring buf = takeWhile (\<lambda>c. c \<noteq> NUL) buf"

lemma cstring_terminated [simp]: "cstr s \<Longrightarrow> cstring (s @ NUL # r) = s"
  unfolding cstring_def by (subst takeWhile_append2) auto

lemma cstr_cstring [simp]: "cstr (cstring buf)"
  unfolding cstring_def using set_takeWhileD by fastforce

lemma char_of_zero [simp]: "char_of (0 :: nat) = NUL" "char_of (0 :: int) = NUL"
  by (simp_all add: char_of_def)

type_synonym mem = "nat \<Rightarrow> char"

definition zero_mem :: mem where
  "zero_mem = (\<lambda>_. NUL)"

definition mem_slice :: "mem \<Rightarrow> nat \<Rightarrow> nat \<Rightarrow> char list" where
  "mem_slice m a n = map (\<lambda>i. m (a + i)) [0..<n]"

lemma length_mem_slice [simp]: "length (mem_slice m a n) = n"
  by (simp add: mem_slice_def)

lemma nth_mem_slice [simp]: "i < n \<Longrightarrow> mem_slice m a n ! i = m (a + i)"
  by (simp add: mem_slice_def)

lemma zero_mem_apply [simp]: "zero_mem a = NUL"
  by (simp add: zero_mem_def)

lemma mem_slice_cong:
  "(\<And>b. a \<le> b \<Longrightarrow> b < a + n \<Longrightarrow> m b = m' b) \<Longrightarrow> mem_slice m a n = mem_slice m' a n"
  by (simp add: mem_slice_def)

lemma mem_slice_append: "mem_slice m a (k + n) = mem_slice m a k @ mem_slice m (a + k) n"
  by (rule nth_equalityI) (auto simp: nth_append)

section \<open>Linked lists in a store\<close>

text \<open>
  \<open>walk nxt P p\<close> is the loop \<open>for (q = p; q; q = q->next) if (P(q)) break;\<close>. It need not end
  when the next pointers form a cycle, so it returns an option of the pointer the loop stops at.
\<close>

partial_function (option) walk :: "('p \<Rightarrow> 'p option) \<Rightarrow> ('p \<Rightarrow> bool) \<Rightarrow> 'p option \<Rightarrow> 'p option option" where
  "walk nxt P p =
     (case p of None \<Rightarrow> Some None
      | Some q \<Rightarrow> if P q then Some (Some q) else walk nxt P (nxt q))"

fun chain :: "('p \<Rightarrow> 'p option) \<Rightarrow> 'p option \<Rightarrow> 'p list \<Rightarrow> bool" where
  "chain nxt p [] \<longleftrightarrow> p = None"
| "chain nxt p (q # qs) \<longleftrightarrow> p = Some q \<and> chain nxt (nxt q) qs"

lemma walk_chain: "chain nxt p qs \<Longrightarrow> walk nxt P p = Some (List.find P qs)"
  by (induction qs arbitrary: p) (auto simp: walk.simps)

text \<open>A walk that stays in a set without a match does not end.\<close>

definition stays :: "'p set \<Rightarrow> ('p \<Rightarrow> 'p option) \<Rightarrow> ('p \<Rightarrow> bool) \<Rightarrow> bool" where
  "stays S nxt P \<longleftrightarrow> (\<forall>p\<in>S. \<not> P p \<and> nxt p \<in> Some ` S)"

lemma walk_in_set:
  assumes "walk nxt P q = Some r"
  shows "stays S nxt P \<longrightarrow> q \<notin> Some ` S"
proof -
  have "(\<lambda>((nxt, P), q) r. stays S nxt P \<longrightarrow> q \<notin> Some ` S) ((nxt, P), q) r"
  proof (rule walk.raw_induct [OF _ assms])
    fix w and nxt :: "'a \<Rightarrow> 'a option" and P :: "'a \<Rightarrow> bool" and q r
    assume IH: "\<And>nxt P b y. w nxt P b = Some y \<Longrightarrow> (\<lambda>((nxt, P), q) r. stays S nxt P \<longrightarrow> q \<notin> Some ` S) ((nxt, P), b) y"
      and eq: "(case q of None \<Rightarrow> Some None | Some q \<Rightarrow> if P q then Some (Some q) else w nxt P (nxt q)) = Some r"
    have "q \<notin> Some ` S" if "stays S nxt P"
    proof
      assume "q \<in> Some ` S"
      then obtain p where p: "q = Some p" "\<not> P p" "nxt p \<in> Some ` S"
        using \<open>stays S nxt P\<close> unfolding stays_def by blast
      with eq have "w nxt P (nxt p) = Some r"
        by simp
      from IH [OF this] that p(3) show False
        by (simp only: split_conv)
    qed
    then show "(\<lambda>((nxt, P), q) r. stays S nxt P \<longrightarrow> q \<notin> Some ` S) ((nxt, P), q) r"
      by (simp only: split_conv) blast
  qed
  then show ?thesis
    by (simp only: split_conv)
qed

lemma walk_cycle: "stays S nxt P \<Longrightarrow> q \<in> S \<Longrightarrow> walk nxt P (Some q) = None"
  using walk_in_set [of nxt P "Some q" _ S] by (cases "walk nxt P (Some q)") blast+

lemma chain_cong: "(\<And>q. q \<in> set qs \<Longrightarrow> nxt q = nxt' q) \<Longrightarrow> chain nxt p qs \<longleftrightarrow> chain nxt' p qs"
  by (induction qs arbitrary: p) auto

lemma chain_unique: "chain nxt p qs \<Longrightarrow> chain nxt p rs \<Longrightarrow> qs = rs"
proof (induction qs arbitrary: p rs)
  case Nil
  then show ?case by (cases rs) auto
next
  case (Cons q qs)
  then show ?case by (cases rs) auto
qed

section \<open>First match in an array\<close>

text \<open>The loop \<open>for (i = 0; i < n; i++) if (P(a[i])) break;\<close>.\<close>

fun first_index :: "('a \<Rightarrow> bool) \<Rightarrow> 'a list \<Rightarrow> nat option" where
  "first_index P [] = None"
| "first_index P (x # xs) = (if P x then Some 0 else map_option Suc (first_index P xs))"

lemma first_index_None: "first_index P xs = None \<longleftrightarrow> (\<forall>x \<in> set xs. \<not> P x)"
  by (induction xs) auto

lemma first_index_Some:
  "first_index P xs = Some i \<longleftrightarrow> i < length xs \<and> P (xs ! i) \<and> (\<forall>j < i. \<not> P (xs ! j))"
proof (induction xs arbitrary: i)
  case (Cons x xs)
  then show ?case
    by (cases i) (auto simp: less_Suc_eq_0_disj All_less_Suc2)
qed simp

lemma first_index_SomeD:
  "first_index P xs = Some i \<Longrightarrow> i < length xs \<and> P (xs ! i)"
  by (simp add: first_index_Some)

lemma first_index_cong:
  "length xs = length ys \<Longrightarrow> (\<And>i. i < length xs \<Longrightarrow> P (xs ! i) = Q (ys ! i)) \<Longrightarrow>
    first_index P xs = first_index Q ys"
proof (induction xs ys rule: list_induct2')
  case (4 x xs y ys)
  have "P x = Q y" using 4(3) [of 0] by simp
  moreover have "first_index P xs = first_index Q ys"
    using 4(1,2) 4(3) [of "Suc i" for i] by auto
  ultimately show ?case by simp
qed auto

lemma first_index_update_irrelevant:
  "i < length xs \<Longrightarrow> \<not> P (xs ! i) \<Longrightarrow> \<not> P x \<Longrightarrow> first_index P (xs[i := x]) = first_index P xs"
  by (rule first_index_cong) (auto simp: nth_list_update)

lemma first_index_unique:
  "i < length xs \<Longrightarrow> P (xs ! i) \<Longrightarrow> (\<And>j. j < length xs \<Longrightarrow> j \<noteq> i \<Longrightarrow> \<not> P (xs ! j)) \<Longrightarrow>
    first_index P xs = Some i"
  by (auto simp: first_index_Some)

text \<open>The loop \<open>for (i = a; i < b; i++) if (P(i)) break;\<close>.\<close>

lemma find_upt_None: "List.find P [a..<b] = None \<longleftrightarrow> (\<forall>i. a \<le> i \<and> i < b \<longrightarrow> \<not> P i)"
  by (auto simp: find_None_iff)

lemma find_upt_Some:
  "List.find P [a..<b] = Some i \<longleftrightarrow> a \<le> i \<and> i < b \<and> P i \<and> (\<forall>j. a \<le> j \<and> j < i \<longrightarrow> \<not> P j)"
proof
  assume "List.find P [a..<b] = Some i"
  then obtain k where k: "k < b - a" "i = a + k" "P i" "\<forall>j < k. \<not> P (a + j)"
    by (auto simp: find_Some_iff)
  have "\<not> P j" if "a \<le> j" "j < i" for j
    using k that by (metis le_Suc_ex nat_add_left_cancel_less)
  then show "a \<le> i \<and> i < b \<and> P i \<and> (\<forall>j. a \<le> j \<and> j < i \<longrightarrow> \<not> P j)"
    using k by auto
next
  assume i: "a \<le> i \<and> i < b \<and> P i \<and> (\<forall>j. a \<le> j \<and> j < i \<longrightarrow> \<not> P j)"
  then show "List.find P [a..<b] = Some i"
    unfolding find_Some_iff by (intro exI [of _ "i - a"]) auto
qed

section \<open>Sums of machine words\<close>

lemma unat_less_8: "unat (w :: u8) < 256"
proof -
  have "unat w < 2 ^ LENGTH(8)" by (rule unsigned_less)
  then show ?thesis by simp
qed

lemma unat_less_32: "unat (w :: u32) < 2 ^ 32"
proof -
  have "unat w < 2 ^ LENGTH(32)" by (rule unsigned_less)
  then show ?thesis by simp
qed

lemma unat_ucast_up: "unat (ucast (w :: u32) :: u64) = unat w"
  using unat_less_32 [of w] by (simp add: unsigned_ucast_eq take_bit_nat_eq_self)

text \<open>The four bytes of a 32-bit number, and a two-dimensional index laid out row by row.\<close>

lemma four_bytes:
  assumes "(n :: nat) < 2 ^ 32"
  shows "n mod 256 + 256 * (n div 256 mod 256) + 65536 * (n div 65536 mod 256) +
      16777216 * (n div 16777216 mod 256) = n"
  using mod_mult2_eq [of n 256 256] mod_mult2_eq [of n 65536 256] mod_mult2_eq [of n 16777216 256] assms
  by simp

lemma row_column: "4096 * (1 + (k :: nat) div 64) + 64 * (k mod 64) = 4096 + 64 * k"
proof -
  have "4096 * (1 + q) + 64 * r = 4096 + 64 * k" if "k = 64 * q + r" for q r
    using that by simp
  from this [of "k div 64" "k mod 64"] show ?thesis by simp
qed

lemma unat_plus_64: "unat a + unat b < 2 ^ 64 \<Longrightarrow> unat (a + b :: u64) = unat a + unat b"
  by (simp add: unat_word_ariths)

lemma unat_plus_32: "unat a + unat b < 2 ^ 32 \<Longrightarrow> unat (a + b :: u32) = unat a + unat b"
  by (simp add: unat_word_ariths)

end
