(* ===== verification/Kmalloc.thy ===== *)
theory Kmalloc
  imports Prelude
begin

text \<open>
  \<open>kmalloc.c\<close>: the kernel heap, a 1 MiB array with a bump pointer. A pointer into the heap is its
  offset in the array; \<open>kfree\<close> does nothing. The interface \<open>bump_allocator\<close> states what the
  callers rely on (blocks do not overlap and stay inside the heap); it holds for every request
  below 2 ^ 63 bytes. A larger request can wrap the 64-bit sum of the bounds test.
\<close>

section \<open>The code\<close>

abbreviation (input) heap_bytes :: u64 where
  "heap_bytes \<equiv> 1024 * 1024"

text \<open>\<open>kalloc\<close> takes and returns the bump pointer \<open>heap_pos\<close>.\<close>

definition kalloc :: "u64 \<Rightarrow> u64 \<Rightarrow> u64 option \<times> u64" where
  "kalloc n heap_pos =
     (if heap_pos + n > heap_bytes then (None, heap_pos)
      else (Some heap_pos, heap_pos + n))"

definition kfree :: "u64 \<Rightarrow> u64 \<Rightarrow> u64" where
  "kfree ptr heap_pos = heap_pos"

text \<open>The bump pointer never leaves the heap.\<close>

definition heap_ok :: "u64 \<Rightarrow> bool" where
  "heap_ok heap_pos \<longleftrightarrow> heap_pos \<le> heap_bytes"

section \<open>The allocator interface\<close>

text \<open>Requests one after another, until one fails.\<close>

fun alloc_all :: "(nat \<Rightarrow> 'h \<Rightarrow> 'p option \<times> 'h) \<Rightarrow> nat list \<Rightarrow> 'h \<Rightarrow> ('p \<times> nat) list \<times> 'h" where
  "alloc_all alloc [] h = ([], h)"
| "alloc_all alloc (n # ns) h =
     (case alloc n h of
        (None, h') \<Rightarrow> ([], h')
      | (Some p, h') \<Rightarrow> (case alloc_all alloc ns h' of (bs, h'') \<Rightarrow> ((p, n) # bs, h'')))"

definition disjoint_blocks :: "('p \<Rightarrow> nat) \<Rightarrow> ('p \<times> nat) list \<Rightarrow> bool" where
  "disjoint_blocks addr bs \<longleftrightarrow>
     sorted_wrt (\<lambda>(p, n) (q, k). addr p + n \<le> addr q) bs"

locale bump_allocator =
  fixes alloc :: "nat \<Rightarrow> 'h \<Rightarrow> 'p option \<times> 'h"
    and addr :: "'p \<Rightarrow> nat"
    and top :: "'h \<Rightarrow> nat"
    and inv :: "'h \<Rightarrow> bool"
    and fits :: "nat \<Rightarrow> bool"
    and cap :: nat
  assumes inv_top: "inv h \<Longrightarrow> top h \<le> cap"
    and alloc_inv: "inv h \<Longrightarrow> fits n \<Longrightarrow> inv (snd (alloc n h))"
    and alloc_none: "inv h \<Longrightarrow> fits n \<Longrightarrow> fst (alloc n h) = None \<longleftrightarrow> cap < top h + n"
    and alloc_fail: "fst (alloc n h) = None \<Longrightarrow> snd (alloc n h) = h"
    and alloc_some: "inv h \<Longrightarrow> fits n \<Longrightarrow> fst (alloc n h) = Some p \<Longrightarrow>
      addr p = top h \<and> top (snd (alloc n h)) = top h + n"
begin

lemma alloc_all_top:
  assumes "inv h" and "\<forall>n \<in> set ns. fits n" and "alloc_all alloc ns h = (bs, h')"
  shows "inv h' \<and> top h' = top h + sum_list (map snd bs)"
  using assms
proof (induction ns arbitrary: h bs h')
  case (Cons n ns)
  obtain r h1 where a: "alloc n h = (r, h1)"
    by fastforce
  with Cons.prems alloc_inv [of h n] have inv: "inv h1"
    by simp
  show ?case
  proof (cases r)
    case None
    with a Cons.prems alloc_fail [of n h] show ?thesis by auto
  next
    case (Some p)
    obtain bs' h2 where r: "alloc_all alloc ns h1 = (bs', h2)"
      by fastforce
    with Cons.IH [OF inv _ r] Cons.prems a Some alloc_some [of h n p] show ?thesis
      by auto
  qed
qed simp

lemma alloc_all_bounds:
  assumes "inv h" and "\<forall>n \<in> set ns. fits n" and "alloc_all alloc ns h = (bs, h')"
  shows "\<forall>(p, n) \<in> set bs. top h \<le> addr p \<and> addr p + n \<le> cap"
  using assms
proof (induction ns arbitrary: h bs h')
  case (Cons n ns)
  obtain r h1 where a: "alloc n h = (r, h1)"
    by fastforce
  with Cons.prems alloc_inv [of h n] have inv: "inv h1"
    by simp
  show ?case
  proof (cases r)
    case None
    with a Cons.prems show ?thesis by auto
  next
    case (Some p)
    obtain bs' h2 where r: "alloc_all alloc ns h1 = (bs', h2)"
      by fastforce
    have "addr p = top h" "top h1 = top h + n" "top h1 \<le> cap"
      using alloc_some [of h n p] Cons.prems a Some inv_top [OF inv] by auto
    with Cons.IH [OF inv _ r] Cons.prems a Some r show ?thesis
      by fastforce
  qed
qed simp

lemma alloc_all_disjoint:
  assumes "inv h" and "\<forall>n \<in> set ns. fits n" and "alloc_all alloc ns h = (bs, h')"
  shows "disjoint_blocks addr bs"
  using assms
proof (induction ns arbitrary: h bs h')
  case (Cons n ns)
  obtain r h1 where a: "alloc n h = (r, h1)"
    by fastforce
  with Cons.prems alloc_inv [of h n] have inv: "inv h1"
    by simp
  show ?case
  proof (cases r)
    case None
    with a Cons.prems show ?thesis by (auto simp: disjoint_blocks_def)
  next
    case (Some p)
    obtain bs' h2 where r: "alloc_all alloc ns h1 = (bs', h2)"
      by fastforce
    have "addr p = top h" "top h1 = top h + n"
      using alloc_some [of h n p] Cons.prems a Some by auto
    moreover have "\<forall>(q, k) \<in> set bs'. top h1 \<le> addr q"
      using alloc_all_bounds [OF inv _ r] Cons.prems by auto
    moreover have "disjoint_blocks addr bs'"
      using Cons.IH [OF inv _ r] Cons.prems by simp
    ultimately show ?thesis
      using Cons.prems a Some r by (auto simp: disjoint_blocks_def)
  qed
qed (simp add: disjoint_blocks_def)

text \<open>What was handed out never exceeds the capacity.\<close>

lemma alloc_all_exhausts:
  assumes "inv h" and "\<forall>n \<in> set ns. fits n" and "alloc_all alloc ns h = (bs, h')"
  shows "top h + sum_list (map snd bs) \<le> cap"
  using alloc_all_top [OF assms] inv_top [of h'] by simp

end

section \<open>\<open>kalloc\<close> provides the interface\<close>

lemma kalloc_no_wrap:
  assumes "heap_ok h" and "n < 2 ^ 63"
  shows "unat (h + of_nat n) = unat h + n"
proof -
  have "unat h \<le> 1048576"
    using assms(1) by (simp add: heap_ok_def word_le_nat_alt)
  moreover have "unat (of_nat n :: u64) = n"
    using assms(2) by (simp add: unat_of_nat)
  ultimately show ?thesis
    using assms(2) by (simp add: unat_word_ariths)
qed

definition kalloc_nat :: "nat \<Rightarrow> u64 \<Rightarrow> u64 option \<times> u64" where
  "kalloc_nat n h = kalloc (of_nat n) h"

interpretation kheap: bump_allocator kalloc_nat unat unat heap_ok "\<lambda>n. n < 2 ^ 63" 1048576
proof (unfold_locales, goal_cases)
  case (1 h)
  then show ?case by (simp add: heap_ok_def word_le_nat_alt)
next
  case (2 h n)
  then show ?case
    by (simp add: kalloc_nat_def kalloc_def heap_ok_def not_less)
next
  case (3 h n)
  then show ?case
    using kalloc_no_wrap [OF 3] by (simp add: kalloc_nat_def kalloc_def word_less_nat_alt)
next
  case (4 n h)
  then show ?case by (simp add: kalloc_nat_def kalloc_def split: if_splits)
next
  case (5 h n p)
  then show ?case
    using kalloc_no_wrap [OF 5(1,2)] by (auto simp: kalloc_nat_def kalloc_def split: if_splits)
qed

section \<open>Facts used by the callers\<close>

lemma kalloc_heap_ok: "heap_ok h \<Longrightarrow> heap_ok (snd (kalloc n h))"
  by (simp add: kalloc_def heap_ok_def not_less)

lemma kalloc_Some: "kalloc n h = (Some p, h') \<Longrightarrow> p = h \<and> h' = h + n"
  by (auto simp: kalloc_def split: if_splits)

lemma kalloc_None: "kalloc n h = (None, h') \<Longrightarrow> h' = h"
  by (auto simp: kalloc_def split: if_splits)

end
