(* ===== verification/Message_Queue.thy ===== *)
theory Message_Queue
  imports Prelude
begin

text \<open>
  \<open>message.h\<close> and the queue of \<open>message.c\<close>: the message record, and the per-process ring buffer of
  32 messages that \<open>queue_message\<close> fills and \<open>receive_message\<close> drains. The interface
  \<open>bounded_fifo\<close> is what sender and receiver rely on: a bounded first-in first-out queue. The ring
  buffer refines it.
\<close>

section \<open>Messages\<close>

text \<open>\<open>enum msg_type\<close>; the field \<open>type\<close> of a message is a 64-bit integer.\<close>

abbreviation (input) MSG_NONE :: u64 where "MSG_NONE \<equiv> 0"
abbreviation (input) MSG_OPEN :: u64 where "MSG_OPEN \<equiv> 1"
abbreviation (input) MSG_READ :: u64 where "MSG_READ \<equiv> 2"
abbreviation (input) MSG_WRITE :: u64 where "MSG_WRITE \<equiv> 3"
abbreviation (input) MSG_CLOSE :: u64 where "MSG_CLOSE \<equiv> 4"
abbreviation (input) MSG_STAT :: u64 where "MSG_STAT \<equiv> 5"
abbreviation (input) MSG_BIND :: u64 where "MSG_BIND \<equiv> 6"
abbreviation (input) MSG_MOUNT :: u64 where "MSG_MOUNT \<equiv> 7"
abbreviation (input) MSG_FORK :: u64 where "MSG_FORK \<equiv> 8"
abbreviation (input) MSG_EXEC :: u64 where "MSG_EXEC \<equiv> 9"
abbreviation (input) MSG_WAIT :: u64 where "MSG_WAIT \<equiv> 10"
abbreviation (input) MSG_PIPE :: u64 where "MSG_PIPE \<equiv> 11"
abbreviation (input) MSG_READ_DIR :: u64 where "MSG_READ_DIR \<equiv> 12"
abbreviation (input) MSG_UNBIND :: u64 where "MSG_UNBIND \<equiv> 13"

abbreviation (input) MSG_NONBLOCK :: u32 where "MSG_NONBLOCK \<equiv> 1"

text \<open>\<open>struct dirent\<close>: the name is the value of its 256-byte buffer.\<close>

record dirent =
  d_inode :: u64
  d_name :: string

text \<open>
  \<open>struct Message\<close>. A string pointer is the string or null; \<open>argv\<close> is the address of the vector
  with the vector itself; \<open>data\<close> is the buffer it points to; \<open>dirents\<close> the entries it points to.
\<close>

record message =
  mtype :: u64
  mpath :: "string option"
  margv :: "(u64 \<times> string list) option"
  mdata :: "char list option"
  msize :: u64
  mflags :: u32
  mfd :: int
  mpid :: int
  mstatus :: int
  mentry :: u64
  mdirents :: "dirent list option"
  mdirent_count :: u64

definition zero_message :: message where
  "zero_message = \<lparr>mtype = MSG_NONE, mpath = None, margv = None, mdata = None, msize = 0,
     mflags = 0, mfd = 0, mpid = 0, mstatus = 0, mentry = 0, mdirents = None, mdirent_count = 0\<rparr>"

section \<open>The ring buffer\<close>

abbreviation (input) MAX_MESSAGES :: nat where
  "MAX_MESSAGES \<equiv> 32"

record message_queue =
  messages :: "message list"
  qhead :: nat
  qtail :: nat
  qcount :: nat

definition empty_queue :: message_queue where
  "empty_queue = \<lparr>messages = replicate MAX_MESSAGES zero_message, qhead = 0, qtail = 0, qcount = 0\<rparr>"

text \<open>The queue part of \<open>queue_message\<close>: None when the queue is full (the code returns -1).\<close>

definition mq_push :: "message \<Rightarrow> message_queue \<Rightarrow> message_queue option" where
  "mq_push msg q =
     (if qcount q \<ge> MAX_MESSAGES then None
      else Some (q\<lparr>messages := (messages q)[qtail q := msg],
                   qtail := (qtail q + 1) mod MAX_MESSAGES,
                   qcount := qcount q + 1\<rparr>))"

text \<open>The queue part of \<open>receive_message\<close>: None when the queue is empty.\<close>

definition mq_pop :: "message_queue \<Rightarrow> (message \<times> message_queue) option" where
  "mq_pop q =
     (if qcount q = 0 then None
      else Some (messages q ! qhead q,
                 q\<lparr>qhead := (qhead q + 1) mod MAX_MESSAGES, qcount := qcount q - 1\<rparr>))"

section \<open>The interface: a bounded queue\<close>

text \<open>Push a list of items, stopping at the first one that is refused; pop \<open>n\<close> times.\<close>

fun push_all :: "('a \<Rightarrow> 'q \<Rightarrow> 'q option) \<Rightarrow> 'a list \<Rightarrow> 'q \<Rightarrow> 'q option" where
  "push_all push [] q = Some q"
| "push_all push (x # xs) q = (case push x q of None \<Rightarrow> None | Some q' \<Rightarrow> push_all push xs q')"

fun pop_n :: "('q \<Rightarrow> ('a \<times> 'q) option) \<Rightarrow> nat \<Rightarrow> 'q \<Rightarrow> 'a list \<times> 'q" where
  "pop_n pop 0 q = ([], q)"
| "pop_n pop (Suc n) q =
     (case pop q of None \<Rightarrow> ([], q)
      | Some (x, q') \<Rightarrow> (case pop_n pop n q' of (xs, q'') \<Rightarrow> (x # xs, q'')))"

locale bounded_fifo =
  fixes push :: "'a \<Rightarrow> 'q \<Rightarrow> 'q option"
    and pop :: "'q \<Rightarrow> ('a \<times> 'q) option"
    and contents :: "'q \<Rightarrow> 'a list"
    and inv :: "'q \<Rightarrow> bool"
    and cap :: nat
  assumes push_full: "inv q \<Longrightarrow> push x q = None \<longleftrightarrow> cap \<le> length (contents q)"
    and push_some: "inv q \<Longrightarrow> push x q = Some q' \<Longrightarrow> inv q' \<and> contents q' = contents q @ [x]"
    and pop_empty: "inv q \<Longrightarrow> pop q = None \<longleftrightarrow> contents q = []"
    and pop_some: "inv q \<Longrightarrow> pop q = Some (x, q') \<Longrightarrow> inv q' \<and> contents q = x # contents q'"
begin

lemma push_all_some:
  "inv q \<Longrightarrow> push_all push xs q = Some q' \<Longrightarrow> inv q' \<and> contents q' = contents q @ xs"
proof (induction xs arbitrary: q)
  case (Cons x xs)
  then obtain q1 where "push x q = Some q1" "push_all push xs q1 = Some q'"
    by (auto split: option.splits)
  with Cons.IH [of q1] Cons.prems(1) push_some [of q x q1] show ?case
    by simp
qed simp

lemma push_all_room:
  "inv q \<Longrightarrow> length (contents q) + length xs \<le> cap \<Longrightarrow> push_all push xs q \<noteq> None"
proof (induction xs arbitrary: q)
  case (Cons x xs)
  then obtain q1 where "push x q = Some q1"
    using push_full [of q x] by (cases "push x q") auto
  with Cons push_some [of q x q1] show ?case by simp
qed simp

lemma pop_n_contents:
  "inv q \<Longrightarrow> pop_n pop n q = (xs, q') \<Longrightarrow>
    inv q' \<and> xs = take n (contents q) \<and> contents q' = drop n (contents q)"
proof (induction n arbitrary: q xs)
  case (Suc n)
  show ?case
  proof (cases "pop q")
    case None
    with Suc.prems pop_empty [of q] show ?thesis by auto
  next
    case (Some r)
    obtain x q1 where r: "r = (x, q1)" by fastforce
    obtain ys q2 where p: "pop_n pop n q1 = (ys, q2)" by fastforce
    show ?thesis
      using Suc.prems Some r p pop_some [of q x q1] Suc.IH [of q1 ys] by auto
  qed
qed simp

text \<open>What goes in comes out, in the same order, behind what was there before.\<close>

lemma fifo:
  assumes "inv q" and "length (contents q) + length xs \<le> cap"
  shows "\<exists>q'. push_all push xs q = Some q' \<and>
    fst (pop_n pop (length (contents q) + length xs) q') = contents q @ xs \<and>
    contents (snd (pop_n pop (length (contents q) + length xs) q')) = []"
proof -
  obtain q' where q': "push_all push xs q = Some q'"
    using push_all_room [OF assms] by auto
  have c: "inv q'" "contents q' = contents q @ xs"
    using push_all_some [OF assms(1) q'] by auto
  then show ?thesis
    using q' pop_n_contents [of q' "length (contents q) + length xs"]
    by (cases "pop_n pop (length (contents q) + length xs) q'") auto
qed

end

section \<open>The ring buffer refines it\<close>

definition mq_contents :: "message_queue \<Rightarrow> message list" where
  "mq_contents q = map (\<lambda>i. messages q ! ((qhead q + i) mod MAX_MESSAGES)) [0..<qcount q]"

definition mq_inv :: "message_queue \<Rightarrow> bool" where
  "mq_inv q \<longleftrightarrow> length (messages q) = MAX_MESSAGES \<and> qhead q < MAX_MESSAGES \<and>
     qcount q \<le> MAX_MESSAGES \<and> qtail q = (qhead q + qcount q) mod MAX_MESSAGES"

lemma length_mq_contents [simp]: "length (mq_contents q) = qcount q"
  by (simp add: mq_contents_def)

lemma empty_queue_inv [simp]: "mq_inv empty_queue" "mq_contents empty_queue = []"
  by (simp_all add: mq_inv_def mq_contents_def empty_queue_def)

lemma ring_index_inj:
  assumes "i < n" and "n < 32"
  shows "(h + n) mod 32 \<noteq> (h + i) mod (32 :: nat)"
proof
  assume "(h + n) mod 32 = (h + i) mod (32 :: nat)"
  then have "(32 :: nat) dvd (h + n) - (h + i)"
    using assms by (simp add: mod_eq_dvd_iff_nat)
  with assms show False
    by (auto dest: dvd_imp_le)
qed

lemma mq_push_some:
  assumes "mq_inv q" and "mq_push x q = Some q'"
  shows "mq_inv q' \<and> mq_contents q' = mq_contents q @ [x]"
proof -
  from assms(2) have c: "qcount q < 32"
    and q': "q' = q\<lparr>messages := (messages q)[qtail q := x],
      qtail := (qtail q + 1) mod 32, qcount := qcount q + 1\<rparr>"
    by (auto simp: mq_push_def split: if_splits)
  have "mq_inv q'"
    using assms(1) c q' by (auto simp: mq_inv_def) presburger
  moreover have "mq_contents q' = mq_contents q @ [x]"
  proof -
    have "map (\<lambda>i. (messages q)[qtail q := x] ! ((qhead q + i) mod 32)) [0..<qcount q] = mq_contents q"
      using assms(1) c ring_index_inj [of _ "qcount q" "qhead q"]
      by (auto simp: mq_contents_def mq_inv_def)
    moreover have "(messages q)[qtail q := x] ! ((qhead q + qcount q) mod 32) = x"
      using assms(1) by (simp add: mq_inv_def)
    ultimately show ?thesis
      unfolding q' by (simp add: mq_contents_def)
  qed
  ultimately show ?thesis ..
qed

lemma mq_pop_some:
  assumes "mq_inv q" and "mq_pop q = Some (x, q')"
  shows "mq_inv q' \<and> mq_contents q = x # mq_contents q'"
proof -
  from assms(2) have c: "0 < qcount q" and x: "x = messages q ! qhead q"
    and q': "q' = q\<lparr>qhead := (qhead q + 1) mod 32, qcount := qcount q - 1\<rparr>"
    by (auto simp: mq_pop_def split: if_splits)
  from c obtain n where n: "qcount q = Suc n"
    by (cases "qcount q") auto
  have "mq_inv q'"
    using assms(1) n q' by (simp add: mq_inv_def) presburger
  moreover have "mq_contents q = x # mq_contents q'"
  proof -
    have "[0..<Suc n] = 0 # map Suc [0..<n]"
      by (simp add: map_Suc_upt upt_conv_Cons del: upt_Suc)
    moreover have "(qhead q + 1) mod 32 + i = (qhead q + 1) mod 32 + i" for i ..
    ultimately show ?thesis
      using assms(1) n q' x
      by (simp add: mq_contents_def mq_inv_def mod_simps del: upt_Suc)
  qed
  ultimately show ?thesis ..
qed

interpretation mq: bounded_fifo mq_push mq_pop mq_contents mq_inv MAX_MESSAGES
proof (unfold_locales, goal_cases)
  case (1 q x)
  then show ?case by (simp add: mq_push_def)
next
  case (2 q x q')
  then show ?case by (rule mq_push_some)
next
  case (3 q)
  then show ?case by (auto simp: mq_pop_def mq_contents_def)
next
  case (4 q x q')
  then show ?case by (rule mq_pop_some)
qed

end
