(* ===== verification/Context_Switch.thy ===== *)
theory Context_Switch
  imports Prelude
begin

text \<open>
  \<open>context_t\<close> of \<open>process.h\<close> and the routine \<open>context_switch\<close> of \<open>context_switch.S\<close>. The C side
  reads and writes a context by its fields, the assembler by byte offsets; \<open>ctx_words\<close> is the layout
  of the structure as 8-byte words, so that both views are of the same memory.
\<close>

section \<open>Contexts and the processor\<close>

record context_t =
  ctx_pc :: u64
  ctx_sp :: u64
  ctx_lr :: u64
  ctx_x :: "u64 list"

definition zero_context :: context_t where
  "zero_context = \<lparr>ctx_pc = 0, ctx_sp = 0, ctx_lr = 0, ctx_x = replicate 31 0\<rparr>"

definition ctx_words :: "context_t \<Rightarrow> u64 list" where
  "ctx_words c = [ctx_pc c, ctx_sp c, ctx_lr c] @ ctx_x c"

definition ctx_of_words :: "u64 list \<Rightarrow> context_t" where
  "ctx_of_words ws = \<lparr>ctx_pc = ws ! 0, ctx_sp = ws ! 1, ctx_lr = ws ! 2, ctx_x = drop 3 ws\<rparr>"

text \<open>The registers \<open>x0\<close> to \<open>x30\<close>, the stack pointer, the interrupt mask and the program counter.\<close>

record cpu =
  xregs :: "u64 list"
  cpu_sp :: u64
  cpu_daif :: u64
  cpu_pc :: u64

text \<open>The stores: \<open>x19\<close> to \<open>x30\<close> at offsets 0 to 88, the stack pointer at 96, \<open>DAIF\<close> at 104.\<close>

definition cs_save :: "cpu \<Rightarrow> context_t \<Rightarrow> context_t" where
  "cs_save m c = ctx_of_words
     (take 12 (drop 19 (xregs m)) @ [cpu_sp m, cpu_daif m] @ drop 14 (ctx_words c))"

text \<open>The loads, through the scratch register \<open>x2\<close>, and \<open>ret\<close>, which jumps to \<open>x30\<close>.\<close>

definition cs_restore :: "context_t \<Rightarrow> cpu \<Rightarrow> cpu" where
  "cs_restore c m =
     (let ws = ctx_words c in
      \<lparr>xregs = take 19 ((xregs m)[2 := ws ! 12]) @ take 12 ws,
       cpu_sp = ws ! 12, cpu_daif = ws ! 13, cpu_pc = ws ! 11\<rparr>)"

text \<open>
  \<open>context_switch(old, new)\<close> on a store of contexts: nothing is saved for a null \<open>old\<close>; a save
  into the context that is then loaded is seen by the loads.
\<close>

definition context_switch ::
  "'p option \<Rightarrow> 'p \<Rightarrow> ('p \<Rightarrow> context_t) \<Rightarrow> cpu \<Rightarrow> ('p \<Rightarrow> context_t) \<times> cpu" where
  "context_switch old new ctxs m =
     (let ctxs' = (case old of None \<Rightarrow> ctxs | Some p \<Rightarrow> ctxs(p := cs_save m (ctxs p)))
      in (ctxs', cs_restore (ctxs' new) m))"

section \<open>Layout and round trip\<close>

definition ctx_ok :: "context_t \<Rightarrow> bool" where
  "ctx_ok c \<longleftrightarrow> length (ctx_x c) = 31"

definition cpu_ok :: "cpu \<Rightarrow> bool" where
  "cpu_ok m \<longleftrightarrow> length (xregs m) = 31"

lemma length_ctx_words: "ctx_ok c \<Longrightarrow> length (ctx_words c) = 34"
  by (simp add: ctx_words_def ctx_ok_def)

lemma ctx_of_words_words [simp]: "ctx_of_words (ctx_words c) = c"
  by (simp add: ctx_of_words_def ctx_words_def)

lemma ctx_words_of_words: "3 \<le> length ws \<Longrightarrow> ctx_words (ctx_of_words ws) = ws"
proof -
  assume "3 \<le> length ws"
  then obtain a b c r where "ws = a # b # c # r"
    by (metis One_nat_def Suc_le_length_iff numeral_3_eq_3)
  then show ?thesis
    by (simp add: ctx_of_words_def ctx_words_def)
qed

lemma ctx_words_save:
  "cpu_ok m \<Longrightarrow> ctx_words (cs_save m c) =
     take 12 (drop 19 (xregs m)) @ [cpu_sp m, cpu_daif m] @ drop 14 (ctx_words c)"
  unfolding cs_save_def by (subst ctx_words_of_words) (simp_all add: cpu_ok_def)

lemma cs_save_ok: "cpu_ok m \<Longrightarrow> ctx_ok c \<Longrightarrow> ctx_ok (cs_save m c)"
  using length_ctx_words [of c]
  by (simp add: cs_save_def ctx_ok_def ctx_of_words_def cpu_ok_def)

lemma cs_restore_ok: "cpu_ok m \<Longrightarrow> ctx_ok c \<Longrightarrow> cpu_ok (cs_restore c m)"
  using length_ctx_words [of c] by (simp add: cs_restore_def cpu_ok_def Let_def)

text \<open>The callee-saved part of the processor state.\<close>

definition saved_part :: "cpu \<Rightarrow> u64 list \<times> u64 \<times> u64" where
  "saved_part m = (drop 19 (xregs m), cpu_sp m, cpu_daif m)"

lemma restore_save:
  assumes "cpu_ok m" and "cpu_ok m'"
  shows "saved_part (cs_restore (cs_save m c) m') = saved_part m"
    and "cpu_pc (cs_restore (cs_save m c) m') = xregs m ! 30"
  using assms by (simp_all add: saved_part_def cs_restore_def ctx_words_save Let_def cpu_ok_def nth_append)

text \<open>
  Switching away from a process and, later, back to it gives it back its callee-saved registers,
  stack pointer and interrupt mask, and continues after its call of \<open>context_switch\<close>, whatever ran
  in between, as long as nobody wrote its context.
\<close>

lemma switch_away_and_back:
  assumes "context_switch (Some p) q ctxs m = (ctxs1, m1)"
    and "ctxs2 p = ctxs1 p" and "r \<noteq> Some p" and "cpu_ok m" and "cpu_ok m2"
    and "context_switch r p ctxs2 m2 = (ctxs3, m3)"
  shows "saved_part m3 = saved_part m \<and> cpu_pc m3 = xregs m ! 30"
proof -
  have "ctxs1 p = cs_save m (ctxs p)"
    using assms(1) by (auto simp: context_switch_def Let_def)
  moreover have "m3 = cs_restore (ctxs2 p) m2"
    using assms(3,6) by (auto simp: context_switch_def Let_def split: option.splits)
  ultimately show ?thesis
    using restore_save [OF assms(4,5)] assms(2) by simp
qed

text \<open>
  The layouts disagree: the word that \<open>ret\<close> jumps to is not the field \<open>pc\<close> but the array element
  \<open>x[8]\<close>, and the stack pointer is loaded from \<open>x[9]\<close>.
\<close>

lemma restore_fields:
  "cpu_pc (cs_restore c m) = ctx_x c ! 8"
  "cpu_sp (cs_restore c m) = ctx_x c ! 9"
  "cpu_daif (cs_restore c m) = ctx_x c ! 10"
  by (simp_all add: cs_restore_def ctx_words_def Let_def)

end
