(* ===== verification/Process.thy ===== *)
theory Process
  imports Kmalloc Message_Queue Context_Switch
begin

unbundle bit_operations_syntax

text \<open>
  \<open>process.c\<close>, \<open>process.h\<close> and the queue handlers of \<open>message.c\<close>: process records, the process list
  threaded through \<open>next\<close>, creation, the scheduler, exit, wait and exec. The state is a store of
  process records addressed by pointers (\<open>pref\<close>) together with the globals of \<open>process.c\<close> and the
  processor. The diagnostics the code prints are not part of the state.
\<close>

section \<open>Data\<close>

datatype process_state = PROC_READY | PROC_RUNNING | PROC_BLOCKED | PROC_ZOMBIE | PROC_DEAD

text \<open>\<open>struct namespace\<close>: a binding. The list that \<open>next\<close> threads is a HOL list in the process.\<close>

record ns_entry =
  old_path :: string
  new_path :: string
  ns_flags :: int

text \<open>A pointer to a process: into the static array, or from \<open>kalloc\<close>.\<close>

datatype pref = Slot nat | Heap u64

record process =
  pid :: int
  parent_pid :: int
  pstate :: process_state
  ns_mounts :: "ns_entry list"
  ctx :: context_t
  psp :: u64
  next_p :: "pref option"
  exit_status :: int
  msg_queue :: message_queue
  msg_blocked :: bool
  cwd :: "char list"

abbreviation (input) MAX_PROCESSES :: nat where "MAX_PROCESSES \<equiv> 4"
abbreviation (input) PROCESS_STACK_SIZE :: u64 where "PROCESS_STACK_SIZE \<equiv> 4096"
abbreviation (input) PROCESS_LOAD_ADDR :: u64 where "PROCESS_LOAD_ADDR \<equiv> 0x40100000"
abbreviation (input) PROCESS_STACK_TOP :: u64 where "PROCESS_STACK_TOP \<equiv> 0x40000000"
abbreviation (input) VFS_MAX_PATH :: nat where "VFS_MAX_PATH \<equiv> 256"
abbreviation (input) sizeof_process :: u64 where "sizeof_process \<equiv> 3160"

text \<open>Static storage and the heap start out as zero bytes.\<close>

definition zero_process :: process where
  "zero_process = \<lparr>pid = 0, parent_pid = 0, pstate = PROC_READY, ns_mounts = [],
     ctx = zero_context, psp = 0, next_p = None, exit_status = 0, msg_queue = empty_queue,
     msg_blocked = False, cwd = replicate VFS_MAX_PATH NUL\<rparr>"

record ptable =
  procs :: "pref \<Rightarrow> process"
  process_count :: nat
  current_process :: "pref option"
  process_list :: "pref option"
  ready_queue :: "pref option"
  next_pid :: int
  pcpu :: cpu

definition upd_proc :: "pref \<Rightarrow> (process \<Rightarrow> process) \<Rightarrow> ptable \<Rightarrow> ptable" where
  "upd_proc p f pt = pt\<lparr>procs := (procs pt)(p := f (procs pt p))\<rparr>"

text \<open>The loops over the process list.\<close>

definition list_find :: "ptable \<Rightarrow> (process \<Rightarrow> bool) \<Rightarrow> pref option res" where
  "list_find pt P =
     of_option Hang (walk (\<lambda>p. next_p (procs pt p)) (\<lambda>p. P (procs pt p)) (process_list pt))"

section \<open>Initialisation and creation\<close>

definition process_init :: "ptable \<Rightarrow> ptable res" where
  "process_init pt =
     (let pt1 = pt\<lparr>process_count := 0, current_process := None, ready_queue := None\<rparr> in
      bind_res (of_option Null_Deref (current_process pt1)) (\<lambda>cur.
        Inr (upd_proc cur (\<lambda>p. p\<lparr>cwd := (cwd p)[0 := CHR ''/'', 1 := NUL]\<rparr>) pt1)))"

definition init_process :: "u64 \<Rightarrow> ptable \<Rightarrow> ptable" where
  "init_process process_stacks pt =
     (let sp = process_stacks + PROCESS_STACK_SIZE in
      (upd_proc (Slot 0) (\<lambda>p. p\<lparr>pid := 1, parent_pid := 0, pstate := PROC_RUNNING,
         next_p := None, psp := sp, ctx := (ctx p)\<lparr>ctx_sp := sp, ctx_lr := 0\<rparr>\<rparr>) pt)
      \<lparr>process_list := Some (Slot 0), current_process := Some (Slot 0),
       process_count := 1, next_pid := 2\<rparr>)"

text \<open>\<open>process_create\<close> takes its record from the heap, where it is zero (the heap is static storage
  and no block is used twice); \<open>init_process_namespace\<close> empties its bindings.\<close>

definition process_create :: "u64 \<Rightarrow> u64 \<Rightarrow> ptable \<Rightarrow> pref option \<times> u64 \<times> ptable" where
  "process_create entry heap_pos pt =
     (case kalloc sizeof_process heap_pos of
        (None, h) \<Rightarrow> (None, h, pt)
      | (Some a, h) \<Rightarrow>
          let q = Heap a;
              pt1 = upd_proc q (\<lambda>p. zero_process\<lparr>ns_mounts := []\<rparr>) pt;
              pt2 = (if current_process pt1 = None then pt1\<lparr>current_process := Some q\<rparr> else pt1);
              pt3 = (if process_list pt2 = None then pt2\<lparr>process_list := Some q\<rparr>
                     else (upd_proc q (\<lambda>p. p\<lparr>next_p := process_list pt2\<rparr>) pt2)
                       \<lparr>process_list := Some q\<rparr>);
              pt4 = upd_proc q (\<lambda>p. p\<lparr>ctx := (ctx p)\<lparr>ctx_pc := entry\<rparr>, pid := next_pid pt3\<rparr>) pt3
          in (Some q, h, pt4\<lparr>next_pid := next_pid pt3 + 1\<rparr>))"

text \<open>\<open>create_process\<close> takes the next slot of the static array, without a bounds check.\<close>

definition create_process :: "u64 \<Rightarrow> ptable \<Rightarrow> (pref \<times> ptable) res" where
  "create_process process_stacks pt =
     (let new = Slot (process_count pt);
          pt1 = pt\<lparr>process_count := process_count pt + 1\<rparr> in
      bind_res (guard_res (process_count pt < MAX_PROCESSES) Out_Of_Bounds) (\<lambda>_.
      let pt2 = (upd_proc new (\<lambda>p. p\<lparr>pid := next_pid pt1\<rparr>) pt1)\<lparr>next_pid := next_pid pt1 + 1\<rparr> in
      bind_res (of_option Null_Deref (current_process pt2)) (\<lambda>cur.
      let pt3 = (upd_proc new (\<lambda>p. p\<lparr>parent_pid := pid (procs pt2 cur), pstate := PROC_READY,
                   next_p := process_list pt2\<rparr>) pt2)\<lparr>process_list := Some new\<rparr>;
          sp = process_stacks + of_nat (process_count pt3) * PROCESS_STACK_SIZE
      in Inr (new, upd_proc new (\<lambda>p. p\<lparr>psp := sp, ctx := (ctx (procs pt3 cur))\<lparr>ctx_sp := sp\<rparr>\<rparr>) pt3))))"

section \<open>The scheduler\<close>

text \<open>
  \<open>schedule\<close> returns the state at the moment of the switch: what follows the call in the
  interrupted process runs when that process is switched to again. With no ready process it spins
  for ever.
\<close>

definition schedule :: "ptable \<Rightarrow> ptable res" where
  "schedule pt =
     bind_res (list_find pt (\<lambda>p. pstate p = PROC_READY)) (\<lambda>r.
     case r of
       None \<Rightarrow> Inl Hang
     | Some nx \<Rightarrow>
         bind_res (of_option Null_Deref (current_process pt)) (\<lambda>cur.
         let pt1 = upd_proc nx (\<lambda>p. p\<lparr>pstate := PROC_RUNNING\<rparr>) pt;
             pt2 = (if pstate (procs pt1 cur) = PROC_RUNNING
                    then upd_proc cur (\<lambda>p. p\<lparr>pstate := PROC_READY\<rparr>) pt1 else pt1)
         in case context_switch (Some cur) nx (\<lambda>p. ctx (procs pt2 p)) (pcpu pt2) of
              (ctxs, m) \<Rightarrow>
                Inr (pt2\<lparr>procs := (\<lambda>p. (procs pt2 p)\<lparr>ctx := ctxs p\<rparr>),
                         current_process := Some nx, pcpu := m\<rparr>)))"

definition switch_to_process :: "pref \<Rightarrow> ptable \<Rightarrow> ptable res" where
  "switch_to_process nx pt =
     bind_res (of_option Null_Deref (current_process pt)) (\<lambda>prev.
     case context_switch (Some prev) nx (\<lambda>p. ctx (procs pt p)) (pcpu pt) of
       (ctxs, m) \<Rightarrow>
         Inr (pt\<lparr>procs := (\<lambda>p. (procs pt p)\<lparr>ctx := ctxs p\<rparr>),
                 current_process := Some nx, pcpu := m\<rparr>))"

section \<open>Exit, wait, fork and exec\<close>

definition find_process :: "int \<Rightarrow> ptable \<Rightarrow> pref option res" where
  "find_process k pt = list_find pt (\<lambda>p. pid p = k)"

text \<open>The removal loop of \<open>process_exit\<close> on the ready queue.\<close>

partial_function (option) unlink_ready ::
  "(pref \<Rightarrow> process) \<Rightarrow> pref option \<Rightarrow> pref \<Rightarrow> pref option \<Rightarrow> pref option \<Rightarrow>
    ((pref \<Rightarrow> process) \<times> pref option) option" where
  "unlink_ready pr rq cur prev temp =
     (case temp of
        None \<Rightarrow> Some (pr, rq)
      | Some t \<Rightarrow>
          if t = cur then
            (case prev of
               Some p \<Rightarrow> Some (pr(p := (pr p)\<lparr>next_p := next_p (pr t)\<rparr>), rq)
             | None \<Rightarrow> Some (pr, next_p (pr t)))
          else unlink_ready pr rq cur (Some t) (next_p (pr t)))"

definition process_exit :: "int \<Rightarrow> ptable \<Rightarrow> ptable res" where
  "process_exit status pt =
     (case current_process pt of
        None \<Rightarrow> Inr pt
      | Some cur \<Rightarrow>
          let pt1 = upd_proc cur (\<lambda>p. p\<lparr>pstate := PROC_ZOMBIE, exit_status := status\<rparr>) pt in
          bind_res (of_option Hang (unlink_ready (procs pt1) (ready_queue pt1) cur None (ready_queue pt1)))
            (\<lambda>(pr, rq).
              schedule (pt1\<lparr>procs := pr, ready_queue := rq, current_process := None\<rparr>)))"

definition exit_process :: "int \<Rightarrow> ptable \<Rightarrow> ptable res" where
  "exit_process status pt =
     bind_res (of_option Null_Deref (current_process pt)) (\<lambda>cur.
     let pt1 = upd_proc cur (\<lambda>p. p\<lparr>pstate := PROC_ZOMBIE, exit_status := status\<rparr>) pt in
     bind_res (find_process (parent_pid (procs pt1 cur)) pt1) (\<lambda>parent.
     schedule (case parent of
         Some q \<Rightarrow> if pstate (procs pt1 q) = PROC_BLOCKED
                   then upd_proc q (\<lambda>p. p\<lparr>pstate := PROC_READY\<rparr>) pt1 else pt1
       | None \<Rightarrow> pt1)))"

definition wait_for_child :: "ptable \<Rightarrow> (int \<times> ptable) res" where
  "wait_for_child pt =
     bind_res (of_option Null_Deref (current_process pt)) (\<lambda>cur.
     bind_res (schedule (upd_proc cur (\<lambda>p. p\<lparr>pstate := PROC_BLOCKED\<rparr>) pt)) (\<lambda>pt'. Inr (0, pt')))"

definition handle_fork_message :: "u64 \<Rightarrow> message \<Rightarrow> ptable \<Rightarrow> (int \<times> message \<times> ptable) res" where
  "handle_fork_message process_stacks msg pt =
     bind_res (create_process process_stacks pt) (\<lambda>(new, pt1).
     bind_res (of_option Null_Deref (current_process pt)) (\<lambda>cur.
     let pt2 = upd_proc new (\<lambda>p. p\<lparr>parent_pid := pid (procs pt1 cur), pstate := PROC_READY\<rparr>) pt1;
         c = ctx (procs pt2 cur);
         pt3 = upd_proc new (\<lambda>p. p\<lparr>ctx := c\<lparr>ctx_x := (ctx_x c)[0 := 0], ctx_pc := mentry msg\<rparr>\<rparr>) pt2
     in Inr (0, msg\<lparr>mpid := pid (procs pt3 new), mstatus := 0\<rparr>, pt3)))"

text \<open>The test for a child to collect.\<close>

definition zombie_child_of :: "int \<Rightarrow> process \<Rightarrow> bool" where
  "zombie_child_of k p \<longleftrightarrow> parent_pid p = k \<and> pstate p = PROC_ZOMBIE"

text \<open>The result is returned at once, or when the waiting process is resumed.\<close>

definition handle_wait_message :: "message \<Rightarrow> ptable \<Rightarrow> (int \<times> message \<times> ptable) res" where
  "handle_wait_message msg pt =
     bind_res (of_option Null_Deref (current_process pt)) (\<lambda>cur.
     bind_res (list_find pt (zombie_child_of (pid (procs pt cur)))) (\<lambda>r.
     case r of
       Some q \<Rightarrow>
         Inr (0, msg\<lparr>mstatus := exit_status (procs pt q), mpid := pid (procs pt q)\<rparr>,
              upd_proc q (\<lambda>p. p\<lparr>pstate := PROC_DEAD\<rparr>) pt)
     | None \<Rightarrow>
         bind_res (schedule (upd_proc cur (\<lambda>p. p\<lparr>pstate := PROC_BLOCKED\<rparr>) pt))
           (\<lambda>pt'. Inr (0, msg\<lparr>mstatus := 0\<rparr>, pt'))))"

definition handle_exec_message :: "message \<Rightarrow> ptable \<Rightarrow> (int \<times> ptable) res" where
  "handle_exec_message msg pt =
     (case mpath msg of
        None \<Rightarrow> Inr (-1, pt)
      | Some path \<Rightarrow>
          bind_res (of_option Null_Deref (current_process pt)) (\<lambda>cur.
          let x0 = replicate 31 0;
              x1 = (case margv msg of
                      None \<Rightarrow> x0
                    | Some (addr, args) \<Rightarrow> x0[0 := of_nat (length args), 1 := addr])
          in Inr (0, upd_proc cur (\<lambda>p. p\<lparr>ctx := (ctx p)\<lparr>ctx_pc := mentry msg,
                    ctx_sp := PROCESS_STACK_TOP, ctx_x := x1\<rparr>\<rparr>) pt)))"

section \<open>Message queues\<close>

definition queue_message :: "message \<Rightarrow> process \<Rightarrow> int \<times> process" where
  "queue_message msg p =
     (case mq_push msg (msg_queue p) of
        None \<Rightarrow> (-1, p)
      | Some q \<Rightarrow> (0, p\<lparr>msg_queue := q, msg_blocked := False\<rparr>))"

text \<open>
  With an empty queue a blocking receiver marks itself and gives up the processor; it is left in
  its process state, so the scheduler may pick it again.
\<close>

definition receive_message :: "message \<Rightarrow> ptable \<Rightarrow> (int \<times> message \<times> ptable) res" where
  "receive_message msg pt =
     bind_res (of_option Null_Deref (current_process pt)) (\<lambda>cur.
     case mq_pop (msg_queue (procs pt cur)) of
       None \<Rightarrow>
         if mflags msg AND MSG_NONBLOCK = 0
         then bind_res (schedule (upd_proc cur (\<lambda>p. p\<lparr>msg_blocked := True\<rparr>) pt))
                (\<lambda>pt'. Inr (-1, msg, pt'))
         else Inr (-1, msg, pt)
     | Some (m, q) \<Rightarrow> Inr (0, m, upd_proc cur (\<lambda>p. p\<lparr>msg_queue := q\<rparr>) pt))"

end
