(* ===== verification/CString.thy ===== *)
theory CString
  imports Prelude
begin

text \<open>
  \<open>string.c\<close>: the kernel's own C string and memory routines.

  A pointer into a character array is modelled by the characters from that pointer to the end of
  its array, so a read or write past the array is a fault and every loop is a structural
  recursion. The position a routine returns (\<open>strrchr\<close>, \<open>strstr\<close>, \<open>strpbrk\<close>, \<open>strtok_r\<close>) is
  the offset from the pointer it was given. \<open>memset\<close>, \<open>memcpy\<close> and \<open>memmove\<close> work on flat memory
  at addresses, because the block device of AbyssFS uses them there. The lemmas relate each routine
  to its value on C strings (lists without NUL), which is how the rest of the kernel uses them.
\<close>

section \<open>Memory routines\<close>

fun memset :: "mem \<Rightarrow> nat \<Rightarrow> int \<Rightarrow> nat \<Rightarrow> mem" where
  "memset m p c 0 = m"
| "memset m p c (Suc n) = memset (m(p := char_of c)) (Suc p) c n"

fun memcpy :: "mem \<Rightarrow> nat \<Rightarrow> mem \<Rightarrow> nat \<Rightarrow> nat \<Rightarrow> mem" where
  "memcpy dst d src s 0 = dst"
| "memcpy dst d src s (Suc n) = memcpy (dst(d := src s)) (Suc d) src (Suc s) n"

fun move_down :: "mem \<Rightarrow> nat \<Rightarrow> nat \<Rightarrow> nat \<Rightarrow> mem" where
  "move_down m d s 0 = m"
| "move_down m d s (Suc n) = move_down (m(d + n := m (s + n))) d s n"

fun move_up :: "mem \<Rightarrow> nat \<Rightarrow> nat \<Rightarrow> nat \<Rightarrow> mem" where
  "move_up m d s 0 = m"
| "move_up m d s (Suc n) = move_up (m(d := m s)) (Suc d) (Suc s) n"

definition memmove :: "mem \<Rightarrow> nat \<Rightarrow> nat \<Rightarrow> nat \<Rightarrow> mem" where
  "memmove m d s n = (if d > s \<and> d < s + n then move_down m d s n else move_up m d s n)"

section \<open>Reading strings\<close>

fun strlen :: "char list \<Rightarrow> nat res" where
  "strlen [] = Inl Out_Of_Bounds"
| "strlen (c # s) = (if c \<noteq> NUL then map_res Suc (strlen s) else Inr 0)"

fun strcmp :: "char list \<Rightarrow> char list \<Rightarrow> int res" where
  "strcmp (a # s1) (b # s2) =
     (if a \<noteq> NUL \<and> a = b then strcmp s1 s2 else Inr (of_char a - of_char b))"
| "strcmp _ _ = Inl Out_Of_Bounds"

fun strncmp :: "char list \<Rightarrow> char list \<Rightarrow> nat \<Rightarrow> int res" where
  "strncmp _ _ 0 = Inr 0"
| "strncmp (a # s1) (b # s2) (Suc n) =
     (if a \<noteq> NUL \<and> a = b then strncmp s1 s2 n else Inr (of_char a - of_char b))"
| "strncmp _ _ (Suc n) = Inl Out_Of_Bounds"

text \<open>The loop of \<open>strrchr\<close>: \<open>i\<close> is the offset reached, \<open>found\<close> the last match so far.\<close>

fun strrchr_loop :: "char list \<Rightarrow> char \<Rightarrow> nat \<Rightarrow> nat option \<Rightarrow> (nat \<times> nat option) res" where
  "strrchr_loop [] c i found = Inl Out_Of_Bounds"
| "strrchr_loop (a # s) c i found =
     (if a \<noteq> NUL then strrchr_loop s c (Suc i) (if a = c then Some i else found)
      else Inr (i, found))"

definition strrchr :: "char list \<Rightarrow> int \<Rightarrow> nat option res" where
  "strrchr s c = bind_res (strrchr_loop s (char_of c) 0 None)
     (\<lambda>(i, found). Inr (if c = 0 then Some i else found))"

fun strstr_match :: "char list \<Rightarrow> char list \<Rightarrow> bool res" where
  "strstr_match (h # hs) (n # ns) =
     (if h \<noteq> NUL \<and> n \<noteq> NUL \<and> h = n then strstr_match hs ns else Inr (n = NUL))"
| "strstr_match _ _ = Inl Out_Of_Bounds"

fun strstr_loop :: "char list \<Rightarrow> char list \<Rightarrow> nat \<Rightarrow> nat option res" where
  "strstr_loop [] needle i = Inl Out_Of_Bounds"
| "strstr_loop (h # hs) needle i =
     (if h \<noteq> NUL then
        bind_res (strstr_match (h # hs) needle)
          (\<lambda>found. if found then Inr (Some i) else strstr_loop hs needle (Suc i))
      else Inr None)"

definition strstr :: "char list \<Rightarrow> char list \<Rightarrow> nat option res" where
  "strstr haystack needle =
     (case needle of
        [] \<Rightarrow> Inl Out_Of_Bounds
      | n # _ \<Rightarrow> if n = NUL then Inr (Some 0) else strstr_loop haystack needle 0)"

text \<open>Both span routines scan the second string for the current character.\<close>

fun in_accept :: "char \<Rightarrow> char list \<Rightarrow> bool res" where
  "in_accept c [] = Inl Out_Of_Bounds"
| "in_accept c (a # s) = (if a = NUL then Inr False else if c = a then Inr True else in_accept c s)"

fun strspn :: "char list \<Rightarrow> char list \<Rightarrow> nat res" where
  "strspn [] accept = Inl Out_Of_Bounds"
| "strspn (c # s) accept =
     (if c = NUL then Inr 0
      else bind_res (in_accept c accept)
             (\<lambda>b. if b then map_res Suc (strspn s accept) else Inr 0))"

fun strpbrk :: "char list \<Rightarrow> char list \<Rightarrow> nat option res" where
  "strpbrk [] accept = Inl Out_Of_Bounds"
| "strpbrk (c # s) accept =
     (if c = NUL then Inr None
      else bind_res (in_accept c accept)
             (\<lambda>b. if b then Inr (Some 0) else map_res (map_option Suc) (strpbrk s accept)))"

section \<open>Writing strings\<close>

fun strcpy :: "char list \<Rightarrow> char list \<Rightarrow> char list res" where
  "strcpy dest [] = Inl Out_Of_Bounds"
| "strcpy [] (c # src) = Inl Buffer_Overflow"
| "strcpy (d # dest) (c # src) =
     (if c = NUL then Inr (NUL # dest) else map_res (Cons c) (strcpy dest src))"

fun strcat :: "char list \<Rightarrow> char list \<Rightarrow> char list res" where
  "strcat [] src = Inl Out_Of_Bounds"
| "strcat (d # dest) src =
     (if d \<noteq> NUL then map_res (Cons d) (strcat dest src) else strcpy (d # dest) src)"

fun strncpy_fill :: "char list \<Rightarrow> nat \<Rightarrow> char list res" where
  "strncpy_fill dest 0 = Inr dest"
| "strncpy_fill [] (Suc n) = Inl Buffer_Overflow"
| "strncpy_fill (d # dest) (Suc n) = map_res (Cons NUL) (strncpy_fill dest n)"

fun strncpy :: "char list \<Rightarrow> char list \<Rightarrow> nat \<Rightarrow> char list res" where
  "strncpy dest src 0 = Inr dest"
| "strncpy dest [] (Suc n) = Inl Out_Of_Bounds"
| "strncpy [] (c # src) (Suc n) = Inl Buffer_Overflow"
| "strncpy (d # dest) (c # src) (Suc n) =
     (if c \<noteq> NUL then map_res (Cons c) (strncpy dest src n)
      else strncpy_fill (d # dest) (Suc n))"

text \<open>
  \<open>strtok_r\<close> is given the buffer, the offset to start from (the string argument, or \<open>*saveptr\<close>
  when that argument is null) and the delimiters. It returns the offset of the token, if any, the
  buffer with the delimiter after the token overwritten, and the new \<open>*saveptr\<close>.
\<close>

definition strtok_r :: "char list \<Rightarrow> nat \<Rightarrow> char list \<Rightarrow> (nat option \<times> char list \<times> nat) res" where
  "strtok_r buf str delim =
     bind_res (strspn (drop str buf) delim) (\<lambda>k.
     let token = str + k in
     bind_res (guard_res (token < length buf) Out_Of_Bounds) (\<lambda>_.
     if buf ! token = NUL then Inr (None, buf, token)
     else
       bind_res (strpbrk (drop token buf) delim) (\<lambda>p.
       case p of
         None \<Rightarrow> bind_res (strlen (drop token buf)) (\<lambda>n. Inr (Some token, buf, token + n))
       | Some j \<Rightarrow> Inr (Some token, buf[token + j := NUL], Suc (token + j)))))"

section \<open>Correctness of the memory routines\<close>

lemma memset_eq [mem_simps]:
  "memset m p c n = (\<lambda>a. if p \<le> a \<and> a < p + n then char_of c else m a)"
  by (induction n arbitrary: m p) (auto simp: fun_eq_iff)

lemma memcpy_eq [mem_simps]:
  "memcpy dst d src s n = (\<lambda>a. if d \<le> a \<and> a < d + n then src (s + (a - d)) else dst a)"
proof (induction n arbitrary: dst d s)
  case (Suc n)
  have "src s = src (s + (a - d))" if "a = d" for a
    using that by simp
  moreover have "src (Suc s + (a - Suc d)) = src (s + (a - d))" if "d < a" for a
    using that by (simp add: Suc_diff_Suc)
  ultimately show ?case
    by (auto simp: fun_eq_iff Suc.IH)
qed (auto simp: fun_eq_iff)

text \<open>
  Both loops of \<open>memmove\<close> copy as if from a snapshot of the source, provided the direction suits
  the overlap; the test on the pointers picks the right one.
\<close>

lemma move_down_eq:
  "s \<le> d \<Longrightarrow> move_down m d s n = (\<lambda>a. if d \<le> a \<and> a < d + n then m (s + (a - d)) else m a)"
proof (induction n arbitrary: m)
  case (Suc n)
  then show ?case by (auto simp: fun_eq_iff)
qed (auto simp: fun_eq_iff)

lemma move_up_eq:
  "d \<le> s \<or> s + n \<le> d \<Longrightarrow>
    move_up m d s n = (\<lambda>a. if d \<le> a \<and> a < d + n then m (s + (a - d)) else m a)"
proof (induction n arbitrary: m d s)
  case (Suc n)
  have *: "Suc d \<le> Suc s \<or> Suc s + n \<le> Suc d"
    using Suc.prems by auto
  have "Suc s + (a - Suc d) = s + (a - d)" if "d < a" for a
    using that by simp
  moreover have "s + (a - d) \<noteq> d" if "d < a" "a \<le> d + n" for a
    using that Suc.prems by auto
  ultimately show ?case
    by (auto simp: fun_eq_iff Suc.IH [OF *])
qed (auto simp: fun_eq_iff)

lemma memmove_eq [mem_simps]:
  "memmove m d s n = (\<lambda>a. if d \<le> a \<and> a < d + n then m (s + (a - d)) else m a)"
  by (auto simp: memmove_def move_down_eq move_up_eq)

section \<open>Correctness of the string routines\<close>

lemma strlen_cstr [simp]: "cstr s \<Longrightarrow> strlen (s @ NUL # r) = Inr (length s)"
  by (induction s) auto

lemma strlen_unterminated: "cstr s \<Longrightarrow> strlen s = Inl Out_Of_Bounds"
  by (induction s) auto

lemma of_char_int_bounds: "0 \<le> (of_char c :: int)" "(of_char c :: int) < 256"
proof -
  have "(of_char c :: int) = int (of_char c)"
    by (simp add: of_nat_of_char)
  then show "0 \<le> (of_char c :: int)" "(of_char c :: int) < 256"
    using nat_of_char_less_256 [of c] by linarith+
qed

lemma of_char_NUL [simp]: "of_char NUL = 0"
  by (simp add: of_char_def)

lemma of_char_pos: "c \<noteq> NUL \<Longrightarrow> 0 < (of_char c :: int)"
  using of_char_int_bounds(1) [of c] of_char_eq_iff [of c NUL, where 'a = int]
  by (simp add: order_less_le)

text \<open>\<open>str_diff\<close> is the value of \<open>strcmp\<close> on two strings: the first difference, the end counting
  as 0.\<close>

fun str_diff :: "string \<Rightarrow> string \<Rightarrow> int" where
  "str_diff [] [] = 0"
| "str_diff (a # s) [] = of_char a"
| "str_diff [] (b # t) = - of_char b"
| "str_diff (a # s) (b # t) = (if a = b then str_diff s t else of_char a - of_char b)"

lemma strcmp_cstr [simp]:
  "cstr s \<Longrightarrow> cstr t \<Longrightarrow> strcmp (s @ NUL # r) (t @ NUL # r') = Inr (str_diff s t)"
  by (induction s t rule: str_diff.induct) auto

lemma str_diff_zero_iff: "cstr s \<Longrightarrow> cstr t \<Longrightarrow> str_diff s t = 0 \<longleftrightarrow> s = t"
proof (induction s t rule: str_diff.induct)
  case (2 a s)
  then show ?case using of_char_pos [of a] by auto
next
  case (3 b t)
  then show ?case using of_char_pos [of b] by auto
qed auto

lemma str_diff_antisym: "str_diff s t = - str_diff t s"
  by (induction s t rule: str_diff.induct) auto

lemma str_diff_neg_iff:
  "cstr s \<Longrightarrow> cstr t \<Longrightarrow>
    str_diff s t < 0 \<longleftrightarrow> ord_class.lexordp (map of_char s :: int list) (map of_char t)"
proof (induction s t rule: str_diff.induct)
  case (2 a s)
  then show ?case using of_char_pos [of a] by auto
next
  case (3 b t)
  then show ?case using of_char_pos [of b] by auto
next
  case (4 a s b t)
  then show ?case
    using of_char_eq_iff [of a b, where 'a = int] by (auto simp: not_less order.order_iff_strict)
qed auto

lemma strncmp_cstr_prefix:
  "cstr p \<Longrightarrow> cstr s \<Longrightarrow>
    (\<exists>d. strncmp (s @ NUL # r) (p @ NUL # r') (length p) = Inr d \<and> (d = 0 \<longleftrightarrow> prefix p s))"
proof (induction p arbitrary: s)
  case (Cons a p)
  show ?case
  proof (cases s)
    case Nil
    with Cons.prems of_char_pos [of a] show ?thesis by auto
  next
    case (Cons b s')
    with Cons.IH [of s'] Cons.prems show ?thesis by auto
  qed
qed auto

text \<open>\<open>rindex s c\<close> is the offset of the last \<open>c\<close> in \<open>s\<close>.\<close>

fun rindex :: "string \<Rightarrow> char \<Rightarrow> nat option" where
  "rindex [] c = None"
| "rindex (a # s) c =
     (case rindex s c of Some i \<Rightarrow> Some (Suc i) | None \<Rightarrow> if a = c then Some 0 else None)"

lemma strrchr_loop_cstr:
  "cstr s \<Longrightarrow> strrchr_loop (s @ NUL # r) c i found =
    Inr (i + length s, (case rindex s c of Some j \<Rightarrow> Some (i + j) | None \<Rightarrow> found))"
  by (induction s arbitrary: i found) (auto split: option.splits)

lemma strrchr_cstr:
  "cstr s \<Longrightarrow> c \<noteq> NUL \<Longrightarrow> strrchr (s @ NUL # r) (of_char c) = Inr (rindex s c)"
  using of_char_pos [of c] by (auto simp: strrchr_def strrchr_loop_cstr split: option.splits)

lemma strrchr_end: "cstr s \<Longrightarrow> strrchr (s @ NUL # r) 0 = Inr (Some (length s))"
  by (simp add: strrchr_def strrchr_loop_cstr)

lemma rindex_None_iff: "rindex s c = None \<longleftrightarrow> c \<notin> set s"
  by (induction s) (auto split: option.splits)

lemma rindex_append: "c \<notin> set u \<Longrightarrow> rindex (t @ c # u) c = Some (length t)"
  by (induction t) (auto simp: rindex_None_iff split: option.splits)

lemma rindex_SomeD: "rindex s c = Some i \<Longrightarrow> \<exists>t u. s = t @ c # u \<and> c \<notin> set u \<and> i = length t"
proof (induction s arbitrary: i)
  case (Cons a s)
  show ?case
  proof (cases "rindex s c")
    case None
    with Cons.prems have "a # s = [] @ c # s \<and> c \<notin> set s \<and> i = length []"
      by (auto simp: rindex_None_iff split: if_splits)
    then show ?thesis by blast
  next
    case (Some j)
    with Cons.IH obtain t u where "s = t @ c # u" "c \<notin> set u" "j = length t"
      by blast
    with Some Cons.prems have "a # s = (a # t) @ c # u \<and> c \<notin> set u \<and> i = length (a # t)"
      by simp
    then show ?thesis by blast
  qed
qed simp

lemma rindex_Some_iff:
  "rindex s c = Some i \<longleftrightarrow> (\<exists>t u. s = t @ c # u \<and> c \<notin> set u \<and> i = length t)"
  using rindex_SomeD rindex_append by blast

lemma strcpy_fits:
  "cstr s \<Longrightarrow> length s < length dest \<Longrightarrow>
    strcpy dest (s @ NUL # r) = Inr (s @ NUL # drop (Suc (length s)) dest)"
proof (induction s arbitrary: dest)
  case Nil
  then show ?case by (cases dest) auto
next
  case (Cons a s)
  then show ?case by (cases dest) auto
qed

lemma strcpy_overflow:
  "cstr s \<Longrightarrow> length dest \<le> length s \<Longrightarrow> strcpy dest (s @ NUL # r) = Inl Buffer_Overflow"
proof (induction s arbitrary: dest)
  case Nil
  then show ?case by auto
next
  case (Cons a s)
  then show ?case by (cases dest) auto
qed

lemma strcat_skip:
  "cstr t \<Longrightarrow> strcat (t @ NUL # r) src = map_res ((@) t) (strcpy (NUL # r) src)"
proof (induction t)
  case Nil
  then show ?case by (cases "strcpy (NUL # r) src") auto
next
  case (Cons a t)
  then show ?case by (cases "strcpy (NUL # r) src") auto
qed

lemma strcat_fits:
  "cstr t \<Longrightarrow> cstr s \<Longrightarrow> length s \<le> length r \<Longrightarrow>
    strcat (t @ NUL # r) (s @ NUL # r') = Inr ((t @ s) @ NUL # drop (length s) r)"
  by (simp add: strcat_skip strcpy_fits)

lemma strcat_overflow:
  "cstr t \<Longrightarrow> cstr s \<Longrightarrow> length r < length s \<Longrightarrow>
    strcat (t @ NUL # r) (s @ NUL # r') = Inl Buffer_Overflow"
  by (simp add: strcat_skip strcpy_overflow)

lemma strncpy_fill_eq:
  "n \<le> length dest \<Longrightarrow> strncpy_fill dest n = Inr (replicate n NUL @ drop n dest)"
  by (induction dest n rule: strncpy_fill.induct) auto

lemma strncpy_cstr:
  "cstr s \<Longrightarrow> n \<le> length dest \<Longrightarrow>
    strncpy dest (s @ NUL # r) n = Inr (take n s @ replicate (n - length s) NUL @ drop n dest)"
proof (induction n arbitrary: s dest)
  case (Suc n)
  then obtain d ds where dest: "dest = d # ds" by (cases dest) auto
  show ?case
  proof (cases s)
    case Nil
    with dest Suc.prems show ?thesis by (simp add: strncpy_fill_eq)
  next
    case (Cons a s')
    with dest Suc show ?thesis by auto
  qed
qed simp

lemma in_accept_cstr [simp]: "cstr acc \<Longrightarrow> in_accept c (acc @ NUL # r) = Inr (c \<in> set acc)"
  by (induction acc) auto

lemma strspn_cstr:
  "cstr s \<Longrightarrow> cstr acc \<Longrightarrow>
    strspn (s @ NUL # r) (acc @ NUL # r') = Inr (length (takeWhile (\<lambda>c. c \<in> set acc) s))"
  by (induction s) auto

lemma strpbrk_cstr:
  "cstr s \<Longrightarrow> cstr acc \<Longrightarrow>
    strpbrk (s @ NUL # r) (acc @ NUL # r') =
      Inr (if \<exists>c \<in> set s. c \<in> set acc
           then Some (length (takeWhile (\<lambda>c. c \<notin> set acc) s)) else None)"
  by (induction s) auto

lemma strstr_match_cstr:
  "cstr h \<Longrightarrow> cstr n \<Longrightarrow> strstr_match (h @ NUL # r) (n @ NUL # r') = Inr (prefix n h)"
proof (induction h arbitrary: n)
  case Nil
  then show ?case by (cases n) auto
next
  case (Cons a h)
  then show ?case by (cases n) auto
qed

text \<open>\<open>strstr\<close> returns the first offset at which the needle starts.\<close>

fun find_sub :: "string \<Rightarrow> string \<Rightarrow> nat option" where
  "find_sub [] n = (if n = [] then Some 0 else None)"
| "find_sub (a # h) n = (if prefix n (a # h) then Some 0 else map_option Suc (find_sub h n))"

lemma strstr_loop_cstr:
  "cstr h \<Longrightarrow> cstr n \<Longrightarrow> n \<noteq> [] \<Longrightarrow>
    strstr_loop (h @ NUL # r) (n @ NUL # r') i = Inr (map_option ((+) i) (find_sub h n))"
proof (induction h arbitrary: i)
  case (Cons a h)
  have "strstr_match (a # h @ NUL # r) (n @ NUL # r') = Inr (prefix n (a # h))"
    using strstr_match_cstr [of "a # h" n r r'] Cons.prems by simp
  with Cons show ?case
    by (cases "find_sub h n") auto
qed simp

lemma strstr_cstr:
  assumes "cstr h" and "cstr n"
  shows "strstr (h @ NUL # r) (n @ NUL # r') = Inr (find_sub h n)"
proof (cases n)
  case Nil
  then show ?thesis by (cases h) (simp_all add: strstr_def)
next
  case (Cons a n')
  with assms show ?thesis
    using strstr_loop_cstr [of h n r r' 0] by (cases "find_sub h n") (auto simp: strstr_def)
qed

lemma find_sub_Some_iff:
  "find_sub h n = Some i \<longleftrightarrow>
    i \<le> length h \<and> prefix n (drop i h) \<and> (\<forall>j < i. \<not> prefix n (drop j h))"
proof (induction h arbitrary: i)
  case (Cons a h)
  show ?case
  proof (cases i)
    case 0
    then show ?thesis by auto
  next
    case (Suc k)
    have "(\<forall>j < Suc k. \<not> prefix n (drop j (a # h))) \<longleftrightarrow>
        \<not> prefix n (a # h) \<and> (\<forall>j < k. \<not> prefix n (drop j h))"
      by (auto simp: less_Suc_eq_0_disj)
    with Suc Cons.IH [of k] show ?thesis by auto
  qed
qed auto

section \<open>Tokenising with \<open>strtok_r\<close>\<close>

text \<open>\<open>tokens D s\<close>: the maximal pieces of \<open>s\<close> without a delimiter, in order.\<close>

function tokens :: "char set \<Rightarrow> string \<Rightarrow> string list" where
  "tokens D s =
     (let u = dropWhile (\<lambda>c. c \<in> D) s in
      if u = [] then []
      else takeWhile (\<lambda>c. c \<notin> D) u # tokens D (dropWhile (\<lambda>c. c \<notin> D) u))"
  by pat_completeness auto
termination
proof (relation "measure (\<lambda>(D, s). length s)", goal_cases)
  case (2 D s u)
  then obtain a l where u: "dropWhile (\<lambda>c. c \<in> D) s = a # l"
    by (metis neq_Nil_conv)
  then have "a \<notin> D"
    using hd_dropWhile [of "\<lambda>c. c \<in> D" s] by simp
  moreover have "length l < length s"
    using length_dropWhile_le [of "\<lambda>c. c \<in> D" s] by (simp add: u)
  ultimately show ?case
    using 2 u length_dropWhile_le [of "\<lambda>c. c \<notin> D" l] by simp
qed simp

declare tokens.simps [simp del]

lemma tokens_Nil [simp]: "tokens D [] = []"
  by (simp add: tokens.simps)

lemma tokens_delim: "a \<in> D \<Longrightarrow> tokens D (a # s) = tokens D s"
  by (subst (1 2) tokens.simps) simp

lemma tokens_word:
  "a \<notin> D \<Longrightarrow> tokens D (a # s) =
    (a # takeWhile (\<lambda>c. c \<notin> D) s) # tokens D (dropWhile (\<lambda>c. c \<notin> D) s)"
  by (subst tokens.simps) simp

lemma takeWhile_append_rest: "takeWhile P s @ dropWhile P s = s"
  by simp

lemma strtok_r_none:
  assumes "cstr s" and "cstr D" and "dropWhile (\<lambda>c. c \<in> set D) s = []"
  shows "strtok_r (pre @ s @ NUL # r) (length pre) (D @ NUL # r') =
    Inr (None, pre @ s @ NUL # r, length pre + length s)"
proof -
  have "takeWhile (\<lambda>c. c \<in> set D) s = s"
    using assms(3) takeWhile_append_rest [of "\<lambda>c. c \<in> set D" s] by simp
  then have "strspn (drop (length pre) (pre @ s @ NUL # r)) (D @ NUL # r') = Inr (length s)"
    using strspn_cstr [OF assms(1,2), of r r'] by (simp only: append_eq_conv_conj) simp
  then show ?thesis
    by (simp add: strtok_r_def nth_append Let_def)
qed

lemma strtok_r_some:
  assumes s: "s = k @ w @ v" and cs: "cstr s" and cd: "cstr D"
    and k: "set k \<subseteq> set D" and w: "w \<noteq> []" "set w \<inter> set D = {}"
    and v: "v = [] \<or> hd v \<in> set D"
  shows "strtok_r (pre @ s @ NUL # r) (length pre) (D @ NUL # r') =
    Inr (Some (length pre + length k),
         pre @ k @ w @ (if v = [] then [] else NUL # tl v) @ NUL # r,
         length pre + length k + length w + (if v = [] then 0 else 1))"
proof -
  have tk: "takeWhile (\<lambda>c. c \<in> set D) s = k"
    using s k w by (cases w) (auto simp: takeWhile_append subset_iff)
  have tw: "takeWhile (\<lambda>c. c \<notin> set D) (w @ v) = w"
    using w v by (cases v) (auto simp: takeWhile_append disjoint_iff)
  have ex: "(\<exists>c \<in> set (w @ v). c \<in> set D) \<longleftrightarrow> v \<noteq> []"
    using w v by (cases v) auto
  have nth: "(pre @ s @ NUL # r) ! (length pre + length k) = hd w"
    using s w by (cases w) (auto simp: nth_append)
  have hd: "hd w \<noteq> NUL"
    using cs s w by (cases w) auto
  have cwv: "cstr (w @ v)" "cstr v"
    using cs s by auto
  have dr: "drop (length pre + length k) (pre @ s @ NUL # r) = (w @ v) @ NUL # r"
    by (simp add: s)
  have sp: "strspn (drop (length pre) (pre @ s @ NUL # r)) (D @ NUL # r') = Inr (length k)"
    using strspn_cstr [OF cs cd] by (simp add: tk)
  have len: "length pre + length k < length (pre @ s @ NUL # r)"
    by (simp add: s)
  have upd: "(pre @ s @ NUL # r)[length pre + length k + length w := NUL] =
      pre @ k @ w @ NUL # tl v @ NUL # r" if "v \<noteq> []"
    using that by (cases v) (simp_all add: s list_update_append add.assoc)
  have pb: "strpbrk ((w @ v) @ NUL # r) (D @ NUL # r') = Inr (if v = [] then None else Some (length w))"
    using strpbrk_cstr [OF cwv(1) cd, of r r'] unfolding ex tw by simp
  show ?thesis
    unfolding strtok_r_def sp bind_res_simps Let_def nth dr pb strlen_cstr [OF cwv(1)]
    using len hd upd by (cases "v = []") (simp_all add: s)
qed

lemma strtok_r_progress:
  assumes "strtok_r buf str D = Inr (Some t, buf', sv)"
  shows "str < length buf" "str < sv" "length buf' = length buf"
proof -
  from assms obtain k where k: "strspn (drop str buf) D = Inr k" and l: "str + k < length buf"
    and nz: "buf ! (str + k) \<noteq> NUL"
    by (auto simp: strtok_r_def Let_def res_Inr_iffs split: if_splits)
  then have d: "drop (str + k) buf = buf ! (str + k) # drop (Suc (str + k)) buf"
    by (simp add: Cons_nth_drop_Suc)
  have "0 < n" if "strlen (drop (str + k) buf) = Inr n" for n
    using that nz by (auto simp: d res_Inr_iffs)
  then show "str < length buf" "str < sv" "length buf' = length buf"
    using assms k l nz
    by (auto simp: strtok_r_def Let_def res_Inr_iffs split: if_splits option.splits)
qed

text \<open>The loop \<open>for (t = strtok_r(s, D, &p); t; t = strtok_r(NULL, D, &p))\<close>: the tokens it sees.\<close>

function strtok_loop :: "char list \<Rightarrow> nat \<Rightarrow> char list \<Rightarrow> string list res" where
  "strtok_loop buf str D =
     bind_res (strtok_r buf str D) (\<lambda>(t, buf', sv).
       case t of None \<Rightarrow> Inr []
       | Some i \<Rightarrow> map_res (Cons (cstring (drop i buf'))) (strtok_loop buf' sv D))"
  by pat_completeness auto
termination
proof (relation "measure (\<lambda>(buf, str, D). length buf - str)", goal_cases)
  case (2 buf str D x t z buf' sv i)
  then show ?case
    using strtok_r_progress [of buf str D i buf' sv] by auto
qed simp

declare strtok_loop.simps [simp del]

lemma strtok_loop_tokens:
  assumes "cstr s" and "cstr D"
  shows "strtok_loop (pre @ s @ NUL # r) (length pre) (D @ NUL # r') = Inr (tokens (set D) s)"
  using assms(1)
proof (induction s arbitrary: pre rule: length_induct)
  case (1 s)
  let ?u = "dropWhile (\<lambda>c. c \<in> set D) s"
  show ?case
  proof (cases "?u = []")
    case True
    then show ?thesis
      using strtok_r_none [OF 1(2) assms(2) True]
      by (simp add: strtok_loop.simps [of "pre @ s @ NUL # r"] tokens.simps [of _ s])
  next
    case False
    define k where "k = takeWhile (\<lambda>c. c \<in> set D) s"
    define w where "w = takeWhile (\<lambda>c. c \<notin> set D) ?u"
    define v where "v = dropWhile (\<lambda>c. c \<notin> set D) ?u"
    have s: "s = k @ w @ v"
      by (simp add: k_def w_def v_def)
    have k: "set k \<subseteq> set D"
      by (auto simp: k_def dest: set_takeWhileD)
    have w: "w \<noteq> []" "set w \<inter> set D = {}"
      using False hd_dropWhile [of "\<lambda>c. c \<in> set D" s] unfolding w_def
      by (cases ?u; auto dest: set_takeWhileD)+
    have v: "v = [] \<or> hd v \<in> set D"
      using hd_dropWhile [of "\<lambda>c. c \<notin> set D" ?u] by (auto simp: v_def)
    have cv: "cstr v" "cstr w" "cstr (tl v)"
      using 1(2) s by (cases v; auto)+
    have "tokens (set D) s = w # tokens (set D) v"
      using False by (subst tokens.simps) (simp only: Let_def w_def v_def if_False)
    moreover have "tokens (set D) v = tokens (set D) (tl v)"
      using v by (cases v) (simp_all add: tokens_delim)
    ultimately have toks: "tokens (set D) s = w # tokens (set D) (tl v)"
      by simp
    let ?pre = "pre @ k @ w @ (if v = [] then [] else [NUL])"
    have len: "length (tl v) < length s"
      using w by (cases w) (auto simp: s)
    have IH: "strtok_loop (?pre @ tl v @ NUL # r) (length ?pre) (D @ NUL # r')
        = Inr (tokens (set D) (tl v))"
      using 1(1) len cv(3) by blast
    have buf: "?pre @ tl v @ NUL # r =
        pre @ k @ w @ (if v = [] then [] else NUL # tl v) @ NUL # r"
      by simp
    have tok: "cstring (w @ (if v = [] then [] else NUL # tl v) @ NUL # r) = w"
      using cv(2) by simp
    show ?thesis
      using IH tok unfolding buf
      by (cases "v = []") (simp_all add: strtok_loop.simps [of "pre @ s @ NUL # r"]
          strtok_r_some [OF s 1(2) assms(2) k w v] toks add.assoc)
  qed
qed

section \<open>String values in fixed buffers\<close>

text \<open>
  The rest of the kernel keeps a path in a buffer only to read it back as a string. \<open>str_copy\<close> and
  \<open>str_cat\<close> are \<open>strcpy\<close> and \<open>strcat\<close> into a buffer of \<open>n\<close> bytes on the string values, an
  overflow included.
\<close>

definition str_copy :: "nat \<Rightarrow> string \<Rightarrow> string res" where
  "str_copy n s = (if length s < n then Inr s else Inl Buffer_Overflow)"

definition str_cat :: "nat \<Rightarrow> string \<Rightarrow> string \<Rightarrow> string res" where
  "str_cat n t s = (if length t + length s < n then Inr (t @ s) else Inl Buffer_Overflow)"

lemma str_copy_strcpy:
  "cstr s \<Longrightarrow> map_res cstring (strcpy dest (s @ NUL # r)) = str_copy (length dest) s"
  by (cases "length s < length dest") (simp_all add: str_copy_def strcpy_fits strcpy_overflow)

lemma str_cat_strcat:
  "cstr t \<Longrightarrow> cstr s \<Longrightarrow>
    map_res cstring (strcat (t @ NUL # r) (s @ NUL # r')) = str_cat (length (t @ NUL # r)) t s"
  using strcat_fits [of t s r r'] strcat_overflow [of t s r r']
    cstring_terminated [of "t @ s" "drop (length s) r"]
  by (cases "length s \<le> length r") (auto simp: str_cat_def)

lemma str_copy_fits [simp]: "length s < n \<Longrightarrow> str_copy n s = Inr s"
  by (simp add: str_copy_def)

lemma str_cat_fits [simp]: "length t + length s < n \<Longrightarrow> str_cat n t s = Inr (t @ s)"
  by (simp add: str_cat_def)

lemma str_copy_Inr [simp]: "str_copy n s = Inr t \<longleftrightarrow> length s < n \<and> t = s"
  by (auto simp: str_copy_def)

lemma str_cat_Inr [simp]: "str_cat n t s = Inr u \<longleftrightarrow> length t + length s < n \<and> u = t @ s"
  by (auto simp: str_cat_def)

end
