(* ===== verification/Vfs_Data.thy ===== *)
theory Vfs_Data
  imports CString Kmalloc Message_Queue
begin

text \<open>
  The structures of \<open>vfs.h\<close> that the two file systems share: open files, super blocks and the sizes
  with which they are allocated. A \<open>struct vfs_file\<close> is owned by the one descriptor it is stored
  under, so it is a value; the fields \<open>inode\<close>, \<open>pos\<close> and \<open>flags\<close> are never used.
\<close>

text \<open>The two tables of file operations (\<open>ramfs_fops\<close>, \<open>abyssfs_fops\<close>).\<close>

datatype file_ops = Ramfs_Fops | Abyssfs_Fops

text \<open>\<open>private_data\<close>: the index in the array of RAM files, or an AbyssFS inode number.\<close>

datatype private_data = Ramfs_Slot nat | Abyss_Inode u32

record vfs_file =
  f_ops :: file_ops
  f_path :: string
  f_private :: private_data
  f_pos :: u64

record vfs_super_block =
  s_magic :: u32
  s_type :: string

abbreviation (input) sizeof_vfs_file :: u64 where "sizeof_vfs_file \<equiv> 304"
abbreviation (input) sizeof_vfs_super_block :: u64 where "sizeof_vfs_super_block \<equiv> 32"

text \<open>The conversion of a \<open>size_t\<close> result to \<open>ssize_t\<close>.\<close>

definition ssize :: "u64 \<Rightarrow> int" where
  "ssize n = sint n"

lemma ssize_small:
  assumes "unat n < 2 ^ 63"
  shows "ssize n = int (unat n)"
proof -
  have "nat (uint n) < 2 ^ 63"
    using assms by (simp only: nat_uint_eq)
  then have "uint n < 2 ^ 63"
    by (subst (asm) nat_less_iff) simp_all
  then have "signed_take_bit 63 (uint n) = uint n"
    by (intro signed_take_bit_int_eq_self) (simp_all add: order.trans [OF _ uint_ge_0])
  then show ?thesis
    by (simp add: ssize_def sint_uint)
qed

end
