(* ===== verification/Ramfs.thy ===== *)
theory Ramfs
  imports Vfs_Data
begin

text \<open>
  \<open>ramfs.c\<close>: a file system in a static array of 16 files, each with a path of at most 31 characters
  and up to 4096 bytes of content. Every operation of the file is a definition on the array; the
  operations that allocate also take and return the heap pointer. The diagnostics are not part of
  the state.
\<close>

section \<open>Data\<close>

abbreviation (input) RAMFS_MAGIC :: u32 where "RAMFS_MAGIC \<equiv> 0x52414D46"
abbreviation (input) MAX_FILES :: nat where "MAX_FILES \<equiv> 16"
abbreviation (input) MAX_PATH :: nat where "MAX_PATH \<equiv> 32"
abbreviation (input) MAX_CONTENT :: nat where "MAX_CONTENT \<equiv> 4096"

text \<open>\<open>struct ramfs_file\<close>: the path is the value of its buffer, the content the whole array.\<close>

record ramfs_file =
  rf_path :: string
  rf_content :: mem
  rf_size :: u64
  rf_used :: bool

definition zero_ramfs_file :: ramfs_file where
  "zero_ramfs_file = \<lparr>rf_path = [], rf_content = zero_mem, rf_size = 0, rf_used = False\<rparr>"

definition ramfs_init :: "ramfs_file list \<Rightarrow> ramfs_file list" where
  "ramfs_init files = replicate MAX_FILES zero_ramfs_file"

definition ramfs_mount :: "u64 \<Rightarrow> vfs_super_block option \<times> u64" where
  "ramfs_mount heap_pos =
     (case kalloc sizeof_vfs_super_block heap_pos of
        (None, h) \<Rightarrow> (None, h)
      | (Some _, h) \<Rightarrow> (Some \<lparr>s_magic = RAMFS_MAGIC, s_type = ''ramfs''\<rparr>, h))"

section \<open>Open, create, unlink\<close>

definition ramfs_open :: "string \<Rightarrow> u64 \<Rightarrow> ramfs_file list \<Rightarrow> vfs_file option \<times> u64" where
  "ramfs_open path heap_pos files =
     (case first_index (\<lambda>f. rf_used f \<and> rf_path f = path) files of
        None \<Rightarrow> (None, heap_pos)
      | Some i \<Rightarrow>
          (case kalloc sizeof_vfs_file heap_pos of
             (None, h) \<Rightarrow> (None, h)
           | (Some _, h) \<Rightarrow>
               (Some \<lparr>f_ops = Ramfs_Fops, f_path = take (256 - 1) path,
                      f_private = Ramfs_Slot i, f_pos = 0\<rparr>, h)))"

text \<open>The path is completed in a buffer of 32 bytes before a slot is looked for.\<close>

definition ramfs_create :: "string \<Rightarrow> u64 \<Rightarrow> ramfs_file list \<Rightarrow>
    (vfs_file option \<times> u64 \<times> ramfs_file list) res" where
  "ramfs_create path heap_pos files =
     bind_res (if \<not> prefix ''/tmp/'' path
               then bind_res (str_copy MAX_PATH ''/tmp/'') (\<lambda>p. str_cat MAX_PATH p path)
               else str_copy MAX_PATH path) (\<lambda>full_path.
     case first_index (\<lambda>f. \<not> rf_used f) files of
       None \<Rightarrow> Inr (None, heap_pos, files)
     | Some i \<Rightarrow>
         let f = files ! i;
             files1 = files[i := f\<lparr>rf_used := True, rf_path := full_path, rf_size := 0,
                                   rf_content := (rf_content f)(0 := NUL)\<rparr>]
         in case kalloc sizeof_vfs_file heap_pos of
              (None, h) \<Rightarrow> Inr (None, h, files1[i := (files1 ! i)\<lparr>rf_used := False\<rparr>])
            | (Some _, h) \<Rightarrow>
                Inr (Some \<lparr>f_ops = Ramfs_Fops, f_path = [], f_private = Ramfs_Slot i, f_pos = 0\<rparr>,
                     h, files1))"

definition ramfs_unlink :: "string \<Rightarrow> ramfs_file list \<Rightarrow> int \<times> ramfs_file list" where
  "ramfs_unlink path files =
     (case first_index (\<lambda>f. rf_used f \<and> rf_path f = path) files of
        None \<Rightarrow> (-1, files)
      | Some i \<Rightarrow> (0, files[i := (files ! i)\<lparr>rf_used := False, rf_size := 0\<rparr>]))"

definition ramfs_mkdir :: "string \<Rightarrow> ramfs_file list \<Rightarrow> (int \<times> ramfs_file list) res" where
  "ramfs_mkdir path files =
     (case first_index (\<lambda>f. \<not> rf_used f) files of
        None \<Rightarrow> Inr (-1, files)
      | Some i \<Rightarrow>
          bind_res (str_copy MAX_PATH path) (\<lambda>p.
            Inr (0, files[i := (files ! i)\<lparr>rf_used := True, rf_size := 0, rf_path := p\<rparr>])))"

text \<open>\<open>ramfs_create_file\<close> truncates the path to 31 and the content to 4095 characters.\<close>

definition ramfs_create_file :: "string \<Rightarrow> string \<Rightarrow> ramfs_file list \<Rightarrow> int \<times> ramfs_file list" where
  "ramfs_create_file path content files =
     (case first_index (\<lambda>f. \<not> rf_used f) files of
        None \<Rightarrow> (-1, files)
      | Some i \<Rightarrow>
          let c = min (length content) (MAX_CONTENT - 1);
              m = memcpy (rf_content (files ! i)) 0 (\<lambda>k. content ! k) 0 c
          in (0, files[i := (files ! i)\<lparr>rf_used := True, rf_path := take (MAX_PATH - 1) path,
                            rf_content := m(c := NUL), rf_size := of_nat c\<rparr>]))"

section \<open>Read and write\<close>

text \<open>The slot behind an open file.\<close>

definition ramfs_slot :: "vfs_file \<Rightarrow> nat res" where
  "ramfs_slot file = (case f_private file of Ramfs_Slot i \<Rightarrow> Inr i | Abyss_Inode _ \<Rightarrow> Inl Out_Of_Bounds)"

text \<open>\<open>ramfs_read\<close> returns its result, the bytes it put into the caller's buffer and the file.\<close>

definition ramfs_read :: "vfs_file \<Rightarrow> u64 \<Rightarrow> ramfs_file list \<Rightarrow> (int \<times> char list \<times> vfs_file) res" where
  "ramfs_read file cnt files =
     bind_res (ramfs_slot file) (\<lambda>i.
     bind_res (guard_res (i < length files) Out_Of_Bounds) (\<lambda>_.
     let rf = files ! i in
     if f_pos file \<ge> rf_size rf then Inr (0, [], file)
     else
       let n = (if f_pos file + cnt > rf_size rf then rf_size rf - f_pos file else cnt) in
       bind_res (guard_res (unat (f_pos file) + unat n \<le> MAX_CONTENT) Out_Of_Bounds) (\<lambda>_.
       Inr (ssize n, mem_slice (rf_content rf) (unat (f_pos file)) (unat n),
            file\<lparr>f_pos := f_pos file + n\<rparr>))))"

definition ramfs_write :: "vfs_file \<Rightarrow> char list \<Rightarrow> u64 \<Rightarrow> ramfs_file list \<Rightarrow>
    (int \<times> vfs_file \<times> ramfs_file list) res" where
  "ramfs_write file buf cnt files =
     bind_res (ramfs_slot file) (\<lambda>i.
     bind_res (guard_res (i < length files) Out_Of_Bounds) (\<lambda>_.
     let rf = files ! i;
         n = (if f_pos file + cnt > of_nat MAX_CONTENT then of_nat MAX_CONTENT - f_pos file else cnt) in
     if n > 0 then
       bind_res (guard_res (unat (f_pos file) + unat n \<le> MAX_CONTENT \<and> unat n \<le> length buf)
                   Out_Of_Bounds) (\<lambda>_.
       let m = memcpy (rf_content rf) (unat (f_pos file)) (\<lambda>k. buf ! k) 0 (unat n);
           pos = f_pos file + n;
           rf' = rf\<lparr>rf_content := m, rf_size := (if pos > rf_size rf then pos else rf_size rf)\<rparr>
       in Inr (ssize n, file\<lparr>f_pos := pos\<rparr>, files[i := rf']))
     else Inr (ssize n, file, files)))"

text \<open>The copy loop of \<open>ramfs_read_file\<close>: stops at a NUL, which it still copies.\<close>

fun ramfs_copy_out :: "mem \<Rightarrow> nat \<Rightarrow> nat \<Rightarrow> (nat \<times> char list) res" where
  "ramfs_copy_out m c 0 = Inr (c, [])"
| "ramfs_copy_out m c (Suc n) =
     (if c \<ge> MAX_CONTENT then Inl Out_Of_Bounds
      else if m c = NUL then Inr (c, [NUL])
      else map_res (\<lambda>(r, out). (r, m c # out)) (ramfs_copy_out m (Suc c) n))"

definition ramfs_read_file :: "string \<Rightarrow> nat \<Rightarrow> ramfs_file list \<Rightarrow> (int \<times> char list) res" where
  "ramfs_read_file path max_len files =
     (case first_index (\<lambda>f. rf_used f \<and> rf_path f = path) files of
        None \<Rightarrow> Inr (-1, [])
      | Some i \<Rightarrow> map_res (\<lambda>(c, out). (int c, out)) (ramfs_copy_out (rf_content (files ! i)) 0 max_len))"

section \<open>Directories\<close>

definition is_file_in_dir :: "string \<Rightarrow> string \<Rightarrow> bool" where
  "is_file_in_dir file_path dir_path =
     (let dir_len = length dir_path in
      if prefix dir_path file_path then
        if dir_path = ''/tmp'' then
          (case drop dir_len file_path of
             [] \<Rightarrow> False
           | c # r \<Rightarrow> if c \<noteq> CHR ''/'' then False else rindex r (CHR ''/'') = None)
        else
          (case rindex file_path (CHR ''/'') of
             None \<Rightarrow> False
           | Some last_slash \<Rightarrow> last_slash = dir_len)
      else False)"

definition get_basename :: "string \<Rightarrow> string" where
  "get_basename path =
     (case rindex path (CHR ''/'') of Some i \<Rightarrow> drop (i + 1) path | None \<Rightarrow> path)"

text \<open>The loop over the slots from \<open>i\<close> on, with room for \<open>n\<close> more entries.\<close>

fun ramfs_dir_loop :: "nat \<Rightarrow> ramfs_file list \<Rightarrow> string \<Rightarrow> nat \<Rightarrow> dirent list" where
  "ramfs_dir_loop i [] path n = []"
| "ramfs_dir_loop i (f # fs) path n =
     (if n = 0 then []
      else if rf_used f \<and> is_file_in_dir (rf_path f) path
      then \<lparr>d_inode = of_nat (i + 2), d_name = get_basename (rf_path f)\<rparr>
             # ramfs_dir_loop (Suc i) fs path (n - 1)
      else ramfs_dir_loop (Suc i) fs path n)"

text \<open>The entries written for a buffer of \<open>cnt\<close> entries; their number is the new \<open>*count\<close>.\<close>

definition ramfs_read_dir :: "string \<Rightarrow> nat \<Rightarrow> ramfs_file list \<Rightarrow> int \<times> dirent list" where
  "ramfs_read_dir path cnt files =
     (let dot = (if 0 < cnt then [\<lparr>d_inode = 1, d_name = ''.''\<rparr>] else []);
          dotdot = (if length dot < cnt then [\<lparr>d_inode = 1, d_name = ''..''\<rparr>] else []);
          es = dot @ dotdot
      in (0, es @ ramfs_dir_loop 0 files path (cnt - length es)))"

end
