(* ===== verification/Abyss_Disk.thy ===== *)
theory Abyss_Disk
  imports Vfs_Data
begin

text \<open>
  The lower half of \<open>abyssfs.c\<close>: the disk image of 64 blocks of 4096 bytes that the file system
  keeps on the heap, its super block, the table of inodes in the blocks 1 to 8, and the bitmap of
  blocks. A pointer into the image is the offset from \<open>abyssfs.blocks\<close>; the fields of the structures
  that the code overlays on the image are little-endian words at such offsets.
\<close>

unbundle bit_operations_syntax

section \<open>The image\<close>

abbreviation (input) ABYSSFS_MAGIC :: u32 where "ABYSSFS_MAGIC \<equiv> 0xABCD1234"
abbreviation (input) BLOCK_SIZE :: nat where "BLOCK_SIZE \<equiv> 4096"
abbreviation (input) DISK_SIZE :: nat where "DISK_SIZE \<equiv> 262144"
abbreviation (input) sizeof_inode :: nat where "sizeof_inode \<equiv> 64"

definition get32 :: "mem \<Rightarrow> nat \<Rightarrow> u32" where
  "get32 m a = of_nat (of_char (m a) + 256 * of_char (m (a + 1)) + 65536 * of_char (m (a + 2)) +
     16777216 * of_char (m (a + 3)))"

definition put32 :: "mem \<Rightarrow> nat \<Rightarrow> u32 \<Rightarrow> mem" where
  "put32 m a w = m(a := char_of (unat w), a + 1 := char_of (unat w div 256),
     a + 2 := char_of (unat w div 65536), a + 3 := char_of (unat w div 16777216))"

definition get8 :: "mem \<Rightarrow> nat \<Rightarrow> u8" where
  "get8 m a = of_nat (of_char (m a))"

definition put8 :: "mem \<Rightarrow> nat \<Rightarrow> u8 \<Rightarrow> mem" where
  "put8 m a w = m(a := char_of (unat w))"

record abyssfs_super_block =
  magic :: u32
  block_size :: u32
  total_blocks :: u32
  inode_blocks :: u32
  data_blocks :: u32
  free_blocks :: u32
  first_data_block :: u32
  num_inodes :: u32

text \<open>The static variables of \<open>abyssfs.c\<close>, with the bytes behind \<open>blocks\<close>.\<close>

record abyss =
  sb :: abyssfs_super_block
  blocks :: "u64 option"
  disk :: mem
  block_bitmap :: u64
  abyssfs_initialized :: bool

definition zero_super_block :: abyssfs_super_block where
  "zero_super_block = \<lparr>magic = 0, block_size = 0, total_blocks = 0, inode_blocks = 0,
     data_blocks = 0, free_blocks = 0, first_data_block = 0, num_inodes = 0\<rparr>"

definition zero_abyss :: abyss where
  "zero_abyss = \<lparr>sb = zero_super_block, blocks = None, disk = zero_mem, block_bitmap = 0,
     abyssfs_initialized = False\<rparr>"

definition round_up :: "u8 \<Rightarrow> u8 \<Rightarrow> u8" where
  "round_up val align = (val + align - 1) AND NOT (align - 1)"

section \<open>Blocks and inodes\<close>

definition get_block :: "abyss \<Rightarrow> u32 \<Rightarrow> nat option" where
  "get_block ab block_num =
     (if block_num \<ge> total_blocks (sb ab) then None else Some (unat (block_num * of_nat BLOCK_SIZE)))"

text \<open>The result 0 stands for no free block.\<close>

definition alloc_block :: "abyss \<Rightarrow> u32 \<times> abyss" where
  "alloc_block ab =
     (case List.find (\<lambda>i. block_bitmap ab AND push_bit i 1 = 0)
             [unat (first_data_block (sb ab)) ..< unat (total_blocks (sb ab))] of
        None \<Rightarrow> (0, ab)
      | Some i \<Rightarrow>
          (of_nat i, ab\<lparr>block_bitmap := block_bitmap ab OR push_bit i 1,
                        sb := (sb ab)\<lparr>free_blocks := free_blocks (sb ab) - 1\<rparr>\<rparr>))"

definition free_block :: "u32 \<Rightarrow> abyss \<Rightarrow> abyss" where
  "free_block block_num ab =
     (if block_num < total_blocks (sb ab)
      then ab\<lparr>block_bitmap := block_bitmap ab AND NOT (push_bit (unat block_num) 1),
              sb := (sb ab)\<lparr>free_blocks := free_blocks (sb ab) + 1\<rparr>\<rparr>
      else ab)"

text \<open>A \<open>struct abyssfs_inode*\<close> is the offset of the inode; its fields follow each other.\<close>

definition get_inode :: "abyss \<Rightarrow> u32 \<Rightarrow> nat option" where
  "get_inode ab inode_num =
     (if unat inode_num \<ge> unat (inode_blocks (sb ab) * of_nat BLOCK_SIZE) div sizeof_inode then None
      else
        let block = 1 + inode_num div 64; offset = inode_num mod 64
        in map_option (\<lambda>b. b + sizeof_inode * unat offset) (get_block ab block))"

definition i_mode :: "abyss \<Rightarrow> nat \<Rightarrow> u32" where "i_mode ab p = get32 (disk ab) p"
definition i_size :: "abyss \<Rightarrow> nat \<Rightarrow> u32" where "i_size ab p = get32 (disk ab) (p + 4)"
definition i_blocks :: "abyss \<Rightarrow> nat \<Rightarrow> u32" where "i_blocks ab p = get32 (disk ab) (p + 8)"

definition set_mode :: "nat \<Rightarrow> u32 \<Rightarrow> abyss \<Rightarrow> abyss" where
  "set_mode p v ab = ab\<lparr>disk := put32 (disk ab) p v\<rparr>"
definition set_size :: "nat \<Rightarrow> u32 \<Rightarrow> abyss \<Rightarrow> abyss" where
  "set_size p v ab = ab\<lparr>disk := put32 (disk ab) (p + 4) v\<rparr>"
definition set_blocks :: "nat \<Rightarrow> u32 \<Rightarrow> abyss \<Rightarrow> abyss" where
  "set_blocks p v ab = ab\<lparr>disk := put32 (disk ab) (p + 8) v\<rparr>"

text \<open>The result 0 stands for no free inode.\<close>

definition inode_free :: "abyss \<Rightarrow> nat \<Rightarrow> bool" where
  "inode_free ab i = (case get_inode ab (of_nat i) of None \<Rightarrow> False | Some p \<Rightarrow> i_mode ab p = 0)"

definition alloc_inode :: "abyss \<Rightarrow> u32 \<times> abyss" where
  "alloc_inode ab =
     (let max_inodes = inode_blocks (sb ab) * 64 in
      case List.find (inode_free ab) [1 ..< unat max_inodes] of
        None \<Rightarrow> (0, ab)
      | Some i \<Rightarrow>
          (case get_inode ab (of_nat i) of
             None \<Rightarrow> (0, ab)
           | Some p \<Rightarrow>
               (of_nat i, set_mode p 0x1FF (ab\<lparr>disk := memset (disk ab) p 0 sizeof_inode\<rparr>))))"

section \<open>Laws of the image\<close>

lemma get32_put32 [simp]: "get32 (put32 m a w) a = w"
proof -
  define n where "n = unat w"
  have n: "n < 2 ^ 32"
    using unat_less_32 by (simp add: n_def)
  have "get32 (put32 m a w) a = of_nat n"
    by (simp add: get32_def put32_def four_bytes [OF n] flip: n_def del: of_nat_add of_nat_mult)
  then show ?thesis
    by (simp add: n_def)
qed

lemma get32_cong: "(\<And>b. a \<le> b \<Longrightarrow> b < a + 4 \<Longrightarrow> m b = m' b) \<Longrightarrow> get32 m a = get32 m' a"
  by (simp add: get32_def)

lemma get32_put32_other: "a + 4 \<le> b \<or> b + 4 \<le> a \<Longrightarrow> get32 (put32 m a w) b = get32 m b"
  by (rule get32_cong) (auto simp: put32_def)

lemma put32_other: "b < a \<or> a + 4 \<le> b \<Longrightarrow> put32 m a w b = m b"
  by (auto simp: put32_def)

lemma get8_put8 [simp]: "get8 (put8 m a w) a = w"
proof -
  have "unat w < 256"
    by (rule unat_less_8)
  then show ?thesis
    by (simp add: get8_def put8_def)
qed

lemma put8_other: "b \<noteq> a \<Longrightarrow> put8 m a w b = m b"
  by (simp add: put8_def)

lemma unat_get8: "unat (get8 m a) = of_char (m a)"
proof -
  have "of_char (m a) < (256 :: nat)"
    by (metis of_char_mod_256 mod_less_divisor zero_less_numeral)
  then show ?thesis
    by (simp add: get8_def unat_of_nat)
qed

lemma inode_fields [simp]:
  "i_mode (set_mode p v ab) p = v" "i_size (set_size p v ab) p = v" "i_blocks (set_blocks p v ab) p = v"
  "i_mode (set_size p v ab) p = i_mode ab p" "i_mode (set_blocks p v ab) p = i_mode ab p"
  "i_size (set_mode p v ab) p = i_size ab p" "i_size (set_blocks p v ab) p = i_size ab p"
  "i_blocks (set_mode p v ab) p = i_blocks ab p" "i_blocks (set_size p v ab) p = i_blocks ab p"
  by (simp_all add: i_mode_def i_size_def i_blocks_def set_mode_def set_size_def set_blocks_def
      get32_put32_other)

lemma set_fields_other [simp]:
  "sb (set_mode p v ab) = sb ab" "sb (set_size p v ab) = sb ab" "sb (set_blocks p v ab) = sb ab"
  "blocks (set_mode p v ab) = blocks ab" "blocks (set_size p v ab) = blocks ab"
  "blocks (set_blocks p v ab) = blocks ab"
  "block_bitmap (set_mode p v ab) = block_bitmap ab" "block_bitmap (set_size p v ab) = block_bitmap ab"
  "block_bitmap (set_blocks p v ab) = block_bitmap ab"
  by (simp_all add: set_mode_def set_size_def set_blocks_def)

section \<open>The super block of an initialised file system\<close>

definition geometry :: "abyss \<Rightarrow> bool" where
  "geometry ab \<longleftrightarrow> total_blocks (sb ab) = 64 \<and> inode_blocks (sb ab) = 8 \<and>
     first_data_block (sb ab) = 9 \<and> blocks ab \<noteq> None"

lemma get_block_geometry:
  assumes "geometry ab"
  shows "get_block ab b = (if unat b < 64 then Some (4096 * unat b) else None)"
proof (cases "unat b < 64")
  case True
  then have "unat (b * 4096) = unat b * 4096"
    by (simp add: unat_word_ariths)
  moreover have "\<not> 64 \<le> b"
    using True by (simp add: word_le_nat_alt)
  ultimately show ?thesis
    using assms True by (simp add: get_block_def geometry_def)
next
  case False
  then show ?thesis
    using assms by (simp add: get_block_def geometry_def word_le_nat_alt)
qed

lemma get_inode_geometry:
  assumes "geometry ab"
  shows "get_inode ab n = (if unat n < 512 then Some (4096 + 64 * unat n) else None)"
proof (cases "unat n < 512")
  case True
  have d: "unat (n div 64) = unat n div 64" "unat (n mod 64) = unat n mod 64"
    by (simp_all add: unat_div unat_mod)
  have "unat (1 + n div 64) = 1 + unat n div 64"
    using True d by (subst unat_plus_32) auto
  moreover note row_column [of "unat n"]
  moreover have "unat n div 64 < 8"
    using True by simp
  ultimately show ?thesis
    using assms True d
    by (simp add: get_inode_def Let_def get_block_geometry [OF assms]) (simp add: geometry_def)
next
  case False
  then show ?thesis
    using assms by (simp add: get_inode_def geometry_def)
qed

end
