(* ===== verification/Abyssfs.thy ===== *)
theory Abyssfs
  imports Abyss_Disk
begin

text \<open>
  The upper half of \<open>abyssfs.c\<close>: directory blocks and the operations of the file system. A directory
  entry is the offset of its \<open>struct abyssfs_dir_entry\<close> (inode number, length of the name, length of
  the record, name); the next entry is \<open>rec_len\<close> bytes further on and a record of length 0 ends the
  directory. Reads and writes at an offset that comes from the contents of the disk are checked
  against the size of the image. \<open>cwd\<close> stands for the buffer \<open>current_process->cwd\<close>, \<open>None\<close> when
  there is no current process. The diagnostics are not part of the state.
\<close>

section \<open>Directory entries\<close>

definition e_inode :: "mem \<Rightarrow> nat \<Rightarrow> u32" where "e_inode m e = get32 m e"
definition e_name_len :: "mem \<Rightarrow> nat \<Rightarrow> u8" where "e_name_len m e = get8 m (e + 4)"
definition e_rec_len :: "mem \<Rightarrow> nat \<Rightarrow> u8" where "e_rec_len m e = get8 m (e + 5)"

abbreviation (input) ENTRY_FIXED :: nat where "ENTRY_FIXED \<equiv> 6"

text \<open>The record length for a name of the given length: \<open>round_up(6 + n + 1, 4)\<close>.\<close>

definition entry_size :: "u8 \<Rightarrow> u8" where
  "entry_size n = round_up (of_nat ENTRY_FIXED + n + 1) 4"

text \<open>\<open>strcmp(dir->name, s) == 0\<close>, and \<open>strcpy\<close> of the name into a buffer of \<open>n\<close> bytes.\<close>

fun name_eq :: "mem \<Rightarrow> nat \<Rightarrow> string \<Rightarrow> bool res" where
  "name_eq m a [] = (if a < DISK_SIZE then Inr (m a = NUL) else Inl Out_Of_Bounds)"
| "name_eq m a (c # s) =
     (if a < DISK_SIZE then if m a = c then name_eq m (Suc a) s else Inr False else Inl Out_Of_Bounds)"

fun copy_name :: "mem \<Rightarrow> nat \<Rightarrow> nat \<Rightarrow> string res" where
  "copy_name m a 0 = Inl Buffer_Overflow"
| "copy_name m a (Suc n) =
     (if a < DISK_SIZE then if m a = NUL then Inr [] else map_res (\<lambda>s. m a # s) (copy_name m (Suc a) n)
      else Inl Out_Of_Bounds)"

text \<open>
  The three loops over the records of a block: to the end of the directory, to an entry with a
  name, and the one that copies entries out.
\<close>

function dir_last :: "mem \<Rightarrow> nat \<Rightarrow> nat \<Rightarrow> nat option \<Rightarrow> (nat \<times> nat option) res" where
  "dir_last m block_end e prev =
     (if e < block_end then
        if e + ENTRY_FIXED \<le> DISK_SIZE then
          if e_rec_len m e > 0 then dir_last m block_end (e + unat (e_rec_len m e)) (Some e)
          else Inr (e, prev)
        else Inl Out_Of_Bounds
      else Inr (e, prev))"
  by pat_completeness auto
termination
  by (relation "measure (\<lambda>(m, block_end, e, prev). block_end - e)")
    (auto simp: word_less_nat_alt)

function dir_find :: "mem \<Rightarrow> nat \<Rightarrow> string \<Rightarrow> nat option res" where
  "dir_find m e name =
     (if e + ENTRY_FIXED \<le> DISK_SIZE then
        if e_rec_len m e > 0 then
          bind_res (name_eq m (e + ENTRY_FIXED) name) (\<lambda>b.
            if b then Inr (Some e) else dir_find m (e + unat (e_rec_len m e)) name)
        else Inr None
      else Inl Out_Of_Bounds)"
  by pat_completeness auto
termination
  by (relation "measure (\<lambda>(m, e, name). DISK_SIZE - e)") (auto simp: word_less_nat_alt)

fun dir_copy :: "mem \<Rightarrow> nat \<Rightarrow> nat \<Rightarrow> dirent list res" where
  "dir_copy m e 0 = bind_res (guard_res (e + ENTRY_FIXED \<le> DISK_SIZE) Out_Of_Bounds) (\<lambda>_. Inr [])"
| "dir_copy m e (Suc n) =
     (if e + ENTRY_FIXED \<le> DISK_SIZE then
        if e_rec_len m e > 0 then
          bind_res (copy_name m (e + ENTRY_FIXED) 256) (\<lambda>s.
            map_res (\<lambda>es. \<lparr>d_inode = ucast (e_inode m e), d_name = s\<rparr> # es)
              (dir_copy m (e + unat (e_rec_len m e)) n))
        else Inr []
      else Inl Out_Of_Bounds)"

declare dir_last.simps [simp del] dir_find.simps [simp del]

section \<open>Initialisation\<close>

text \<open>The two entries that start a directory; the \<open>rec_len\<close> of the second is a truncated 4088.\<close>

definition write_entry :: "mem \<Rightarrow> nat \<Rightarrow> u32 \<Rightarrow> u8 \<Rightarrow> u8 \<Rightarrow> string \<Rightarrow> mem" where
  "write_entry m e ino nl rl name =
     (let n = length name;
          m1 = put8 (put8 (put32 m e ino) (e + 4) nl) (e + 5) rl
      in (memcpy m1 (e + ENTRY_FIXED) (\<lambda>k. name ! k) 0 n)(e + ENTRY_FIXED + n := NUL))"

definition write_dots :: "mem \<Rightarrow> nat \<Rightarrow> u32 \<Rightarrow> mem" where
  "write_dots m b ino =
     (let rec_len = entry_size 1
      in write_entry (write_entry m b ino 1 rec_len ''.'') (b + unat rec_len) 1 2
           (of_nat (BLOCK_SIZE - unat rec_len)) ''..'')"

text \<open>The parts of \<open>abyssfs_init\<close> in order: super block, inodes, bitmap, root directory.\<close>

definition init_super :: "u64 \<Rightarrow> abyss \<Rightarrow> abyss" where
  "init_super p ab = ab\<lparr>blocks := Some p, disk := memset (disk ab) 0 0 DISK_SIZE,
     sb := (sb ab)\<lparr>magic := ABYSSFS_MAGIC, block_size := of_nat BLOCK_SIZE, total_blocks := 64,
       inode_blocks := 8, data_blocks := 64 - 8 - 1, free_blocks := 64 - 8 - 1,
       first_data_block := 8 + 1\<rparr>\<rparr>"

definition clear_inode :: "nat \<Rightarrow> abyss \<Rightarrow> abyss" where
  "clear_inode i ab =
     (case get_inode ab (of_nat i) of None \<Rightarrow> ab
      | Some p \<Rightarrow> ab\<lparr>disk := memset (disk ab) p 0 sizeof_inode\<rparr>)"

definition init_bitmap :: "abyss \<Rightarrow> abyss" where
  "init_bitmap ab =
     ab\<lparr>block_bitmap := fold (\<lambda>i w. w OR push_bit i 1) [0..<Suc (unat (inode_blocks (sb ab)))] 0\<rparr>"

definition init_root :: "abyss \<Rightarrow> abyss" where
  "init_root ab =
     (case get_inode ab 1 of None \<Rightarrow> ab
      | Some root \<Rightarrow>
          let a = set_blocks root (inode_blocks (sb ab) + 1)
                    (set_size root (of_nat BLOCK_SIZE) (set_mode root 0x4000 ab))
          in case get_block a (i_blocks a root) of None \<Rightarrow> a
             | Some b \<Rightarrow> a\<lparr>disk := write_dots (disk a) b 1\<rparr>)"

definition abyssfs_init :: "u64 \<Rightarrow> abyss \<Rightarrow> u64 \<times> abyss" where
  "abyssfs_init heap_pos ab =
     (if abyssfs_initialized ab then (heap_pos, ab)
      else
        case kalloc (of_nat BLOCK_SIZE * 64) heap_pos of
          (None, h) \<Rightarrow> (h, ab\<lparr>blocks := None\<rparr>)
        | (Some p, h) \<Rightarrow>
            let ab1 = init_super p ab;
                ab2 = fold clear_inode [0..<unat (inode_blocks (sb ab1))] ab1;
                ab3 = init_root (init_bitmap ab2);
                root_dir_block = inode_blocks (sb ab3) + 1
            in (h, ab3\<lparr>block_bitmap := block_bitmap ab3 OR push_bit (unat root_dir_block) 1,
                      abyssfs_initialized := True\<rparr>))"

definition abyssfs_mount :: "u64 \<Rightarrow> abyss \<Rightarrow> vfs_super_block option \<times> u64 \<times> abyss" where
  "abyssfs_mount heap_pos ab =
     (case kalloc sizeof_vfs_super_block heap_pos of
        (None, h) \<Rightarrow> (None, h, ab)
      | (Some _, h) \<Rightarrow>
          (Some \<lparr>s_magic = ABYSSFS_MAGIC, s_type = ''abyssfs''\<rparr>, abyssfs_init h ab))"

definition allocate_blocks :: "u64 \<Rightarrow> abyss \<Rightarrow> int \<times> u64 \<times> abyss" where
  "allocate_blocks heap_pos ab =
     (if blocks ab \<noteq> None then (0, heap_pos, ab)
      else case kalloc (of_nat BLOCK_SIZE * 64) heap_pos of
             (None, h) \<Rightarrow> (-1, h, ab\<lparr>blocks := None\<rparr>)
           | (Some p, h) \<Rightarrow> (0, h, ab\<lparr>blocks := Some p\<rparr>))"

section \<open>Paths\<close>

abbreviation (input) skip_slashes :: "string \<Rightarrow> string" where
  "skip_slashes path \<equiv> dropWhile (\<lambda>c. c = CHR ''/'') path"

text \<open>
  The components are what the loop over \<open>strtok_r\<close> yields (\<open>strtok_loop_tokens\<close>) on the first 255
  characters of the path. A component that is found may have no inode: the null pointer is the
  result at the end of the path, and a fault before.
\<close>

fun path_walk :: "abyss \<Rightarrow> nat option \<Rightarrow> string list \<Rightarrow> nat option res" where
  "path_walk ab inode [] = Inr inode"
| "path_walk ab inode (token # ts) =
     bind_res (of_option Null_Deref inode) (\<lambda>p.
       let dir_block = i_blocks ab p in
       if dir_block = 0 then Inr None
       else case get_block ab dir_block of None \<Rightarrow> Inr None
            | Some b \<Rightarrow>
                bind_res (dir_find (disk ab) b token) (\<lambda>r.
                  case r of None \<Rightarrow> Inr None
                  | Some e \<Rightarrow> path_walk ab (get_inode ab (e_inode (disk ab) e)) ts))"

definition get_inode_by_path :: "string \<Rightarrow> abyss \<Rightarrow> nat option res" where
  "get_inode_by_path path ab =
     (let inode = get_inode ab 1; p = skip_slashes path in
      if p = [] then Inr inode
      else path_walk ab inode (tokens {CHR ''/''} (take (256 - 1) p)))"

definition abyss_basename :: "string \<Rightarrow> string" where
  "abyss_basename path =
     (case rindex path (CHR ''/'') of Some i \<Rightarrow> drop (i + 1) path | None \<Rightarrow> path)"

definition abyss_is_file_in_dir :: "string \<Rightarrow> string \<Rightarrow> bool" where
  "abyss_is_file_in_dir file_path dir_path =
     (let strip = (\<lambda>s. case s of [] \<Rightarrow> [] | c # r \<Rightarrow> if c = CHR ''/'' then r else s);
          d = strip dir_path; f = strip file_path
      in prefix d f \<and> (case drop (length d) f of [] \<Rightarrow> True | c # _ \<Rightarrow> c = CHR ''/''))"

section \<open>Entering a name\<close>

text \<open>The directory that \<open>create_file\<close> uses is the working directory of the current process.\<close>

definition cwd_inode :: "char list option \<Rightarrow> abyss \<Rightarrow> nat option res" where
  "cwd_inode cwd ab =
     bind_res (of_option Null_Deref cwd) (\<lambda>buf.
       if cstring buf \<noteq> ''/'' then get_inode_by_path (cstring (tl buf)) ab
       else bind_res (of_option Null_Deref (get_inode ab 1)) (\<lambda>p. Inr (Some p)))"

definition add_entry :: "string \<Rightarrow> u32 \<Rightarrow> nat \<Rightarrow> mem \<Rightarrow> mem res" where
  "add_entry name inode_num block_start m =
     (let block_end = block_start + BLOCK_SIZE in
      bind_res (dir_last m block_end block_start None) (\<lambda>(_, prev).
      bind_res
        (case prev of
           None \<Rightarrow> Inr (block_start, m)
         | Some p \<Rightarrow>
             let prev_min = entry_size (e_name_len m p);
                 entry = p + unat prev_min
             in bind_res (guard_res (entry \<le> block_end) Out_Of_Bounds) (\<lambda>_.
                  Inr (entry, memset (put8 m (p + 5) prev_min) entry 0 (block_end - entry))))
        (\<lambda>(entry, m1).
      let base = abyss_basename name;
          nl = of_nat (length base) :: u8
      in bind_res (guard_res (entry + ENTRY_FIXED + unat nl < DISK_SIZE) Out_Of_Bounds) (\<lambda>_.
           Inr (write_entry m1 entry inode_num nl (entry_size nl) (take (unat nl) base))))))"

definition create_file :: "string \<Rightarrow> u32 \<Rightarrow> char list option \<Rightarrow> abyss \<Rightarrow> (int \<times> abyss) res" where
  "create_file name inode_num cwd ab =
     bind_res (cwd_inode cwd ab) (\<lambda>dir.
       case dir of None \<Rightarrow> Inr (-1, ab)
       | Some dir_inode \<Rightarrow>
           let stored = i_blocks ab dir_inode;
               root = Some dir_inode = get_inode ab 1;
               dir_block = (if stored = 0 \<and> root then inode_blocks (sb ab) + 1 else stored)
           in if stored = 0 \<and> \<not> root then Inr (-1, ab)
              else bind_res (of_option Null_Deref (get_block ab dir_block)) (\<lambda>b.
                     map_res (\<lambda>m. (0, ab\<lparr>disk := m\<rparr>)) (add_entry name inode_num b (disk ab))))"

definition new_abyss_file :: "u32 \<Rightarrow> string \<Rightarrow> vfs_file" where
  "new_abyss_file inode_num path =
     \<lparr>f_ops = Abyssfs_Fops, f_path = path, f_private = Abyss_Inode inode_num, f_pos = 0\<rparr>"

definition abyssfs_create :: "string \<Rightarrow> char list option \<Rightarrow> u64 \<Rightarrow> abyss \<Rightarrow>
    (vfs_file option \<times> u64 \<times> abyss) res" where
  "abyssfs_create path cwd heap_pos ab =
     (case alloc_inode ab of (inode_num, ab1) \<Rightarrow>
        if inode_num = 0 then Inr (None, heap_pos, ab1)
        else if get_inode ab1 inode_num = None then Inr (None, heap_pos, ab1)
        else bind_res (create_file (skip_slashes path) inode_num cwd ab1) (\<lambda>(r, ab2).
               if r < 0 then Inr (None, heap_pos, ab2)
               else case kalloc sizeof_vfs_file heap_pos of
                      (None, h) \<Rightarrow> Inr (None, h, ab2)
                    | (Some _, h) \<Rightarrow> Inr (Some (new_abyss_file inode_num []), h, ab2)))"

definition abyssfs_create_file :: "string \<Rightarrow> char list option \<Rightarrow> u64 \<Rightarrow> abyss \<Rightarrow>
    (vfs_file option \<times> u64 \<times> abyss) res" where
  "abyssfs_create_file path cwd heap_pos ab =
     (case alloc_inode ab of (inode_num, ab1) \<Rightarrow>
        if inode_num = 0 then Inr (None, heap_pos, ab1)
        else bind_res (create_file (skip_slashes path) inode_num cwd ab1) (\<lambda>(r, ab2).
               if r < 0 then Inr (None, heap_pos, ab2)
               else case kalloc sizeof_vfs_file heap_pos of
                      (None, h) \<Rightarrow> Inr (None, h, ab2)
                    | (Some _, h) \<Rightarrow>
                        Inr (Some (new_abyss_file inode_num (take (256 - 1) (skip_slashes path))), h, ab2)))"

text \<open>\<open>abyssfs_open\<close> looks nothing up: the file it returns stands for inode 0.\<close>

definition abyssfs_open :: "string \<Rightarrow> u64 \<Rightarrow> vfs_file option \<times> u64" where
  "abyssfs_open path heap_pos =
     (case kalloc sizeof_vfs_file heap_pos of
        (None, h) \<Rightarrow> (None, h)
      | (Some _, h) \<Rightarrow> (Some (new_abyss_file 0 (take (256 - 1) path)), h))"

section \<open>Contents\<close>

definition abyss_inode_num :: "vfs_file \<Rightarrow> u32 res" where
  "abyss_inode_num file =
     (case f_private file of Abyss_Inode n \<Rightarrow> Inr n | Ramfs_Slot i \<Rightarrow> Inl Out_Of_Bounds)"

definition abyssfs_read :: "vfs_file \<Rightarrow> u64 \<Rightarrow> abyss \<Rightarrow> (int \<times> char list \<times> vfs_file) res" where
  "abyssfs_read file cnt ab =
     bind_res (abyss_inode_num file) (\<lambda>inode_num.
      case get_inode ab inode_num of
        None \<Rightarrow> Inr (-1, [], file)
      | Some p \<Rightarrow>
          let size = (ucast (i_size ab p) :: u64) in
          if f_pos file \<ge> size then Inr (0, [], file)
          else
            let n = (if f_pos file + cnt > size then size - f_pos file else cnt);
                a = unat (i_blocks ab p * of_nat BLOCK_SIZE) + unat (f_pos file)
            in bind_res (guard_res (a + unat n \<le> DISK_SIZE) Out_Of_Bounds) (\<lambda>_.
                 Inr (ssize n, mem_slice (disk ab) a (unat n), file\<lparr>f_pos := f_pos file + n\<rparr>)))"

definition write_to_blocks :: "nat \<Rightarrow> char list \<Rightarrow> u64 \<Rightarrow> abyss \<Rightarrow> (u64 \<times> abyss) res" where
  "write_to_blocks p buf cnt ab =
     (let n = (if cnt > of_nat BLOCK_SIZE then of_nat BLOCK_SIZE else cnt);
          store = (\<lambda>a. let d = unat (i_blocks a p * of_nat BLOCK_SIZE) in
             bind_res (guard_res (d + unat n \<le> DISK_SIZE \<and> unat n \<le> length buf) Out_Of_Bounds) (\<lambda>_.
               Inr (n, a\<lparr>disk := memcpy (disk a) d (\<lambda>k. buf ! k) 0 (unat n)\<rparr>)))
      in if i_blocks ab p = 0 then
           (case alloc_block ab of (block_num, ab1) \<Rightarrow>
              if block_num = 0 then Inr (0, ab1) else store (set_blocks p block_num ab1))
         else store ab)"

definition abyssfs_write :: "vfs_file \<Rightarrow> char list \<Rightarrow> u64 \<Rightarrow> abyss \<Rightarrow> (int \<times> abyss) res" where
  "abyssfs_write file buf cnt ab =
     bind_res (abyss_inode_num file) (\<lambda>inode_num.
      case get_inode ab inode_num of
        None \<Rightarrow> Inr (-1, ab)
      | Some p \<Rightarrow>
          map_res (\<lambda>(written, ab1).
              (ssize written,
               if written > 0 then set_size p (i_size ab1 p + ucast written) ab1 else ab1))
            (write_to_blocks p buf cnt ab))"

section \<open>Directories\<close>

definition abyssfs_read_dir :: "string \<Rightarrow> nat \<Rightarrow> abyss \<Rightarrow> (int \<times> dirent list) res" where
  "abyssfs_read_dir path cnt ab =
     (let p = skip_slashes path;
          list = (\<lambda>dir_block. case get_block ab dir_block of
                    None \<Rightarrow> Inr (-1, [])
                  | Some b \<Rightarrow> map_res (\<lambda>es. (0, es)) (dir_copy (disk ab) b cnt))
      in if p = [] then list (inode_blocks (sb ab) + 1)
         else bind_res (get_inode_by_path p ab) (\<lambda>r.
                case r of None \<Rightarrow> Inr (-1, []) | Some dir_inode \<Rightarrow> list (i_blocks ab dir_inode)))"

text \<open>Taking an entry of the root directory out: the rest of the block moves down over it.\<close>

definition remove_entry :: "nat \<Rightarrow> nat \<Rightarrow> mem \<Rightarrow> mem res" where
  "remove_entry b e m =
     (let nxt = e + unat (e_rec_len m e) in
      bind_res (guard_res (nxt + ENTRY_FIXED \<le> DISK_SIZE) Out_Of_Bounds) (\<lambda>_.
        if e_rec_len m nxt > 0
        then bind_res (guard_res (nxt \<le> b + BLOCK_SIZE) Out_Of_Bounds) (\<lambda>_.
               Inr (memmove m e nxt (BLOCK_SIZE - (nxt - b))))
        else Inr (memset m e 0 (unat (e_rec_len m e)))))"

definition release_inode :: "u32 \<Rightarrow> abyss \<Rightarrow> abyss" where
  "release_inode n ab =
     (case get_inode ab n of None \<Rightarrow> ab
      | Some p \<Rightarrow>
          let a = set_mode p 0 ab
          in if i_blocks a p \<noteq> 0 then free_block (i_blocks a p) a else a)"

definition abyssfs_unlink :: "string \<Rightarrow> abyss \<Rightarrow> (int \<times> abyss) res" where
  "abyssfs_unlink path ab =
     (case get_block ab (inode_blocks (sb ab) + 1) of
        None \<Rightarrow> Inr (-1, ab)
      | Some b \<Rightarrow>
          bind_res (dir_find (disk ab) b (skip_slashes path)) (\<lambda>r.
            case r of None \<Rightarrow> Inr (-1, ab)
            | Some e \<Rightarrow>
                let a = release_inode (e_inode (disk ab) e) ab
                in map_res (\<lambda>m. (0, a\<lparr>disk := m\<rparr>)) (remove_entry b e (disk a))))"

definition abyssfs_mkdir :: "string \<Rightarrow> char list option \<Rightarrow> abyss \<Rightarrow> (int \<times> abyss) res" where
  "abyssfs_mkdir path cwd ab =
     (case alloc_inode ab of (inode_num, ab1) \<Rightarrow>
        if inode_num = 0 then Inr (-1, ab1)
        else case get_inode ab1 inode_num of None \<Rightarrow> Inr (-1, ab1)
        | Some p \<Rightarrow>
            (case alloc_block ab1 of (dir_block, ab2) \<Rightarrow>
               if dir_block = 0 then Inr (-1, ab2)
               else
                 let ab3 = set_size p (of_nat BLOCK_SIZE) (set_blocks p dir_block ab2);
                     ab4 = set_mode p (i_mode ab3 p OR 0x4000) ab3
                 in case get_block ab4 dir_block of None \<Rightarrow> Inr (-1, ab4)
                    | Some b \<Rightarrow>
                        bind_res (create_file (abyss_basename (skip_slashes path)) inode_num cwd
                                    (ab4\<lparr>disk := write_dots (disk ab4) b inode_num\<rparr>)) (\<lambda>(r, ab5).
                          Inr (if r < 0 then -1 else 0, ab5))))"

text \<open>
  The recursion ends because the path grows by a slash and a name, in a buffer of 256 bytes. The
  second equation is the loop over the entries that were read.
\<close>

function (sequential) abyssfs_remove_recursive :: "string \<Rightarrow> abyss \<Rightarrow> (int \<times> abyss) res"
  and remove_entries :: "string \<Rightarrow> dirent list \<Rightarrow> abyss \<Rightarrow> abyss res" where
  "abyssfs_remove_recursive path ab =
     bind_res (abyssfs_read_dir path 256 ab) (\<lambda>(r, entries).
     bind_res (if r = 0 then remove_entries path entries ab else Inr ab) (\<lambda>ab1.
     abyssfs_unlink path ab1))"
| "remove_entries path [] ab = Inr ab"
| "remove_entries path (d # ds) ab =
     (if d_name d = ''.'' \<or> d_name d = ''..'' then remove_entries path ds ab
      else
        bind_res (bind_res (str_copy 256 path) (\<lambda>p. bind_res (str_cat 256 p ''/'') (\<lambda>p. str_cat 256 p (d_name d))))
          (\<lambda>full_path.
        bind_res
          (case get_inode ab (ucast (d_inode d)) of
             None \<Rightarrow> map_res snd (abyssfs_unlink full_path ab)
           | Some p \<Rightarrow>
               if i_mode ab p AND 0x4000 \<noteq> 0 then map_res snd (abyssfs_remove_recursive full_path ab)
               else map_res snd (abyssfs_unlink full_path ab))
          (\<lambda>ab1. remove_entries path ds ab1)))"
  by pat_completeness auto
termination
  by (relation "measures [\<lambda>x. case x of Inl (path, ab) \<Rightarrow> 256 - length path
                                | Inr (path, ds, ab) \<Rightarrow> 256 - length path,
                         \<lambda>x. case x of Inl _ \<Rightarrow> 1 | Inr _ \<Rightarrow> 0,
                         \<lambda>x. case x of Inl _ \<Rightarrow> 0 | Inr (path, ds, ab) \<Rightarrow> length ds]")
    (auto simp: res_Inr_iffs)

declare abyssfs_remove_recursive.simps [simp del]

section \<open>The self test\<close>

definition test_abyssfs :: "char list option \<Rightarrow> abyss \<Rightarrow> abyss res" where
  "test_abyssfs cwd ab =
     (case alloc_inode ab of (inode_num, ab1) \<Rightarrow>
        map_res snd (create_file ''hello.txt'' inode_num cwd ab1))"

definition test_inode_alloc :: "abyss \<Rightarrow> abyss" where
  "test_inode_alloc ab = snd (alloc_inode ab)"

end
