(* ===== verification/Vfs.thy ===== *)
theory Vfs
  imports Process Ramfs Abyssfs
begin

text \<open>
  \<open>vfs.c\<close>: mount points, the table of file descriptors, the resolution of paths, and the dispatch to
  the two file systems. The state of the kernel joins the heap, both file systems, the tables of
  \<open>vfs.c\<close> and the processes. The diagnostics are not part of the state.
\<close>

section \<open>State\<close>

text \<open>\<open>ramfs_fs_type\<close> and \<open>abyssfs_fs_type\<close>; their operations are the definitions below.\<close>

datatype filesystem_type = Ramfs_Type | Abyssfs_Type

record mount_point =
  mp_path :: string
  mp_fs :: filesystem_type
  mp_sb :: vfs_super_block

text \<open>
  The arrays with their counters: \<open>registered_fs\<close> and \<open>mount_points\<close> up to the counter, the whole of
  \<open>fd_table\<close>.
\<close>

record kstate =
  k_heap :: u64
  k_ramfs :: "ramfs_file list"
  k_abyss :: abyss
  registered_fs :: "filesystem_type list"
  mount_points :: "mount_point list"
  fd_table :: "vfs_file option list"
  next_fd :: nat
  k_pt :: ptable

abbreviation (input) MAX_FS :: nat where "MAX_FS \<equiv> 4"
abbreviation (input) MAX_MOUNTS :: nat where "MAX_MOUNTS \<equiv> 16"
abbreviation (input) MAX_FD :: nat where "MAX_FD \<equiv> 32"

definition current_cwd :: "kstate \<Rightarrow> char list option" where
  "current_cwd ks = map_option (\<lambda>p. cwd (procs (k_pt ks) p)) (current_process (k_pt ks))"

definition current_ns :: "kstate \<Rightarrow> ns_entry list option" where
  "current_ns ks = map_option (\<lambda>p. ns_mounts (procs (k_pt ks) p)) (current_process (k_pt ks))"

section \<open>The operations of a file system type\<close>

definition fs_mount :: "filesystem_type \<Rightarrow> kstate \<Rightarrow> vfs_super_block option \<times> kstate" where
  "fs_mount fs ks =
     (case fs of
        Ramfs_Type \<Rightarrow> (case ramfs_mount (k_heap ks) of (vsb, h) \<Rightarrow> (vsb, ks\<lparr>k_heap := h\<rparr>))
      | Abyssfs_Type \<Rightarrow>
          (case abyssfs_mount (k_heap ks) (k_abyss ks) of
             (vsb, h, ab) \<Rightarrow> (vsb, ks\<lparr>k_heap := h, k_abyss := ab\<rparr>)))"

definition fs_open :: "filesystem_type \<Rightarrow> string \<Rightarrow> kstate \<Rightarrow> vfs_file option \<times> kstate" where
  "fs_open fs path ks =
     (case fs of
        Ramfs_Type \<Rightarrow> (case ramfs_open path (k_heap ks) (k_ramfs ks) of (f, h) \<Rightarrow> (f, ks\<lparr>k_heap := h\<rparr>))
      | Abyssfs_Type \<Rightarrow> (case abyssfs_open path (k_heap ks) of (f, h) \<Rightarrow> (f, ks\<lparr>k_heap := h\<rparr>)))"

definition fs_create :: "filesystem_type \<Rightarrow> string \<Rightarrow> kstate \<Rightarrow> (vfs_file option \<times> kstate) res" where
  "fs_create fs path ks =
     (case fs of
        Ramfs_Type \<Rightarrow>
          map_res (\<lambda>(f, h, files). (f, ks\<lparr>k_heap := h, k_ramfs := files\<rparr>))
            (ramfs_create path (k_heap ks) (k_ramfs ks))
      | Abyssfs_Type \<Rightarrow>
          map_res (\<lambda>(f, h, ab). (f, ks\<lparr>k_heap := h, k_abyss := ab\<rparr>))
            (abyssfs_create path (current_cwd ks) (k_heap ks) (k_abyss ks)))"

definition fs_read_dir :: "filesystem_type \<Rightarrow> string \<Rightarrow> nat \<Rightarrow> kstate \<Rightarrow> (int \<times> dirent list) res" where
  "fs_read_dir fs path cnt ks =
     (case fs of
        Ramfs_Type \<Rightarrow> Inr (ramfs_read_dir path cnt (k_ramfs ks))
      | Abyssfs_Type \<Rightarrow> abyssfs_read_dir path cnt (k_abyss ks))"

definition fs_unlink :: "filesystem_type \<Rightarrow> string \<Rightarrow> kstate \<Rightarrow> (int \<times> kstate) res" where
  "fs_unlink fs path ks =
     (case fs of
        Ramfs_Type \<Rightarrow> (case ramfs_unlink path (k_ramfs ks) of (r, files) \<Rightarrow> Inr (r, ks\<lparr>k_ramfs := files\<rparr>))
      | Abyssfs_Type \<Rightarrow> map_res (\<lambda>(r, ab). (r, ks\<lparr>k_abyss := ab\<rparr>)) (abyssfs_unlink path (k_abyss ks)))"

definition fs_mkdir :: "filesystem_type \<Rightarrow> string \<Rightarrow> kstate \<Rightarrow> (int \<times> kstate) res" where
  "fs_mkdir fs path ks =
     (case fs of
        Ramfs_Type \<Rightarrow> map_res (\<lambda>(r, files). (r, ks\<lparr>k_ramfs := files\<rparr>)) (ramfs_mkdir path (k_ramfs ks))
      | Abyssfs_Type \<Rightarrow>
          map_res (\<lambda>(r, ab). (r, ks\<lparr>k_abyss := ab\<rparr>)) (abyssfs_mkdir path (current_cwd ks) (k_abyss ks)))"

text \<open>The entry \<open>remove_recursive\<close> of \<open>ramfs_fs_type\<close> is the null pointer.\<close>

definition fs_remove_recursive :: "filesystem_type \<Rightarrow> (string \<Rightarrow> kstate \<Rightarrow> (int \<times> kstate) res) option" where
  "fs_remove_recursive fs =
     (case fs of
        Ramfs_Type \<Rightarrow> None
      | Abyssfs_Type \<Rightarrow>
          Some (\<lambda>path ks. map_res (\<lambda>(r, ab). (r, ks\<lparr>k_abyss := ab\<rparr>))
            (abyssfs_remove_recursive path (k_abyss ks))))"

section \<open>Mounts\<close>

definition register_filesystem :: "filesystem_type \<Rightarrow> kstate \<Rightarrow> int \<times> kstate" where
  "register_filesystem fs ks =
     (if length (registered_fs ks) \<ge> MAX_FS then (-1, ks)
      else (0, ks\<lparr>registered_fs := registered_fs ks @ [fs]\<rparr>))"

definition vfs_mount :: "string \<Rightarrow> filesystem_type \<Rightarrow> kstate \<Rightarrow> int \<times> kstate" where
  "vfs_mount path fs ks =
     (if length (mount_points ks) \<ge> MAX_MOUNTS then (-1, ks)
      else case fs_mount fs ks of
        (None, ks1) \<Rightarrow> (-1, ks1)
      | (Some vsb, ks1) \<Rightarrow>
          (0, ks1\<lparr>mount_points := mount_points ks1 @ [\<lparr>mp_path = path, mp_fs = fs, mp_sb = vsb\<rparr>]\<rparr>))"

text \<open>The search keeps the first mount of the greatest length among those that match.\<close>

definition find_mount :: "string \<Rightarrow> kstate \<Rightarrow> mount_point option" where
  "find_mount path ks =
     (if path = [] \<or> path = ''/'' then
        (case mount_points ks of [] \<Rightarrow> None | m # _ \<Rightarrow> Some m)
      else
        fst (fold (\<lambda>m (best, best_len).
                if prefix (mp_path m) path \<and> length (mp_path m) > best_len
                then (Some m, length (mp_path m)) else (best, best_len))
              (mount_points ks) (None, 0)))"

section \<open>File descriptors\<close>

definition alloc_fd :: "vfs_file \<Rightarrow> kstate \<Rightarrow> int \<times> kstate" where
  "alloc_fd file ks =
     (if next_fd ks \<ge> MAX_FD then (-1, ks)
      else (int (next_fd ks),
            ks\<lparr>fd_table := (fd_table ks)[next_fd ks := Some file], next_fd := next_fd ks + 1\<rparr>))"

definition get_file :: "int \<Rightarrow> kstate \<Rightarrow> vfs_file option" where
  "get_file fd ks = (if fd < 0 \<or> fd \<ge> int MAX_FD then None else fd_table ks ! nat fd)"

definition set_file :: "int \<Rightarrow> vfs_file option \<Rightarrow> kstate \<Rightarrow> kstate" where
  "set_file fd f ks = ks\<lparr>fd_table := (fd_table ks)[nat fd := f]\<rparr>"

section \<open>Paths\<close>

definition resolve_namespace_path :: "string \<Rightarrow> kstate \<Rightarrow> (string \<times> kstate) res" where
  "resolve_namespace_path path ks =
     (case current_ns ks of
        None \<Rightarrow> Inr (path, ks)
      | Some ns \<Rightarrow>
          (case List.find (\<lambda>e. prefix (new_path e) path) ns of
             None \<Rightarrow> Inr (path, ks)
           | Some e \<Rightarrow>
               (case kalloc (of_nat VFS_MAX_PATH) (k_heap ks) of
                  (None, h) \<Rightarrow> Inr (path, ks\<lparr>k_heap := h\<rparr>)
                | (Some _, h) \<Rightarrow>
                    let rest = drop (length (new_path e)) path in
                    bind_res (str_copy VFS_MAX_PATH (old_path e)) (\<lambda>r.
                    bind_res
                      (if rest = [] then Inr r
                       else
                         bind_res
                           (if hd rest \<noteq> CHR ''/'' then
                              bind_res (guard_res (r \<noteq> []) Out_Of_Bounds) (\<lambda>_.
                                if last r \<noteq> CHR ''/'' then str_cat VFS_MAX_PATH r ''/'' else Inr r)
                            else Inr r)
                           (\<lambda>r. str_cat VFS_MAX_PATH r rest))
                      (\<lambda>r. Inr (r, ks\<lparr>k_heap := h\<rparr>))))))"

definition resolve_path :: "string \<Rightarrow> kstate \<Rightarrow> string res" where
  "resolve_path path ks =
     bind_res (of_option Null_Deref (current_ns ks)) (\<lambda>ns.
       case List.find (\<lambda>e. prefix (old_path e) path) ns of
         Some e \<Rightarrow>
           bind_res (str_copy VFS_MAX_PATH (new_path e)) (\<lambda>r.
             str_cat VFS_MAX_PATH r (drop (length (old_path e)) path))
       | None \<Rightarrow> str_copy VFS_MAX_PATH path)"

text \<open>The working directory in front of a relative path, as four of the operations do it.\<close>

definition absolute_path :: "string \<Rightarrow> kstate \<Rightarrow> string res" where
  "absolute_path path ks =
     (if path = [] \<or> hd path \<noteq> CHR ''/'' then
        bind_res (of_option Null_Deref (current_cwd ks)) (\<lambda>buf.
        bind_res (str_copy VFS_MAX_PATH (cstring buf)) (\<lambda>p.
        bind_res (guard_res (p \<noteq> []) Out_Of_Bounds) (\<lambda>_.
        bind_res (if last p \<noteq> CHR ''/'' then str_cat VFS_MAX_PATH p ''/'' else Inr p) (\<lambda>p.
          str_cat VFS_MAX_PATH p path))))
      else str_copy VFS_MAX_PATH path)"

section \<open>The system calls\<close>

definition vfs_open :: "string \<Rightarrow> kstate \<Rightarrow> (int \<times> kstate) res" where
  "vfs_open path ks =
     bind_res (resolve_path path ks) (\<lambda>resolved.
     let fs = (if prefix ''/tmp/'' resolved then Ramfs_Type else Abyssfs_Type) in
     case fs_open fs resolved ks of
       (None, ks1) \<Rightarrow> Inr (-1, ks1)
     | (Some file, ks1) \<Rightarrow> Inr (alloc_fd file ks1))"

text \<open>\<open>vfs_read\<close> returns its result, the bytes put into the buffer, and the state.\<close>

definition vfs_read :: "int \<Rightarrow> u64 \<Rightarrow> kstate \<Rightarrow> (int \<times> char list \<times> kstate) res" where
  "vfs_read fd cnt ks =
     (case get_file fd ks of
        None \<Rightarrow> Inr (-1, [], ks)
      | Some file \<Rightarrow>
          map_res (\<lambda>(r, bytes, file'). (r, bytes, set_file fd (Some file') ks))
            (case f_ops file of
               Ramfs_Fops \<Rightarrow> ramfs_read file cnt (k_ramfs ks)
             | Abyssfs_Fops \<Rightarrow> abyssfs_read file cnt (k_abyss ks)))"

definition vfs_write :: "int \<Rightarrow> char list \<Rightarrow> u64 \<Rightarrow> kstate \<Rightarrow> (int \<times> kstate) res" where
  "vfs_write fd buf cnt ks =
     (case get_file fd ks of
        None \<Rightarrow> Inr (-1, ks)
      | Some file \<Rightarrow>
          (case f_ops file of
             Ramfs_Fops \<Rightarrow>
               map_res (\<lambda>(r, file', files). (r, set_file fd (Some file') (ks\<lparr>k_ramfs := files\<rparr>)))
                 (ramfs_write file buf cnt (k_ramfs ks))
           | Abyssfs_Fops \<Rightarrow>
               map_res (\<lambda>(r, ab). (r, ks\<lparr>k_abyss := ab\<rparr>)) (abyssfs_write file buf cnt (k_abyss ks))))"

definition vfs_create :: "string \<Rightarrow> kstate \<Rightarrow> (int \<times> kstate) res" where
  "vfs_create path ks =
     bind_res (absolute_path path ks) (\<lambda>full_path.
     bind_res
       (if prefix ''/tmp/'' full_path \<or> full_path = ''/tmp'' then fs_create Ramfs_Type full_path ks
        else case find_mount full_path ks of
               None \<Rightarrow> Inr (None, ks)
             | Some mp \<Rightarrow> fs_create (mp_fs mp) full_path ks)
       (\<lambda>(f, ks1). case f of None \<Rightarrow> Inr (-1, ks1) | Some file \<Rightarrow> Inr (alloc_fd file ks1)))"

definition vfs_close :: "int \<Rightarrow> kstate \<Rightarrow> int \<times> kstate" where
  "vfs_close fd ks =
     (case get_file fd ks of
        None \<Rightarrow> (-1, ks)
      | Some file \<Rightarrow> (0, set_file fd None ks))"

text \<open>The file system is chosen by the absolute path, and is then given the path as it came.\<close>

definition vfs_unlink :: "string \<Rightarrow> kstate \<Rightarrow> (int \<times> kstate) res" where
  "vfs_unlink path ks =
     bind_res (absolute_path path ks) (\<lambda>full_path.
       case find_mount full_path ks of
         None \<Rightarrow> Inr (-1, ks)
       | Some mp \<Rightarrow> fs_unlink (mp_fs mp) path ks)"

definition vfs_mkdir :: "string \<Rightarrow> kstate \<Rightarrow> (int \<times> kstate) res" where
  "vfs_mkdir path ks =
     bind_res (absolute_path path ks) (\<lambda>full_path.
       case find_mount full_path ks of
         None \<Rightarrow> Inr (-1, ks)
       | Some mp \<Rightarrow> fs_mkdir (mp_fs mp) full_path ks)"

definition vfs_remove_recursive :: "string option \<Rightarrow> kstate \<Rightarrow> (int \<times> kstate) res" where
  "vfs_remove_recursive path ks =
     (case path of
        None \<Rightarrow> Inr (-1, ks)
      | Some p \<Rightarrow>
          bind_res (absolute_path p ks) (\<lambda>full_path.
            case find_mount full_path ks of
              None \<Rightarrow> Inr (-1, ks)
            | Some mp \<Rightarrow>
                (case fs_remove_recursive (mp_fs mp) of
                   None \<Rightarrow> Inr (-1, ks)
                 | Some remove \<Rightarrow> remove full_path ks)))"

definition vfs_read_dir :: "string \<Rightarrow> nat \<Rightarrow> kstate \<Rightarrow> (int \<times> dirent list \<times> kstate) res" where
  "vfs_read_dir path cnt ks =
     bind_res (resolve_namespace_path path ks) (\<lambda>(resolved, ks1).
       case find_mount resolved ks1 of
         None \<Rightarrow> Inr (-1, [], ks1)
       | Some mp \<Rightarrow> map_res (\<lambda>(r, es). (r, es, ks1)) (fs_read_dir (mp_fs mp) resolved cnt ks1))"

definition get_fs_file :: "string \<Rightarrow> kstate \<Rightarrow> vfs_file option \<times> kstate" where
  "get_fs_file path ks = fs_open (if prefix ''/tmp/'' path then Ramfs_Type else Abyssfs_Type) path ks"

text \<open>The entries of the message are in the frame of the handler, which ends with the return.\<close>

definition handle_read_dir_message :: "message \<Rightarrow> kstate \<Rightarrow> (int \<times> message \<times> kstate) res" where
  "handle_read_dir_message msg ks =
     (case mpath msg of
        None \<Rightarrow> Inr (-1, msg, ks)
      | Some path \<Rightarrow>
          map_res (\<lambda>(r, es, ks1).
              (r, if r \<ge> 0 then msg\<lparr>mdirents := Some es, mdirent_count := of_nat (length es)\<rparr> else msg, ks1))
            (vfs_read_dir path 32 ks))"

definition vfs_init :: "kstate \<Rightarrow> kstate res" where
  "vfs_init ks =
     (case abyssfs_init (k_heap ks) (k_abyss ks) of (h, ab) \<Rightarrow>
        let ks1 = ks\<lparr>k_heap := h, k_abyss := ab, k_ramfs := ramfs_init (k_ramfs ks)\<rparr>;
            ks2 = snd (vfs_mount ''/'' Abyssfs_Type ks1);
            ks3 = snd (vfs_mount ''/tmp'' Ramfs_Type ks2)
        in map_res (\<lambda>ab'. ks3\<lparr>k_abyss := ab'\<rparr>) (test_abyssfs (current_cwd ks3) (k_abyss ks3)))"

end
