(* ===== verification/Directory.thy ===== *)
theory Directory
  imports Prelude
begin

text \<open>
  The interface that both file systems provide for names: \<open>look\<close> finds what a name stands for,
  \<open>link\<close> enters a name (as the creation of a file does), \<open>unlink\<close> removes one. The laws say that a
  successful operation changes the finite map of names in the expected way and keeps the provider's
  invariant; \<open>room\<close> is what the provider needs beforehand to enter a name without damage. The lemmas
  are what a client may conclude, for any provider.
\<close>

locale directory =
  fixes look :: "'s \<Rightarrow> string \<Rightarrow> 'v option"
    and link :: "string \<Rightarrow> 's \<Rightarrow> 's option"
    and unlink :: "string \<Rightarrow> 's \<Rightarrow> 's option"
    and fresh :: "string \<Rightarrow> 's \<Rightarrow> 'v"
    and room :: "string \<Rightarrow> 's \<Rightarrow> bool"
    and inv :: "'s \<Rightarrow> bool"
    and ok :: "string \<Rightarrow> bool"
  assumes link_some: "inv s \<Longrightarrow> ok n \<Longrightarrow> room n s \<Longrightarrow> look s n = None \<Longrightarrow> link n s = Some s' \<Longrightarrow>
      inv s' \<and> look s' = (look s)(n \<mapsto> fresh n s)"
    and unlink_none: "inv s \<Longrightarrow> ok n \<Longrightarrow> unlink n s = None \<longleftrightarrow> look s n = None"
    and unlink_some: "inv s \<Longrightarrow> ok n \<Longrightarrow> unlink n s = Some s' \<Longrightarrow>
      inv s' \<and> look s' = (look s)(n := None)"
begin

text \<open>A name that was entered is found, and removing it gives the old names back.\<close>

lemma link_then_unlink:
  assumes "inv s" and "ok n" and "room n s" and "look s n = None" and "link n s = Some s'"
  shows "\<exists>s''. unlink n s' = Some s'' \<and> inv s'' \<and> look s'' = look s"
proof -
  have s': "inv s'" "look s' = (look s)(n \<mapsto> fresh n s)"
    using link_some [OF assms] by simp_all
  then obtain s'' where s'': "unlink n s' = Some s''"
    using unlink_none [OF s'(1) assms(2)] by (cases "unlink n s'") auto
  with unlink_some [OF s'(1) assms(2) s''] s'(2) assms(4) show ?thesis
    by (auto simp: fun_upd_idem)
qed

text \<open>A second removal fails.\<close>

lemma unlink_twice:
  assumes "inv s" and "ok n" and "unlink n s = Some s'"
  shows "unlink n s' = None"
  using unlink_some [OF assms] unlink_none [OF _ assms(2), of s'] by simp

text \<open>Two different names do not disturb each other, in either order of the removals.\<close>

lemma links_independent:
  assumes "inv s" and "ok n" "ok m" "n \<noteq> m" and "room n s" "look s n = None" "look s m = None"
    and "link n s = Some s1" and "room m s1" "link m s1 = Some s2" and "unlink n s2 = Some s3"
  shows "look s3 = (look s)(m \<mapsto> fresh m s1)"
proof -
  have s1: "inv s1" "look s1 = (look s)(n \<mapsto> fresh n s)"
    using link_some [of s n s1] assms by blast+
  then have s2: "inv s2" "look s2 = (look s1)(m \<mapsto> fresh m s1)"
    using link_some [of s1 m s2] assms by (simp_all add: fun_upd_def)
  show ?thesis
    using unlink_some [OF s2(1) assms(2,11)] s2 s1 assms(4,6) by (auto simp: fun_eq_iff)
qed

end

end
