(* ===== verification/Ramfs_Spec.thy ===== *)
theory Ramfs_Spec
  imports Ramfs Directory
begin

text \<open>
  Correctness of \<open>ramfs.c\<close>. The array refines a finite map from paths to contents (\<open>ramfs_look\<close>):
  creating and unlinking files are its updates, which is the interpretation of the interface
  \<open>directory\<close>. Reading and writing through an open file are \<open>take\<close> and a splice on the content, and
  a directory listing shows exactly the files whose parent is the directory.
\<close>

section \<open>Invariant and abstraction\<close>

definition ramfs_ok :: "ramfs_file list \<Rightarrow> bool" where
  "ramfs_ok files \<longleftrightarrow> length files = MAX_FILES \<and>
     (\<forall>f \<in> set files. length (rf_path f) < MAX_PATH \<and> cstr (rf_path f) \<and> unat (rf_size f) \<le> MAX_CONTENT)"

definition rf_data :: "ramfs_file \<Rightarrow> char list" where
  "rf_data f = mem_slice (rf_content f) 0 (unat (rf_size f))"

definition ramfs_index :: "ramfs_file list \<Rightarrow> string \<Rightarrow> nat option" where
  "ramfs_index files p = first_index (\<lambda>f. rf_used f \<and> rf_path f = p) files"

definition ramfs_look :: "ramfs_file list \<Rightarrow> string \<Rightarrow> char list option" where
  "ramfs_look files p = map_option (\<lambda>i. rf_data (files ! i)) (ramfs_index files p)"

definition ramfs_unique :: "ramfs_file list \<Rightarrow> bool" where
  "ramfs_unique files \<longleftrightarrow>
     (\<forall>i < length files. \<forall>j < length files.
        rf_used (files ! i) \<longrightarrow> rf_used (files ! j) \<longrightarrow> rf_path (files ! i) = rf_path (files ! j) \<longrightarrow> i = j)"

lemma ramfs_ok_nth:
  assumes "ramfs_ok files" and "i < MAX_FILES"
  shows "length (rf_path (files ! i)) < MAX_PATH" "cstr (rf_path (files ! i))"
    "unat (rf_size (files ! i)) \<le> MAX_CONTENT"
  using assms nth_mem [of i files] by (auto simp: ramfs_ok_def simp del: nth_mem)

lemma ramfs_ok_length: "ramfs_ok files \<Longrightarrow> length files = MAX_FILES"
  by (simp add: ramfs_ok_def)

lemma ramfs_ok_update:
  assumes "ramfs_ok files" and "length (rf_path f) < MAX_PATH" "cstr (rf_path f)"
    "unat (rf_size f) \<le> MAX_CONTENT"
  shows "ramfs_ok (files[i := f])"
  using assms set_update_subset_insert [of files i f] by (auto simp: ramfs_ok_def)

lemma ramfs_init_ok: "ramfs_ok (ramfs_init files)" "ramfs_unique (ramfs_init files)"
  "ramfs_look (ramfs_init files) p = None"
  by (auto simp: ramfs_ok_def ramfs_init_def zero_ramfs_file_def ramfs_unique_def ramfs_look_def
      ramfs_index_def first_index_None)

lemma ramfs_index_update_other:
  assumes "i < length files" and "rf_used (files ! i) \<Longrightarrow> rf_path (files ! i) \<noteq> p"
    and "rf_used f \<Longrightarrow> rf_path f \<noteq> p"
  shows "ramfs_index (files[i := f]) p = ramfs_index files p"
  unfolding ramfs_index_def using assms by (intro first_index_update_irrelevant) auto

lemma ramfs_index_SomeD:
  "ramfs_index files p = Some i \<Longrightarrow> i < length files \<and> rf_used (files ! i) \<and> rf_path (files ! i) = p"
  unfolding ramfs_index_def by (drule first_index_SomeD) simp

lemma ramfs_look_update_other:
  assumes "i < length files" and "rf_used (files ! i) \<Longrightarrow> rf_path (files ! i) \<noteq> p"
    and "rf_used f \<Longrightarrow> rf_path f \<noteq> p"
  shows "ramfs_look (files[i := f]) p = ramfs_look files p"
proof -
  have "files[i := f] ! j = files ! j" if "ramfs_index files p = Some j" for j
  proof -
    have "j \<noteq> i"
      using ramfs_index_SomeD [OF that] assms(2) by auto
    then show ?thesis by simp
  qed
  then show ?thesis
    using assms
    by (cases "ramfs_index files p") (simp_all add: ramfs_look_def ramfs_index_update_other)
qed

lemma ramfs_look_update_same:
  assumes "i < length files" and "rf_used f" and "rf_path f = p"
    and "\<And>j. j < length files \<Longrightarrow> j \<noteq> i \<Longrightarrow> rf_used (files ! j) \<Longrightarrow> rf_path (files ! j) \<noteq> p"
  shows "ramfs_look (files[i := f]) p = Some (rf_data f)"
proof -
  have "ramfs_index (files[i := f]) p = Some i"
    unfolding ramfs_index_def using assms
    by (intro first_index_unique) (auto simp: nth_list_update)
  then show ?thesis
    using assms(1) by (simp add: ramfs_look_def)
qed

section \<open>Names\<close>

definition ramfs_link :: "string \<Rightarrow> u64 \<times> ramfs_file list \<Rightarrow> (u64 \<times> ramfs_file list) option" where
  "ramfs_link p s =
     (case ramfs_create p (fst s) (snd s) of
        Inr (Some _, h, files) \<Rightarrow> Some (h, files)
      | _ \<Rightarrow> None)"

definition ramfs_remove :: "string \<Rightarrow> u64 \<times> ramfs_file list \<Rightarrow> (u64 \<times> ramfs_file list) option" where
  "ramfs_remove p s =
     (case ramfs_unlink p (snd s) of (r, files) \<Rightarrow> if r = 0 then Some (fst s, files) else None)"

definition ramfs_inv :: "u64 \<times> ramfs_file list \<Rightarrow> bool" where
  "ramfs_inv s \<longleftrightarrow> ramfs_ok (snd s) \<and> ramfs_unique (snd s)"

definition ramfs_name :: "string \<Rightarrow> bool" where
  "ramfs_name p \<longleftrightarrow> prefix ''/tmp/'' p \<and> cstr p"

text \<open>The slot a new file gets.\<close>

definition new_ramfs_file :: "string \<Rightarrow> ramfs_file \<Rightarrow> ramfs_file" where
  "new_ramfs_file p f =
     f\<lparr>rf_used := True, rf_path := p, rf_size := 0, rf_content := (rf_content f)(0 := NUL)\<rparr>"

lemma ramfs_create_Inr:
  assumes "ramfs_create p h files = Inr (Some file, h', files')" and "prefix ''/tmp/'' p"
  obtains i where "length p < MAX_PATH" "first_index (\<lambda>f. \<not> rf_used f) files = Some i"
    "files' = files[i := new_ramfs_file p (files ! i)]"
    "file = \<lparr>f_ops = Ramfs_Fops, f_path = [], f_private = Ramfs_Slot i, f_pos = 0\<rparr>"
  using assms
  by (auto simp: ramfs_create_def res_Inr_iffs Let_def new_ramfs_file_def
      split: option.splits prod.splits)

lemma ramfs_link_some:
  assumes inv: "ramfs_inv s" and n: "ramfs_name p" and none: "ramfs_look (snd s) p = None"
    and l: "ramfs_link p s = Some s'"
  shows "ramfs_inv s' \<and> ramfs_look (snd s') = (ramfs_look (snd s))(p \<mapsto> [])"
proof -
  let ?fs = "snd s"
  from l obtain fl h' where c: "ramfs_create p (fst s) ?fs = Inr (Some fl, h', snd s')"
    by (auto simp: ramfs_link_def split: sum.splits prod.splits option.splits)
  obtain i where len: "length p < MAX_PATH" and i: "first_index (\<lambda>f. \<not> rf_used f) ?fs = Some i"
    and s': "snd s' = ?fs[i := new_ramfs_file p (?fs ! i)]"
    using ramfs_create_Inr [OF c] n unfolding ramfs_name_def by metis
  have iu: "i < length ?fs" "\<not> rf_used (?fs ! i)"
    using first_index_SomeD [OF i] by auto
  have ok: "ramfs_ok ?fs" and un: "ramfs_unique ?fs"
    using inv by (simp_all add: ramfs_inv_def)
  have fresh: "rf_path (?fs ! j) \<noteq> p" if "j < length ?fs" "rf_used (?fs ! j)" for j
    using none that by (auto simp: ramfs_look_def ramfs_index_def first_index_None)
  have "ramfs_ok (snd s')"
    unfolding s' using n len by (intro ramfs_ok_update [OF ok]) (simp_all add: new_ramfs_file_def ramfs_name_def)
  moreover have "ramfs_unique (snd s')"
    using un fresh iu unfolding s' ramfs_unique_def
    by (auto simp: nth_list_update new_ramfs_file_def split: if_splits)
  moreover have "ramfs_look (snd s') q = ((ramfs_look ?fs)(p \<mapsto> [])) q" for q
  proof (cases "q = p")
    case True
    have "ramfs_look (snd s') p = Some (rf_data (new_ramfs_file p (?fs ! i)))"
      unfolding s' using iu fresh by (intro ramfs_look_update_same) (simp_all add: new_ramfs_file_def)
    then show ?thesis
      using True by (simp add: rf_data_def new_ramfs_file_def mem_slice_def)
  next
    case False
    then show ?thesis
      unfolding s' using iu by (subst ramfs_look_update_other) (simp_all add: new_ramfs_file_def)
  qed
  ultimately show ?thesis
    by (simp add: ramfs_inv_def fun_eq_iff)
qed

lemma ramfs_unlink_some:
  assumes inv: "ramfs_inv s" and u: "ramfs_remove p s = Some s'"
  shows "ramfs_inv s' \<and> ramfs_look (snd s') = (ramfs_look (snd s))(p := None)"
proof -
  let ?fs = "snd s"
  from u obtain i where i: "ramfs_index ?fs p = Some i"
    and s': "snd s' = ?fs[i := (?fs ! i)\<lparr>rf_used := False, rf_size := 0\<rparr>]"
    by (auto simp: ramfs_remove_def ramfs_unlink_def ramfs_index_def split: option.splits)
  have iu: "i < length ?fs" "rf_used (?fs ! i)" "rf_path (?fs ! i) = p"
    using ramfs_index_SomeD [OF i] by auto
  have ok: "ramfs_ok ?fs" and un: "ramfs_unique ?fs"
    using inv by (simp_all add: ramfs_inv_def)
  have others: "j = i" if "j < length ?fs" "rf_used (?fs ! j)" "rf_path (?fs ! j) = p" for j
    using un that iu by (auto simp: ramfs_unique_def)
  have "ramfs_ok (snd s')"
    unfolding s' using ramfs_ok_nth [OF ok, of i] iu ramfs_ok_length [OF ok]
    by (intro ramfs_ok_update [OF ok]) simp_all
  moreover have "ramfs_unique (snd s')"
  proof -
    have "rf_used (snd s' ! j) \<Longrightarrow> j \<noteq> i \<and> snd s' ! j = ?fs ! j" if "j < length ?fs" for j
      using that unfolding s' by (cases "j = i") auto
    then show ?thesis
      using un unfolding ramfs_unique_def by (metis length_list_update s')
  qed
  moreover have "ramfs_look (snd s') q = ((ramfs_look ?fs)(p := None)) q" for q
  proof (cases "q = p")
    case True
    have "\<not> (rf_used (snd s' ! j) \<and> rf_path (snd s' ! j) = p)" if "j < length ?fs" for j
      using that others [OF that] unfolding s' by (cases "j = i") auto
    then have "ramfs_index (snd s') p = None"
      unfolding ramfs_index_def first_index_None by (metis in_set_conv_nth length_list_update s')
    then show ?thesis
      using True by (simp add: ramfs_look_def)
  next
    case False
    then show ?thesis
      unfolding s' using iu by (subst ramfs_look_update_other) simp_all
  qed
  ultimately show ?thesis
    by (simp add: ramfs_inv_def fun_eq_iff)
qed

interpretation rfs: directory "\<lambda>s. ramfs_look (snd s)" ramfs_link ramfs_remove "\<lambda>_ _. []" "\<lambda>_ _. True"
  ramfs_inv ramfs_name
proof (unfold_locales, goal_cases)
  case (1 s n s')
  then show ?case by (intro ramfs_link_some)
next
  case (2 s n)
  show ?case
    by (auto simp: ramfs_remove_def ramfs_unlink_def ramfs_look_def ramfs_index_def split: option.splits)
next
  case (3 s n s')
  then show ?case by (intro ramfs_unlink_some)
qed

section \<open>Contents\<close>

definition ramfs_handle :: "vfs_file \<Rightarrow> nat \<Rightarrow> bool" where
  "ramfs_handle fl i \<longleftrightarrow> f_private fl = Ramfs_Slot i \<and> i < MAX_FILES"

lemma ramfs_handle_slot: "ramfs_handle fl i \<Longrightarrow> ramfs_slot fl = Inr i"
  by (simp add: ramfs_handle_def ramfs_slot_def)

lemma length_rf_data [simp]: "length (rf_data f) = unat (rf_size f)"
  by (simp add: rf_data_def)

lemma rf_data_slice:
  "p + n \<le> unat (rf_size f) \<Longrightarrow> mem_slice (rf_content f) p n = take n (drop p (rf_data f))"
  by (rule nth_equalityI) (simp_all add: rf_data_def)

lemma ramfs_read_eq:
  assumes ok: "ramfs_ok files" and h: "ramfs_handle fl i"
    and nowrap: "unat (f_pos fl) + unat cnt < 2 ^ 64"
  defines "bs \<equiv> take (unat cnt) (drop (unat (f_pos fl)) (rf_data (files ! i)))"
  shows "ramfs_read fl cnt files = Inr (int (length bs), bs, fl\<lparr>f_pos := f_pos fl + of_nat (length bs)\<rparr>)"
proof -
  let ?f = "files ! i"
  have i: "i < length files" and sz: "unat (rf_size ?f) \<le> MAX_CONTENT"
    using h ramfs_ok_length [OF ok] ramfs_ok_nth [OF ok, of i] by (simp_all add: ramfs_handle_def)
  show ?thesis
  proof (cases "f_pos fl \<ge> rf_size ?f")
    case True
    then have "bs = []"
      by (simp add: bs_def word_le_nat_alt)
    with True i show ?thesis
      by (simp add: ramfs_read_def ramfs_handle_slot [OF h] Let_def)
  next
    case False
    define n where "n = (if f_pos fl + cnt > rf_size ?f then rf_size ?f - f_pos fl else cnt)"
    have lt: "unat (f_pos fl) < unat (rf_size ?f)"
      using False by (simp add: word_le_nat_alt)
    have n: "unat n = min (unat cnt) (unat (rf_size ?f) - unat (f_pos fl))"
      using lt unat_plus_64 [OF nowrap] unat_sub [of "f_pos fl" "rf_size ?f"]
      by (auto simp: n_def word_less_nat_alt word_le_nat_alt)
    have "ssize n = int (unat n)"
      using n sz by (intro ssize_small) simp
    moreover have "bs = mem_slice (rf_content ?f) (unat (f_pos fl)) (unat n)"
      using lt n by (simp add: bs_def rf_data_slice min_def)
    moreover have "length bs = unat n"
      using n by (simp add: bs_def)
    moreover have "unat (f_pos fl) + unat n \<le> MAX_CONTENT"
      using lt n sz by simp
    ultimately show ?thesis
      using False i by (simp add: ramfs_read_def ramfs_handle_slot [OF h] Let_def flip: n_def)
  qed
qed

text \<open>What a write leaves in the slot: \<open>n\<close> bytes of the buffer, as many as fit before the limit.\<close>

definition ramfs_written :: "vfs_file \<Rightarrow> u64 \<Rightarrow> nat" where
  "ramfs_written fl cnt = min (unat cnt) (MAX_CONTENT - unat (f_pos fl))"

lemma ramfs_write_eq:
  assumes ok: "ramfs_ok files" and h: "ramfs_handle fl i"
    and nowrap: "unat (f_pos fl) + unat cnt < 2 ^ 64"
    and pos: "f_pos fl \<le> rf_size (files ! i)" and buf: "ramfs_written fl cnt \<le> length buf"
  defines "n \<equiv> ramfs_written fl cnt" and "p \<equiv> unat (f_pos fl)"
  obtains files' where "ramfs_write fl buf cnt files = Inr (int n, fl\<lparr>f_pos := f_pos fl + of_nat n\<rparr>, files')"
    "ramfs_ok files'" "\<forall>j. j \<noteq> i \<longrightarrow> files' ! j = files ! j"
    "rf_used (files' ! i) = rf_used (files ! i)" "rf_path (files' ! i) = rf_path (files ! i)"
    "rf_data (files' ! i) =
       take p (rf_data (files ! i)) @ take n buf @ drop (p + n) (rf_data (files ! i))"
proof -
  let ?f = "files ! i"
  have i: "i < length files" and sz: "unat (rf_size ?f) \<le> MAX_CONTENT"
    and path: "length (rf_path ?f) < MAX_PATH" "cstr (rf_path ?f)"
    using h ramfs_ok_length [OF ok] ramfs_ok_nth [OF ok, of i] by (simp_all add: ramfs_handle_def)
  have p: "p \<le> unat (rf_size ?f)"
    using pos by (simp add: p_def word_le_nat_alt)
  define w where "w = (if f_pos fl + cnt > 4096 then 4096 - f_pos fl else cnt)"
  have w: "unat w = n"
    using p sz unat_plus_64 [OF nowrap] unat_sub [of "f_pos fl" "0x1000"]
    by (auto simp: w_def n_def p_def ramfs_written_def word_less_nat_alt word_le_nat_alt)
  have pn: "p + n \<le> MAX_CONTENT"
    using p sz by (simp add: n_def p_def ramfs_written_def)
  have step: "ramfs_write fl buf cnt files =
      (if w > 0 then
         bind_res (guard_res (p + unat w \<le> MAX_CONTENT \<and> unat w \<le> length buf) Out_Of_Bounds) (\<lambda>_.
           Inr (ssize w, fl\<lparr>f_pos := f_pos fl + w\<rparr>,
                files[i := ?f\<lparr>rf_content := memcpy (rf_content ?f) p (\<lambda>k. buf ! k) 0 (unat w),
                  rf_size := (if f_pos fl + w > rf_size ?f then f_pos fl + w else rf_size ?f)\<rparr>]))
       else Inr (ssize w, fl, files))"
    using i by (simp only: ramfs_write_def ramfs_handle_slot [OF h] Let_def w_def p_def
        bind_res_simps guard_res_simps of_nat_numeral simp_thms)
  have ss: "ssize w = int n"
    using w pn by (subst ssize_small) simp_all
  show thesis
  proof (cases "n = 0")
    case True
    then have w0: "w = 0"
      using w by (simp add: unat_eq_0)
    then have "ramfs_write fl buf cnt files = Inr (0, fl, files)"
      using ss True by (simp add: step)
    then show thesis
      using True ok by (intro that [of files]) simp_all
  next
    case False
    let ?pos = "f_pos fl + w"
    let ?m = "memcpy (rf_content ?f) p (\<lambda>k. buf ! k) 0 n"
    let ?g = "?f\<lparr>rf_content := ?m, rf_size := (if ?pos > rf_size ?f then ?pos else rf_size ?f)\<rparr>"
    have upos: "unat ?pos = p + n"
      using w pn p_def by (subst unat_plus_64) simp_all
    have wn: "w = of_nat n"
      by (simp flip: w)
    have w0: "w > 0"
      using False w by (auto simp: word_gt_0)
    have eq: "ramfs_write fl buf cnt files = Inr (int n, fl\<lparr>f_pos := f_pos fl + of_nat n\<rparr>, files[i := ?g])"
      using ss w w0 pn buf by (simp add: step n_def [symmetric] wn [symmetric])
    have size: "unat (rf_size ?g) = max (p + n) (unat (rf_size ?f))"
      using upos by (simp add: word_less_nat_alt max_def)
    have "rf_data ?g = take p (rf_data ?f) @ take n buf @ drop (p + n) (rf_data ?f)" (is "?l = ?r")
    proof (rule nth_equalityI)
      show "length ?l = length ?r"
        using size p buf by (simp add: n_def max_def)
    next
      fix k assume "k < length ?l"
      then have k: "k < max (p + n) (unat (rf_size ?f))"
        using size by simp
      have "?l ! k = ?m k"
        using k size by (simp add: rf_data_def)
      then show "?l ! k = ?r ! k"
        using k p buf by (auto simp: memcpy_eq nth_append rf_data_def n_def)
    qed
    moreover have "ramfs_ok (files[i := ?g])"
      using path size pn sz by (intro ramfs_ok_update [OF ok]) simp_all
    ultimately show thesis
      using eq i by (intro that [of "files[i := ?g]"]) simp_all
  qed
qed

section \<open>Listings\<close>

lemma is_file_in_dir_iff:
  "is_file_in_dir f d \<longleftrightarrow> (\<exists>b. f = d @ CHR ''/'' # b \<and> CHR ''/'' \<notin> set b)"
proof (cases "prefix d f")
  case True
  then obtain r where f: "f = d @ r"
    by (auto elim: prefixE)
  show ?thesis
  proof (cases "d = ''/tmp''")
    case True
    then show ?thesis
      by (cases r) (auto simp: is_file_in_dir_def f Let_def rindex_None_iff)
  next
    case False
    then have "is_file_in_dir f d \<longleftrightarrow> rindex f (CHR ''/'') = Some (length d)"
      using True by (auto simp: is_file_in_dir_def Let_def split: option.splits)
    then show ?thesis
      unfolding rindex_Some_iff f by auto
  qed
next
  case False
  then show ?thesis
    by (auto simp: is_file_in_dir_def Let_def)
qed

lemma get_basename_eq: "CHR ''/'' \<notin> set b \<Longrightarrow> get_basename (d @ CHR ''/'' # b) = b"
  by (simp add: get_basename_def rindex_append)

definition ramfs_dirent :: "nat \<times> ramfs_file \<Rightarrow> dirent" where
  "ramfs_dirent e = \<lparr>d_inode = of_nat (fst e + 2), d_name = get_basename (rf_path (snd e))\<rparr>"

definition ramfs_entries :: "string \<Rightarrow> nat \<Rightarrow> ramfs_file list \<Rightarrow> (nat \<times> ramfs_file) list" where
  "ramfs_entries d i fs = filter (\<lambda>e. rf_used (snd e) \<and> is_file_in_dir (rf_path (snd e)) d) (List.enumerate i fs)"

lemma ramfs_dir_loop_eq:
  "ramfs_dir_loop i fs d n = take n (map ramfs_dirent (ramfs_entries d i fs))"
proof (induction fs arbitrary: i n)
  case (Cons f fs)
  then show ?case
    by (cases n) (simp_all add: ramfs_entries_def ramfs_dirent_def)
qed (simp add: ramfs_entries_def)

lemma ramfs_read_dir_eq:
  "ramfs_read_dir d cnt files =
     (0, take cnt (\<lparr>d_inode = 1, d_name = ''.''\<rparr> # \<lparr>d_inode = 1, d_name = ''..''\<rparr> #
           map ramfs_dirent (ramfs_entries d 0 files)))"
proof -
  consider "cnt = 0" | "cnt = 1" | m where "cnt = Suc (Suc m)"
    by (cases cnt; cases "cnt - 1") auto
  then show ?thesis
    by cases (simp_all add: ramfs_read_dir_def Let_def ramfs_dir_loop_eq)
qed

section \<open>Any sequence of operations\<close>

datatype ramfs_op =
    R_Create string
  | R_Unlink string
  | R_Mkdir string
  | R_Put string string               \<comment> \<open>\<open>ramfs_create_file\<close>\<close>
  | R_Write vfs_file "char list" u64

type_synonym ramfs_state = "u64 \<times> ramfs_file list"

fun ramfs_exec :: "ramfs_op \<Rightarrow> ramfs_state \<Rightarrow> ramfs_state res" where
  "ramfs_exec (R_Create p) (h, fs) = map_res (\<lambda>r. snd r) (ramfs_create p h fs)"
| "ramfs_exec (R_Unlink p) (h, fs) = Inr (h, snd (ramfs_unlink p fs))"
| "ramfs_exec (R_Mkdir p) (h, fs) = map_res (\<lambda>r. (h, snd r)) (ramfs_mkdir p fs)"
| "ramfs_exec (R_Put p c) (h, fs) = Inr (h, snd (ramfs_create_file p c fs))"
| "ramfs_exec (R_Write fl b n) (h, fs) = map_res (\<lambda>r. (h, snd (snd r))) (ramfs_write fl b n fs)"

fun ramfs_run :: "ramfs_op list \<Rightarrow> ramfs_state \<Rightarrow> ramfs_state res" where
  "ramfs_run [] s = Inr s"
| "ramfs_run (o1 # os) s = bind_res (ramfs_exec o1 s) (ramfs_run os)"

fun ramfs_op_cstr :: "ramfs_op \<Rightarrow> bool" where
  "ramfs_op_cstr (R_Create p) = cstr p"
| "ramfs_op_cstr (R_Unlink p) = cstr p"
| "ramfs_op_cstr (R_Mkdir p) = cstr p"
| "ramfs_op_cstr (R_Put p c) = (cstr p \<and> cstr c)"
| "ramfs_op_cstr (R_Write _ _ _) = True"

lemma ramfs_create_ok:
  assumes ok: "ramfs_ok fs" and p: "cstr p" and c: "ramfs_create p h fs = Inr (r, h', fs')"
  shows "ramfs_ok fs'"
proof -
  obtain k h1 where k: "kalloc sizeof_vfs_file h = (k, h1)"
    by (cases "kalloc sizeof_vfs_file h")
  show ?thesis
  proof (cases "first_index (\<lambda>f. \<not> rf_used f) fs")
    case None
    then show ?thesis
      using ok c by (auto simp: ramfs_create_def res_Inr_iffs split: if_splits)
  next
    case (Some i)
    then show ?thesis
      using ok p c k first_index_SomeD [OF Some]
      by (cases k) (auto simp: ramfs_create_def res_Inr_iffs Let_def split: if_splits
          intro!: ramfs_ok_update)
  qed
qed

lemma ramfs_ok_slot: "ramfs_ok fs \<Longrightarrow> i < length fs \<Longrightarrow>
    length (rf_path (fs ! i)) < MAX_PATH \<and> cstr (rf_path (fs ! i)) \<and> unat (rf_size (fs ! i)) \<le> MAX_CONTENT"
  using ramfs_ok_nth [of fs i] ramfs_ok_length [of fs] by simp

lemma ramfs_unlink_ok: "ramfs_ok fs \<Longrightarrow> ramfs_ok (snd (ramfs_unlink p fs))"
proof (cases "first_index (\<lambda>f. rf_used f \<and> rf_path f = p) fs")
  case (Some i)
  moreover assume ok: "ramfs_ok fs"
  ultimately show ?thesis
    using ramfs_ok_slot [OF ok, of i] first_index_SomeD [OF Some]
    by (simp add: ramfs_unlink_def ramfs_ok_update)
qed (simp add: ramfs_unlink_def)

lemma ramfs_mkdir_ok: "ramfs_ok fs \<Longrightarrow> cstr p \<Longrightarrow> ramfs_mkdir p fs = Inr (r, fs') \<Longrightarrow> ramfs_ok fs'"
  by (auto simp: ramfs_mkdir_def res_Inr_iffs split: option.splits intro!: ramfs_ok_update)

lemma ramfs_create_file_ok: "ramfs_ok fs \<Longrightarrow> cstr p \<Longrightarrow> ramfs_ok (snd (ramfs_create_file p c fs))"
proof (cases "first_index (\<lambda>f. \<not> rf_used f) fs")
  case (Some i)
  moreover assume ok: "ramfs_ok fs" and p: "cstr p"
  moreover have "unat (of_nat (min (length c) 4095) :: u64) \<le> 4096"
    by (rule order_trans [of _ "min (length c) 4095"]) (simp_all add: unat_of_nat)
  moreover have "cstr (take 31 p)"
    using p by (auto dest: in_set_takeD)
  ultimately show ?thesis
    by (simp add: ramfs_create_file_def Let_def ramfs_ok_update)
qed (simp add: ramfs_create_file_def)

lemma ramfs_write_ok:
  assumes ok: "ramfs_ok fs" and w: "ramfs_write fl b cnt fs = Inr (r, fl', fs')"
  shows "ramfs_ok fs'"
proof -
  obtain i where i: "ramfs_slot fl = Inr i" "i < length fs"
    using w by (auto simp: ramfs_write_def res_Inr_iffs)
  define n where "n = (if f_pos fl + cnt > 4096 then 4096 - f_pos fl else cnt)"
  have pos: "unat (f_pos fl + n) \<le> MAX_CONTENT" if "unat (f_pos fl) + unat n \<le> MAX_CONTENT"
    using that by (subst unat_plus_64) simp_all
  let ?g = "(fs ! i)\<lparr>rf_content := memcpy (rf_content (fs ! i)) (unat (f_pos fl)) (\<lambda>k. b ! k) 0 (unat n),
      rf_size := (if f_pos fl + n > rf_size (fs ! i) then f_pos fl + n else rf_size (fs ! i))\<rparr>"
  have "fs' = fs \<or> unat (f_pos fl) + unat n \<le> MAX_CONTENT \<and> fs' = fs[i := ?g]"
    using w i unfolding ramfs_write_def Let_def n_def by (auto simp: res_Inr_iffs split: if_splits)
  then show ?thesis
    using ok pos ramfs_ok_slot [OF ok i(2)] by (auto intro!: ramfs_ok_update)
qed

lemma ramfs_exec_ok:
  assumes "ramfs_ok (snd s)" and "ramfs_op_cstr o1" and "ramfs_exec o1 s = Inr s'"
  shows "ramfs_ok (snd s')"
  using assms
  by (cases o1; cases s)
    (auto simp: res_Inr_iffs ramfs_unlink_ok ramfs_create_file_ok
      dest: ramfs_create_ok ramfs_mkdir_ok ramfs_write_ok)

lemma ramfs_run_ok:
  "ramfs_ok (snd s) \<Longrightarrow> \<forall>o1 \<in> set os. ramfs_op_cstr o1 \<Longrightarrow> ramfs_run os s = Inr s' \<Longrightarrow> ramfs_ok (snd s')"
  by (induction os arbitrary: s) (auto simp: res_Inr_iffs intro: ramfs_exec_ok)

section \<open>Properties\<close>

text \<open>
  Property C11. Creating a file with a path of /tmp that is not in use makes exactly that path name an
  empty file; unlinking it succeeds and gives every path its earlier meaning, and a second unlink of
  it reports an error.
\<close>

theorem ramfs_create_then_unlink:
  assumes "ramfs_ok files" and "ramfs_unique files" and "prefix ''/tmp/'' p" and "cstr p"
    and "ramfs_look files p = None" and "ramfs_create p h files = Inr (Some fl, h', files')"
  shows "ramfs_look files' = (ramfs_look files)(p \<mapsto> []) \<and>
    (\<exists>files''. ramfs_unlink p files' = (0, files'') \<and> ramfs_look files'' = ramfs_look files \<and>
       ramfs_unlink p files'' = (-1, files''))"
proof -
  have inv: "ramfs_inv (h, files)" and name: "ramfs_name p"
    using assms by (simp_all add: ramfs_inv_def ramfs_name_def)
  have link: "ramfs_link p (h, files) = Some (h', files')" and none: "ramfs_look (snd (h, files)) p = None"
    using assms by (simp_all add: ramfs_link_def)
  obtain s where s: "ramfs_remove p (h', files') = Some s" "ramfs_look (snd s) = ramfs_look files"
    using rfs.link_then_unlink [OF inv name TrueI none link] by auto
  have inv': "ramfs_inv (h', files')"
    using ramfs_link_some [OF inv name none link] by simp
  have "ramfs_remove p s = None"
    by (rule rfs.unlink_twice [OF inv' name s(1)])
  then have "ramfs_unlink p (snd s) = (-1, snd s)"
    by (auto simp: ramfs_remove_def ramfs_unlink_def split: option.splits)
  moreover have "ramfs_unlink p files' = (0, snd s)"
    using s(1) by (auto simp: ramfs_remove_def split: prod.splits if_splits)
  ultimately show ?thesis
    using ramfs_link_some [OF inv name none link] s(2) by simp
qed


text \<open>
  A listing holds the two dot entries and then, in the order of the slots, the base names
  of exactly the used files whose path is the directory, a slash and the base name, cut off at the
  size of the caller's array.
\<close>

theorem ramfs_read_dir_lists:
  "ramfs_read_dir d cnt files =
     (0, take cnt (\<lparr>d_inode = 1, d_name = ''.''\<rparr> # \<lparr>d_inode = 1, d_name = ''..''\<rparr> #
           map (\<lambda>(i, f). \<lparr>d_inode = of_nat (i + 2), d_name = get_basename (rf_path f)\<rparr>)
             (filter (\<lambda>(i, f). rf_used f \<and> rf_path f = d @ ''/'' @ get_basename (rf_path f))
               (List.enumerate 0 files))))"
proof -
  have iff: "is_file_in_dir f d \<longleftrightarrow> f = d @ ''/'' @ get_basename f" for f
  proof
    assume "f = d @ ''/'' @ get_basename f"
    then have "CHR ''/'' \<in> set f"
      by (metis append_Cons in_set_conv_decomp)
    then obtain t u where "f = t @ CHR ''/'' # u" "CHR ''/'' \<notin> set u"
      by (metis split_list_last)
    then show "is_file_in_dir f d"
      using \<open>f = d @ ''/'' @ get_basename f\<close> by (auto simp: is_file_in_dir_iff get_basename_eq)
  qed (auto simp: is_file_in_dir_iff get_basename_eq)
  have "ramfs_dirent = (\<lambda>(i, f). \<lparr>d_inode = of_nat (i + 2), d_name = get_basename (rf_path f)\<rparr>)"
    by (simp add: fun_eq_iff ramfs_dirent_def)
  then show ?thesis
    unfolding ramfs_read_dir_eq ramfs_entries_def iff by (simp add: case_prod_unfold)
qed


text \<open>
  A path that does not fit the 32 bytes of the local buffer (with /tmp/ in front where it
  is missing) is not rejected: the string routines write past the buffer.
\<close>

theorem ramfs_create_overflows:
  assumes "MAX_PATH \<le> length (if prefix ''/tmp/'' p then p else ''/tmp/'' @ p)"
  shows "ramfs_create p h files = Inl Buffer_Overflow"
  using assms by (auto simp: ramfs_create_def str_copy_def str_cat_def split: if_splits)

section \<open>Concrete runs\<close>

definition ex_ramfs :: "ramfs_file list" where
  "ex_ramfs = (ramfs_init [])[0 := new_ramfs_file ''/tmp/a'' zero_ramfs_file]"

definition ex_ramfs_file :: vfs_file where
  "ex_ramfs_file = \<lparr>f_ops = Ramfs_Fops, f_path = [], f_private = Ramfs_Slot 0, f_pos = 0\<rparr>"

lemma ramfs_init_numeral: "ramfs_init fs = zero_ramfs_file # replicate 15 zero_ramfs_file"
  by (simp add: ramfs_init_def numeral_eq_Suc)

lemma ex_ramfs_eq: "ramfs_create ''/tmp/a'' 0 (ramfs_init []) = Inr (Some ex_ramfs_file, 304, ex_ramfs)"
  by (simp add: ramfs_create_def ramfs_init_numeral kalloc_def ex_ramfs_def ex_ramfs_file_def
      new_ramfs_file_def zero_ramfs_file_def Let_def str_copy_def)

lemma ex_ramfs_ok: "ramfs_ok ex_ramfs"
  using ramfs_create_ok [OF ramfs_init_ok(1) _ ex_ramfs_eq] by simp

theorem ramfs_create_then_unlink_witness:
  "ramfs_look ex_ramfs = (ramfs_look (ramfs_init []))(''/tmp/a'' \<mapsto> []) \<and>
    (\<exists>files''. ramfs_unlink ''/tmp/a'' ex_ramfs = (0, files'') \<and>
       ramfs_look files'' = ramfs_look (ramfs_init []) \<and> ramfs_unlink ''/tmp/a'' files'' = (-1, files''))"
  by (rule ramfs_create_then_unlink [OF ramfs_init_ok(1,2) _ _ ramfs_init_ok(3) ex_ramfs_eq]) simp_all



theorem ramfs_create_overflows_witness:
  "ramfs_create ''a-name-of-more-than-26-letters'' 0 (ramfs_init []) = Inl Buffer_Overflow"
  by (rule ramfs_create_overflows) simp

end
