(* ===== verification/Scheduler.thy ===== *)
theory Scheduler
  imports Process
begin

text \<open>
  Correctness of \<open>process.c\<close>: the invariant of the process table (\<open>sched_inv\<close>), the behaviour of the
  scheduler on every branch, what exit, wait, fork and exec do, and the step relation \<open>kstep\<close> of the
  operations that running code and the timer perform, with the invariant proved for every state
  reachable from boot.
\<close>

section \<open>The invariant\<close>

text \<open>
  \<open>ps\<close> is the process list from the newest process on. The list ends, no record occurs twice, no
  two processes have the same identifier, a parent is older than its child, and at most one process
  is running: the current one, which is never marked ready.
\<close>

definition sched_inv :: "u64 \<Rightarrow> pref list \<Rightarrow> ptable \<Rightarrow> bool" where
  "sched_inv h ps pt \<longleftrightarrow>
     heap_ok h \<and> ready_queue pt = None \<and>
     chain (\<lambda>p. next_p (procs pt p)) (process_list pt) ps \<and> distinct ps \<and>
     (\<exists>c \<in> set ps. current_process pt = Some c \<and> pstate (procs pt c) \<noteq> PROC_READY) \<and>
     (\<forall>p \<in> set ps. pstate (procs pt p) = PROC_RUNNING \<longrightarrow> current_process pt = Some p) \<and>
     inj_on (\<lambda>p. pid (procs pt p)) (set ps) \<and>
     (\<forall>p \<in> set ps. 0 \<le> parent_pid (procs pt p) \<and> parent_pid (procs pt p) < pid (procs pt p) \<and>
        pid (procs pt p) < next_pid pt) \<and>
     (\<forall>i. Slot i \<in> set ps \<longrightarrow> i < process_count pt) \<and>
     (\<forall>a. Heap a \<in> set ps \<longrightarrow> a < h)"

lemma sched_inv_find:
  "sched_inv h ps pt \<Longrightarrow> list_find pt P = Inr (List.find (\<lambda>p. P (procs pt p)) ps)"
  by (auto simp: sched_inv_def list_find_def walk_chain)

lemma sched_inv_current:
  assumes "sched_inv h ps pt"
  obtains c where "c \<in> set ps" "current_process pt = Some c" "pstate (procs pt c) \<noteq> PROC_READY"
  using assms by (auto simp: sched_inv_def)

lemma sched_inv_running:
  "sched_inv h ps pt \<Longrightarrow> p \<in> set ps \<Longrightarrow> pstate (procs pt p) = PROC_RUNNING \<Longrightarrow>
    current_process pt = Some p"
  by (simp add: sched_inv_def)

lemma sched_inv_slots:
  assumes "sched_inv h ps pt"
  shows "Slot i \<in> set ps \<Longrightarrow> i < process_count pt" "Heap a \<in> set ps \<Longrightarrow> a < h"
    "Slot (process_count pt) \<notin> set ps" "Heap h \<notin> set ps"
  using assms unfolding sched_inv_def by blast+

lemma upd_proc_simps [simp]:
  "procs (upd_proc p f pt) q = (if q = p then f (procs pt p) else procs pt q)"
  "process_count (upd_proc p f pt) = process_count pt"
  "current_process (upd_proc p f pt) = current_process pt"
  "process_list (upd_proc p f pt) = process_list pt"
  "ready_queue (upd_proc p f pt) = ready_queue pt"
  "next_pid (upd_proc p f pt) = next_pid pt"
  "pcpu (upd_proc p f pt) = pcpu pt"
  by (simp_all add: upd_proc_def)

text \<open>Writing a record keeps the invariant when the fields that the list rests on are untouched.\<close>

definition keeps_links :: "(process \<Rightarrow> process) \<Rightarrow> bool" where
  "keeps_links f \<longleftrightarrow>
     (\<forall>x. pid (f x) = pid x \<and> parent_pid (f x) = parent_pid x \<and> next_p (f x) = next_p x)"

lemma sched_inv_upd:
  assumes inv: "sched_inv h ps pt" and k: "keeps_links f"
    and s: "pstate (f (procs pt p)) = pstate (procs pt p) \<or>
      pstate (f (procs pt p)) \<noteq> PROC_RUNNING \<and>
      (current_process pt = Some p \<longrightarrow> pstate (f (procs pt p)) \<noteq> PROC_READY)"
  shows "sched_inv h ps (upd_proc p f pt)"
proof -
  let ?pt = "upd_proc p f pt"
  have links: "pid (procs ?pt q) = pid (procs pt q)" "parent_pid (procs ?pt q) = parent_pid (procs pt q)"
    "next_p (procs ?pt q) = next_p (procs pt q)" for q
    using k by (auto simp: keeps_links_def)
  have run: "pstate (procs ?pt q) = PROC_RUNNING \<Longrightarrow> pstate (procs pt q) = PROC_RUNNING" for q
    using s by (auto split: if_splits)
  have "pstate (procs ?pt c) \<noteq> PROC_READY"
    if "current_process pt = Some c" "pstate (procs pt c) \<noteq> PROC_READY" for c
    using s that by auto
  with inv show ?thesis
    unfolding sched_inv_def links using run by (auto simp del: upd_proc_simps(1))
qed

section \<open>The scheduler\<close>

text \<open>With no ready process the scheduler never returns.\<close>

lemma schedule_hang:
  assumes "sched_inv h ps pt" and "\<forall>p \<in> set ps. pstate (procs pt p) \<noteq> PROC_READY"
  shows "schedule pt = Inl Hang"
proof -
  have "List.find (\<lambda>p. pstate (procs pt p) = PROC_READY) ps = None"
    using assms(2) by (simp add: find_None_iff)
  then show ?thesis
    by (simp add: schedule_def sched_inv_find [OF assms(1)])
qed

text \<open>
  Otherwise it runs the first ready process of the list: only the two process states, the contexts,
  the current process and the processor change.
\<close>

definition switched :: "ptable \<Rightarrow> pref \<Rightarrow> pref \<Rightarrow> pref \<Rightarrow> process_state" where
  "switched pt cur nx q =
     (if q = nx then PROC_RUNNING
      else if q = cur \<and> pstate (procs pt cur) = PROC_RUNNING then PROC_READY
      else pstate (procs pt q))"

definition switch_state :: "pref \<Rightarrow> pref \<Rightarrow> ptable \<Rightarrow> ptable" where
  "switch_state cur nx pt =
     pt\<lparr>procs := (\<lambda>q. (procs pt q)\<lparr>pstate := switched pt cur nx q,
          ctx := if q = cur then cs_save (pcpu pt) (ctx (procs pt q)) else ctx (procs pt q)\<rparr>),
        current_process := Some nx, pcpu := cs_restore (ctx (procs pt nx)) (pcpu pt)\<rparr>"

lemma schedule_switches:
  assumes inv: "sched_inv h ps pt" and cur: "current_process pt = Some cur"
    and nx: "List.find (\<lambda>p. pstate (procs pt p) = PROC_READY) ps = Some nx"
  shows "nx \<noteq> cur \<and> schedule pt = Inr (switch_state cur nx pt)"
proof -
  have r: "pstate (procs pt nx) = PROC_READY"
    using nx by (auto simp: find_Some_iff)
  with inv cur have ne: "nx \<noteq> cur"
    by (auto simp: sched_inv_def)
  have f: "list_find pt (\<lambda>p. pstate p = PROC_READY) = Inr (Some nx)"
    using sched_inv_find [OF inv, of "\<lambda>p. pstate p = PROC_READY"] nx by simp
  let ?pt1 = "upd_proc nx (\<lambda>p. p\<lparr>pstate := PROC_RUNNING\<rparr>) pt"
  let ?pt2 = "if pstate (procs ?pt1 cur) = PROC_RUNNING
    then upd_proc cur (\<lambda>p. p\<lparr>pstate := PROC_READY\<rparr>) ?pt1 else ?pt1"
  have p2: "procs ?pt2 = (\<lambda>q. (procs pt q)\<lparr>pstate := switched pt cur nx q\<rparr>)"
    using ne by (auto simp: switched_def fun_eq_iff)
  have rest: "?pt2\<lparr>procs := pr, current_process := c, pcpu := m\<rparr> =
      pt\<lparr>procs := pr, current_process := c, pcpu := m\<rparr>" "pcpu ?pt2 = pcpu pt" for pr c m
    by (simp_all add: upd_proc_def)
  have "schedule pt = Inr (pt\<lparr>procs := (\<lambda>q. ((procs pt q)\<lparr>pstate := switched pt cur nx q\<rparr>)\<lparr>ctx :=
       if q = cur then cs_save (pcpu pt) (ctx (procs pt q)) else ctx (procs pt q)\<rparr>),
       current_process := Some nx, pcpu := cs_restore (ctx (procs pt nx)) (pcpu pt)\<rparr>)"
    unfolding schedule_def f cur of_option_simps bind_res_simps option.case Let_def
      context_switch_def p2 rest case_prod_conv
    using ne by (auto simp: fun_eq_iff intro!: arg_cong [of _ _ "\<lambda>f. pt\<lparr>procs := f, current_process := _, pcpu := _\<rparr>"])
  with ne show ?thesis
    by (simp add: switch_state_def)
qed

lemma schedule_Inr:
  assumes inv: "sched_inv h ps pt" and s: "schedule pt = Inr pt'"
  obtains cur nx where "cur \<in> set ps" "current_process pt = Some cur" "nx \<in> set ps" "nx \<noteq> cur"
    "List.find (\<lambda>p. pstate (procs pt p) = PROC_READY) ps = Some nx"
    "pt' = switch_state cur nx pt"
proof -
  obtain cur where c: "cur \<in> set ps" "current_process pt = Some cur"
    using inv by (rule sched_inv_current)
  obtain nx where nx: "List.find (\<lambda>p. pstate (procs pt p) = PROC_READY) ps = Some nx"
    using s schedule_hang [OF inv]
    by (cases "List.find (\<lambda>p. pstate (procs pt p) = PROC_READY) ps") (auto simp: find_None_iff)
  then have "nx \<in> set ps"
    by (auto simp: find_Some_iff)
  with c nx schedule_switches [OF inv c(2) nx] s that show ?thesis
    by auto
qed

lemma switch_state_simps [simp]:
  "pid (procs (switch_state cur nx pt) q) = pid (procs pt q)"
  "parent_pid (procs (switch_state cur nx pt) q) = parent_pid (procs pt q)"
  "next_p (procs (switch_state cur nx pt) q) = next_p (procs pt q)"
  "pstate (procs (switch_state cur nx pt) q) = switched pt cur nx q"
  "exit_status (procs (switch_state cur nx pt) q) = exit_status (procs pt q)"
  "msg_queue (procs (switch_state cur nx pt) q) = msg_queue (procs pt q)"
  "process_list (switch_state cur nx pt) = process_list pt"
  "process_count (switch_state cur nx pt) = process_count pt"
  "current_process (switch_state cur nx pt) = Some nx"
  "next_pid (switch_state cur nx pt) = next_pid pt"
  "ready_queue (switch_state cur nx pt) = ready_queue pt"
  by (simp_all add: switch_state_def)

lemma switch_state_inv:
  assumes inv: "sched_inv h ps pt" and cur: "current_process pt = Some cur"
    and nx: "nx \<in> set ps" "nx \<noteq> cur"
  shows "sched_inv h ps (switch_state cur nx pt)"
proof -
  have "q = nx" if "q \<in> set ps" "switched pt cur nx q = PROC_RUNNING" for q
    using that sched_inv_running [OF inv that(1)] cur by (auto simp: switched_def split: if_splits)
  then have "\<forall>q \<in> set ps. switched pt cur nx q = PROC_RUNNING \<longrightarrow> Some nx = Some q"
    by auto
  moreover have "\<exists>c \<in> set ps. Some nx = Some c \<and> switched pt cur nx c \<noteq> PROC_READY"
    using nx(1) by (intro bexI [of _ nx]) (simp_all add: switched_def)
  ultimately show ?thesis
    using inv unfolding sched_inv_def switch_state_simps by (elim conjE, intro conjI)
qed

lemma schedule_inv:
  assumes "sched_inv h ps pt" and "schedule pt = Inr pt'"
  shows "sched_inv h ps pt'"
  using assms switch_state_inv [OF assms(1)] by (metis schedule_Inr)

section \<open>Creation\<close>

text \<open>A new record in front of the list, with the next identifier and not running.\<close>

lemma sched_inv_push:
  assumes inv: "sched_inv h ps pt" and q: "q \<notin> set ps"
    and old: "\<And>p. p \<in> set ps \<Longrightarrow> pid (procs pt' p) = pid (procs pt p) \<and>
      parent_pid (procs pt' p) = parent_pid (procs pt p) \<and>
      next_p (procs pt' p) = next_p (procs pt p) \<and> pstate (procs pt' p) = pstate (procs pt p)"
    and new: "pid (procs pt' q) = next_pid pt" "0 \<le> parent_pid (procs pt' q)"
      "parent_pid (procs pt' q) < next_pid pt" "next_p (procs pt' q) = process_list pt"
      "pstate (procs pt' q) \<noteq> PROC_RUNNING"
    and glob: "process_list pt' = Some q" "current_process pt' = current_process pt"
      "next_pid pt' = next_pid pt + 1" "process_count pt \<le> process_count pt'"
      "ready_queue pt' = ready_queue pt"
    and fresh: "heap_ok h'" "h \<le> h'" "\<And>i. q = Slot i \<Longrightarrow> i < process_count pt'" "\<And>a. q = Heap a \<Longrightarrow> a < h'"
  shows "sched_inv h' (q # ps) pt'"
proof -
  have "chain (\<lambda>p. next_p (procs pt' p)) (process_list pt) ps"
    using inv old chain_cong [of ps "\<lambda>p. next_p (procs pt' p)" "\<lambda>p. next_p (procs pt p)"]
    by (simp add: sched_inv_def)
  then have chain: "chain (\<lambda>p. next_p (procs pt' p)) (process_list pt') (q # ps)"
    using glob(1) new(4) by simp
  obtain c where c: "c \<in> set ps" "current_process pt = Some c" "pstate (procs pt c) \<noteq> PROC_READY"
    using inv by (rule sched_inv_current)
  then have cur: "\<exists>c \<in> set (q # ps). current_process pt' = Some c \<and> pstate (procs pt' c) \<noteq> PROC_READY"
    using old [of c] glob(2) by auto
  have run: "\<forall>p \<in> set (q # ps). pstate (procs pt' p) = PROC_RUNNING \<longrightarrow> current_process pt' = Some p"
    using new(5) old glob(2) sched_inv_running [OF inv] by auto
  have lt: "\<forall>p \<in> set ps. 0 \<le> parent_pid (procs pt p) \<and> parent_pid (procs pt p) < pid (procs pt p) \<and>
      pid (procs pt p) < next_pid pt" and inj: "inj_on (\<lambda>p. pid (procs pt p)) (set ps)"
    using inv by (simp_all add: sched_inv_def)
  have inj': "inj_on (\<lambda>p. pid (procs pt' p)) (set (q # ps))"
  proof -
    have "inj_on (\<lambda>p. pid (procs pt' p)) (set ps)"
      using inj old inj_on_cong [of "set ps" "\<lambda>p. pid (procs pt' p)" "\<lambda>p. pid (procs pt p)"] by blast
    moreover have ne: "pid (procs pt' p) \<noteq> pid (procs pt' q)" if "p \<in> set ps" for p
      using bspec [OF lt that] old [OF that] new(1) by linarith
    have "pid (procs pt' q) \<notin> (\<lambda>p. pid (procs pt' p)) ` (set ps - {q})"
      by (rule notI, elim imageE DiffE, drule ne, erule notE, rule sym)
    ultimately show ?thesis
      unfolding list.set(2) inj_on_insert by (rule conjI)
  qed
  have lt': "\<forall>p \<in> set (q # ps). 0 \<le> parent_pid (procs pt' p) \<and>
      parent_pid (procs pt' p) < pid (procs pt' p) \<and> pid (procs pt' p) < next_pid pt'"
    using lt old new glob(3) by auto
  have "i < process_count pt'" if "Slot i \<in> set (q # ps)" for i
    using that sched_inv_slots(1) [OF inv, of i] fresh(3) [of i] glob(4) by auto
  moreover have "a < h'" if "Heap a \<in> set (q # ps)" for a
    using that sched_inv_slots(2) [OF inv, of a] fresh(2) fresh(4) [of a] by auto
  moreover have "distinct (q # ps)" "ready_queue pt' = None"
    using inv q glob(5) by (simp_all add: sched_inv_def)
  ultimately show ?thesis
    using chain cur run inj' lt' fresh(1) unfolding sched_inv_def by blast
qed

text \<open>\<open>create_process\<close> with a free slot.\<close>

definition create_state :: "u64 \<Rightarrow> pref \<Rightarrow> ptable \<Rightarrow> ptable" where
  "create_state process_stacks cur pt =
     (let new = Slot (process_count pt);
          sp = process_stacks + of_nat (process_count pt + 1) * PROCESS_STACK_SIZE in
      pt\<lparr>procs := (procs pt)(new := (procs pt new)\<lparr>pid := next_pid pt, parent_pid := pid (procs pt cur),
           pstate := PROC_READY, next_p := process_list pt, psp := sp,
           ctx := (ctx (procs pt cur))\<lparr>ctx_sp := sp\<rparr>\<rparr>),
         process_count := process_count pt + 1, process_list := Some new,
         next_pid := next_pid pt + 1\<rparr>)"

lemma create_process_some:
  assumes "current_process pt = Some cur" and "cur \<noteq> Slot (process_count pt)"
    and "process_count pt < MAX_PROCESSES"
  shows "create_process process_stacks pt =
    Inr (Slot (process_count pt), create_state process_stacks cur pt)"
  using assms by (simp add: create_process_def create_state_def upd_proc_def Let_def)

lemma create_process_full:
  "MAX_PROCESSES \<le> process_count pt \<Longrightarrow> create_process process_stacks pt = Inl Out_Of_Bounds"
  by (simp add: create_process_def)

lemma sched_inv_pids:
  assumes "sched_inv h ps pt" and "p \<in> set ps"
  shows "0 \<le> parent_pid (procs pt p)" "parent_pid (procs pt p) < pid (procs pt p)"
    "pid (procs pt p) < next_pid pt"
  using assms by (simp_all add: sched_inv_def)

lemma create_process_inv:
  assumes inv: "sched_inv h ps pt" and c: "create_process process_stacks pt = Inr (q, pt')"
  shows "sched_inv h (q # ps) pt' \<and> (\<exists>cur \<in> set ps. current_process pt = Some cur \<and>
    q = Slot (process_count pt) \<and> pt' = create_state process_stacks cur pt)"
proof -
  obtain cur where cur: "cur \<in> set ps" "current_process pt = Some cur"
    using inv by (rule sched_inv_current)
  have new: "Slot (process_count pt) \<notin> set ps"
    using inv by (rule sched_inv_slots)
  with cur have ne: "cur \<noteq> Slot (process_count pt)"
    by auto
  have "process_count pt < MAX_PROCESSES"
    using c create_process_full [of pt process_stacks] by (cases "MAX_PROCESSES \<le> process_count pt") auto
  with c create_process_some [OF cur(2) ne]
  have q: "q = Slot (process_count pt)" "pt' = create_state process_stacks cur pt"
    by simp_all
  have "heap_ok h"
    using inv by (simp add: sched_inv_def)
  with sched_inv_pids [OF inv cur(1)] have "sched_inv h (q # ps) pt'"
    unfolding q by (intro sched_inv_push [OF inv new])
      (use new in \<open>auto simp: create_state_def Let_def\<close>)
  with cur q show ?thesis by auto
qed

lemma create_state_child:
  "pstate (procs (create_state process_stacks cur pt) (Slot (process_count pt))) = PROC_READY"
  "parent_pid (procs (create_state process_stacks cur pt) (Slot (process_count pt))) = pid (procs pt cur)"
  "p \<noteq> Slot (process_count pt) \<Longrightarrow> procs (create_state process_stacks cur pt) p = procs pt p"
  by (simp_all add: create_state_def Let_def)

lemma fork_inv:
  assumes inv: "sched_inv h ps pt" and f: "handle_fork_message process_stacks msg pt = Inr (r, msg', pt')"
  shows "\<exists>q. sched_inv h (q # ps) pt' \<and> r = 0 \<and> mpid msg' = pid (procs pt' q)"
proof -
  from f obtain q pt1 where c: "create_process process_stacks pt = Inr (q, pt1)"
    by (auto simp: handle_fork_message_def res_Inr_iffs)
  obtain cur where cur: "cur \<in> set ps" "current_process pt = Some cur" "pt1 = create_state process_stacks cur pt"
    "q = Slot (process_count pt)" and inv1: "sched_inv h (q # ps) pt1"
    using create_process_inv [OF inv c] by auto
  have ne: "cur \<noteq> q"
    using cur sched_inv_slots(3) [OF inv] by auto
  let ?f = "\<lambda>p. p\<lparr>parent_pid := pid (procs pt1 cur), pstate := PROC_READY\<rparr>"
  let ?pt2 = "upd_proc q ?f pt1"
  let ?g = "\<lambda>p. p\<lparr>ctx := (ctx (procs ?pt2 cur))\<lparr>ctx_x := (ctx_x (ctx (procs ?pt2 cur)))[0 := 0],
    ctx_pc := mentry msg\<rparr>\<rparr>"
  have pt': "pt' = upd_proc q ?g ?pt2" "r = 0" "msg' = msg\<lparr>mpid := pid (procs pt' q), mstatus := 0\<rparr>"
    using f c cur(2) by (auto simp: handle_fork_message_def Let_def)
  have "?f (procs pt1 q) = procs pt1 q"
    using ne by (simp add: cur(3,4) create_state_def Let_def)
  then have "?pt2 = pt1"
    unfolding upd_proc_def by (metis (no_types, lifting) fun_upd_triv ptable.surjective ptable.update_convs(1))
  with inv1 have "sched_inv h (q # ps) ?pt2"
    by simp
  then have "sched_inv h (q # ps) (upd_proc q ?g ?pt2)"
    by (rule sched_inv_upd) (simp_all add: keeps_links_def)
  with pt' show ?thesis by auto
qed

text \<open>\<open>process_create\<close> with a record from the heap.\<close>

lemma process_create_inv:
  assumes inv: "sched_inv h ps pt" and c: "process_create entry h pt = (Some q, h', pt')"
  shows "sched_inv h' (q # ps) pt' \<and> q = Heap h \<and> ctx_pc (ctx (procs pt' q)) = entry \<and>
    ctx_x (ctx (procs pt' q)) = replicate 31 0 \<and> pstate (procs pt' q) = PROC_READY"
proof -
  obtain cur where cur: "cur \<in> set ps" "current_process pt = Some cur"
    using inv by (rule sched_inv_current)
  have h: "heap_ok h"
    using inv by (simp add: sched_inv_def)
  from c obtain a where a: "kalloc sizeof_process h = (Some a, h')"
    by (auto simp: process_create_def Let_def split: prod.splits option.splits)
  then have a': "a = h" "h' = h + 3160" "heap_ok h'"
    using kalloc_Some [OF a] kalloc_heap_ok [OF h, of sizeof_process] by auto
  have "unat (h + 3160) = unat h + 3160"
    using kalloc_no_wrap [OF h, of 3160] by simp
  then have lt: "h < h'"
    by (simp add: a'(2) word_less_nat_alt)
  have q: "q = Heap h"
    using c a a'(1) by (simp add: process_create_def Let_def)
  have new: "Heap h \<notin> set ps"
    using inv by (rule sched_inv_slots)
  have "chain (\<lambda>p. next_p (procs pt p)) (process_list pt) ps"
    using inv by (simp add: sched_inv_def)
  then obtain pl where pl: "process_list pt = Some pl"
    using cur(1) by (cases ps) auto
  have pt': "pt' = (upd_proc q (\<lambda>p. zero_process\<lparr>ns_mounts := [], next_p := process_list pt,
      ctx := zero_context\<lparr>ctx_pc := entry\<rparr>, pid := next_pid pt\<rparr>) pt)
      \<lparr>process_list := Some q, next_pid := next_pid pt + 1\<rparr>"
    using c unfolding process_create_def a prod.case option.case Let_def
    by (auto simp: upd_proc_def cur(2) pl q a'(1) zero_process_def intro!: ptable.equality)
  have "0 < next_pid pt"
    using sched_inv_pids [OF inv cur(1)] by linarith
  then have "sched_inv h' (Heap h # ps) pt'"
    unfolding q pt'
    by (intro sched_inv_push [OF inv new])
      (use new lt a'(3) in \<open>auto simp: upd_proc_def zero_process_def\<close>)
  then show ?thesis
    by (simp add: q pt' zero_process_def zero_context_def)
qed

section \<open>Exit, wait, exec and messages keep the invariant\<close>

text \<open>The exiting process after \<open>exit_process\<close> has marked it.\<close>

abbreviation zombify :: "int \<Rightarrow> process \<Rightarrow> process" where
  "zombify status p \<equiv> p\<lparr>pstate := PROC_ZOMBIE, exit_status := status\<rparr>"

text \<open>What \<open>exit_process\<close> leaves for the scheduler: a zombie, and its parent no longer blocked.\<close>

definition exit_state :: "int \<Rightarrow> pref \<Rightarrow> pref option \<Rightarrow> ptable \<Rightarrow> ptable" where
  "exit_state status cur parent pt =
     (let pt1 = upd_proc cur (zombify status) pt in
      case parent of
        Some q \<Rightarrow> if pstate (procs pt1 q) = PROC_BLOCKED
                  then upd_proc q (\<lambda>p. p\<lparr>pstate := PROC_READY\<rparr>) pt1 else pt1
      | None \<Rightarrow> pt1)"

definition parent_of :: "pref list \<Rightarrow> pref \<Rightarrow> ptable \<Rightarrow> pref option" where
  "parent_of ps cur pt = List.find (\<lambda>p. pid (procs pt p) = parent_pid (procs pt cur)) ps"

lemma zombify_inv:
  assumes "sched_inv h ps pt" and "current_process pt = Some cur"
  shows "sched_inv h ps (upd_proc cur (zombify status) pt)"
  using assms by (intro sched_inv_upd) (simp_all add: keeps_links_def)

lemma exit_process_eq:
  assumes inv: "sched_inv h ps pt" and cur: "current_process pt = Some cur"
  shows "exit_process status pt = schedule (exit_state status cur (parent_of ps cur pt) pt)"
proof -
  let ?pt1 = "upd_proc cur (zombify status) pt"
  have "find_process (parent_pid (procs ?pt1 cur)) ?pt1 = Inr (parent_of ps cur pt)"
    unfolding find_process_def sched_inv_find [OF zombify_inv [OF inv cur]] parent_of_def
    by (rule arg_cong [of _ _ "\<lambda>P. Inr (List.find P ps)"]) (auto simp: fun_eq_iff)
  then show ?thesis
    by (simp add: exit_process_def exit_state_def cur Let_def split: option.splits)
qed

lemma parent_of_neq:
  assumes "sched_inv h ps pt" and "cur \<in> set ps" and "parent_of ps cur pt = Some q"
  shows "q \<in> set ps" "q \<noteq> cur" "pid (procs pt q) = parent_pid (procs pt cur)"
  using assms sched_inv_pids(2) [OF assms(1,2)] by (auto simp: parent_of_def find_Some_iff)

lemma exit_state_inv:
  assumes inv: "sched_inv h ps pt" and cur: "cur \<in> set ps" "current_process pt = Some cur"
  shows "sched_inv h ps (exit_state status cur (parent_of ps cur pt) pt)"
proof (cases "parent_of ps cur pt")
  case None
  then show ?thesis
    using zombify_inv [OF inv cur(2)] by (simp add: exit_state_def Let_def)
next
  case (Some q)
  have "q \<noteq> cur"
    using parent_of_neq [OF inv cur(1) Some] by simp
  then have "sched_inv h ps (upd_proc q (\<lambda>p. p\<lparr>pstate := PROC_READY\<rparr>) (upd_proc cur (zombify status) pt))"
    using cur(2) by (intro sched_inv_upd [OF zombify_inv [OF inv cur(2)]]) (simp_all add: keeps_links_def)
  then show ?thesis
    using Some zombify_inv [OF inv cur(2)] by (simp add: exit_state_def Let_def)
qed

lemma exit_inv:
  assumes inv: "sched_inv h ps pt" and e: "exit_process status pt = Inr pt'"
  shows "sched_inv h ps pt'"
proof -
  obtain cur where cur: "cur \<in> set ps" "current_process pt = Some cur"
    using inv by (rule sched_inv_current)
  show ?thesis
    using e exit_process_eq [OF inv cur(2)] schedule_inv [OF exit_state_inv [OF inv cur]] by simp
qed

text \<open>\<open>process_exit\<close> gives up the current process before it schedules, so it can only fault.\<close>

lemma process_exit_faults:
  assumes inv: "sched_inv h ps pt"
  shows "process_exit status pt = Inl Null_Deref \<or> process_exit status pt = Inl Hang"
proof -
  obtain cur where cur: "cur \<in> set ps" "current_process pt = Some cur"
    using inv by (rule sched_inv_current)
  have rq: "ready_queue pt = None"
    using inv by (simp add: sched_inv_def)
  let ?pt1 = "upd_proc cur (zombify status) pt"
  have u: "unlink_ready (procs ?pt1) None cur None None = Some (procs ?pt1, None)"
    by (simp add: unlink_ready.simps)
  let ?pt2 = "?pt1\<lparr>procs := procs ?pt1, ready_queue := None, current_process := None\<rparr>"
  have "process_exit status pt = schedule ?pt2"
    using cur(2) rq u by (simp add: process_exit_def Let_def)
  moreover have "list_find ?pt2 P = list_find ?pt1 P" for P
    by (simp add: list_find_def)
  ultimately show ?thesis
    using sched_inv_find [OF zombify_inv [OF inv cur(2)], of status]
    by (auto simp: schedule_def split: option.splits)
qed

lemma block_inv:
  assumes "sched_inv h ps pt" and "current_process pt = Some cur"
  shows "sched_inv h ps (upd_proc cur (\<lambda>p. p\<lparr>pstate := PROC_BLOCKED\<rparr>) pt)"
  using assms by (intro sched_inv_upd) (simp_all add: keeps_links_def)

lemma wait_inv:
  assumes inv: "sched_inv h ps pt" and w: "handle_wait_message msg pt = Inr (r, msg', pt')"
  shows "sched_inv h ps pt'"
proof -
  obtain cur where cur: "cur \<in> set ps" "current_process pt = Some cur"
    using inv by (rule sched_inv_current)
  let ?Z = "zombie_child_of (pid (procs pt cur))"
  show ?thesis
  proof (cases "List.find (\<lambda>p. ?Z (procs pt p)) ps")
    case None
    with w cur sched_inv_find [OF inv, of ?Z] schedule_inv [OF block_inv [OF inv cur(2)]]
    show ?thesis
      by (auto simp: handle_wait_message_def res_Inr_iffs)
  next
    case (Some q)
    then have "pt' = upd_proc q (\<lambda>p. p\<lparr>pstate := PROC_DEAD\<rparr>) pt"
      using w cur sched_inv_find [OF inv, of ?Z] by (auto simp: handle_wait_message_def)
    then show ?thesis
      using inv by (auto intro!: sched_inv_upd simp: keeps_links_def)
  qed
qed

lemma wait_for_child_inv:
  assumes inv: "sched_inv h ps pt" and w: "wait_for_child pt = Inr (r, pt')"
  shows "sched_inv h ps pt'"
proof -
  obtain cur where cur: "current_process pt = Some cur"
    using inv by (rule sched_inv_current)
  with w have "schedule (upd_proc cur (\<lambda>p. p\<lparr>pstate := PROC_BLOCKED\<rparr>) pt) = Inr pt'"
    by (auto simp: wait_for_child_def res_Inr_iffs)
  then show ?thesis
    by (rule schedule_inv [OF block_inv [OF inv cur]])
qed

lemma exec_inv:
  assumes inv: "sched_inv h ps pt" and e: "handle_exec_message msg pt = Inr (r, pt')"
  shows "sched_inv h ps pt'"
proof (cases "mpath msg")
  case None
  with inv e show ?thesis by (simp add: handle_exec_message_def)
next
  case (Some path)
  obtain cur where "current_process pt = Some cur"
    using inv by (rule sched_inv_current)
  with Some e obtain x1 where pt': "pt' = upd_proc cur (\<lambda>p. p\<lparr>ctx := (ctx p)\<lparr>ctx_pc := mentry msg,
      ctx_sp := PROCESS_STACK_TOP, ctx_x := x1\<rparr>\<rparr>) pt"
    by (auto simp: handle_exec_message_def Let_def)
  show ?thesis
    unfolding pt' by (rule sched_inv_upd [OF inv]) (simp_all add: keeps_links_def)
qed

lemma queue_inv:
  "sched_inv h ps pt \<Longrightarrow> sched_inv h ps (upd_proc p (\<lambda>x. snd (queue_message msg x)) pt)"
  by (erule sched_inv_upd) (auto simp: keeps_links_def queue_message_def split: option.splits)

lemma receive_inv:
  assumes inv: "sched_inv h ps pt" and r: "receive_message msg pt = Inr (r, msg', pt')"
  shows "sched_inv h ps pt'"
proof -
  obtain cur where cur: "current_process pt = Some cur"
    using inv by (rule sched_inv_current)
  have b: "sched_inv h ps (upd_proc cur (\<lambda>p. p\<lparr>msg_blocked := True\<rparr>) pt)"
    by (rule sched_inv_upd [OF inv]) (simp_all add: keeps_links_def)
  show ?thesis
  proof (cases "mq_pop (msg_queue (procs pt cur))")
    case None
    with r cur inv schedule_inv [OF b] show ?thesis
      by (auto simp: receive_message_def res_Inr_iffs split: if_splits)
  next
    case (Some mq)
    then have "pt' = upd_proc cur (\<lambda>p. p\<lparr>msg_queue := snd mq\<rparr>) pt"
      using r cur by (auto simp: receive_message_def split: prod.splits)
    then show ?thesis
      using inv by (auto intro!: sched_inv_upd simp: keeps_links_def)
  qed
qed

section \<open>Every reachable state\<close>

text \<open>
  The operations on the process table that running code, the boot code and the timer interrupt
  perform, on the heap pointer and the table. Each is one step; an operation that faults has no
  step. \<open>spawn\<close> is \<open>process_create\<close> with the assignments that \<open>kernel_main\<close> adds.
\<close>

inductive kstep :: "u64 \<Rightarrow> u64 \<times> ptable \<Rightarrow> u64 \<times> ptable \<Rightarrow> bool" for process_stacks where
  tick: "schedule pt = Inr pt' \<Longrightarrow> kstep process_stacks (h, pt) (h, pt')"
| create: "create_process process_stacks pt = Inr (q, pt') \<Longrightarrow> kstep process_stacks (h, pt) (h, pt')"
| fork: "handle_fork_message process_stacks msg pt = Inr (r, msg', pt') \<Longrightarrow>
    kstep process_stacks (h, pt) (h, pt')"
| spawn: "process_create entry h pt = (Some q, h', pt') \<Longrightarrow>
    kstep process_stacks (h, pt) (h', upd_proc q (\<lambda>p. p\<lparr>psp := s, pstate := PROC_READY\<rparr>) pt')"
| exit: "exit_process status pt = Inr pt' \<Longrightarrow> kstep process_stacks (h, pt) (h, pt')"
| wait: "handle_wait_message msg pt = Inr (r, msg', pt') \<Longrightarrow> kstep process_stacks (h, pt) (h, pt')"
| wait_child: "wait_for_child pt = Inr (r, pt') \<Longrightarrow> kstep process_stacks (h, pt) (h, pt')"
| exec: "handle_exec_message msg pt = Inr (r, pt') \<Longrightarrow> kstep process_stacks (h, pt) (h, pt')"
| queue: "kstep process_stacks (h, pt) (h, upd_proc p (\<lambda>x. snd (queue_message msg x)) pt)"
| receive: "receive_message msg pt = Inr (r, msg', pt') \<Longrightarrow> kstep process_stacks (h, pt) (h, pt')"

inductive_cases kstepE: "kstep process_stacks (h, pt) (h', pt')"

text \<open>The table before \<open>init_process\<close>: static storage.\<close>

definition boot_ptable :: "cpu \<Rightarrow> ptable" where
  "boot_ptable m = \<lparr>procs = (\<lambda>_. zero_process), process_count = 0, current_process = None,
     process_list = None, ready_queue = None, next_pid = 2, pcpu = m\<rparr>"

inductive kreach :: "u64 \<Rightarrow> cpu \<Rightarrow> u64 \<times> ptable \<Rightarrow> bool" for process_stacks m where
  boot: "heap_ok h \<Longrightarrow> kreach process_stacks m (h, init_process process_stacks (boot_ptable m))"
| step: "kreach process_stacks m s \<Longrightarrow> kstep process_stacks s t \<Longrightarrow> kreach process_stacks m t"

lemma boot_inv:
  "heap_ok h \<Longrightarrow> sched_inv h [Slot 0] (init_process process_stacks (boot_ptable m))"
  by (simp add: sched_inv_def init_process_def boot_ptable_def upd_proc_def Let_def)

lemma spawn_inv:
  assumes "sched_inv h ps pt" and "process_create entry h pt = (Some q, h', pt')"
  shows "sched_inv h' (q # ps) (upd_proc q (\<lambda>p. p\<lparr>psp := s, pstate := PROC_READY\<rparr>) pt')"
proof (rule sched_inv_upd)
  show "sched_inv h' (q # ps) pt'" and "keeps_links (\<lambda>p. p\<lparr>psp := s, pstate := PROC_READY\<rparr>)"
    by (use process_create_inv [OF assms] in blast) (simp add: keeps_links_def)
qed (use process_create_inv [OF assms] in auto)

lemma kstep_inv:
  assumes "sched_inv h ps pt" and "kstep process_stacks (h, pt) (h', pt')"
  shows "\<exists>ps'. sched_inv h' ps' pt'"
  using assms(2)
proof (elim kstepE, goal_cases)
  case 1
  then show ?case using schedule_inv [OF assms(1)] by metis
next
  case 2
  then show ?case using create_process_inv [OF assms(1)] by metis
next
  case 3
  then show ?case using fork_inv [OF assms(1)] by metis
next
  case 4
  then show ?case using spawn_inv [OF assms(1)] by metis
next
  case 5
  then show ?case using exit_inv [OF assms(1)] by metis
next
  case 6
  then show ?case using wait_inv [OF assms(1)] by metis
next
  case 7
  then show ?case using wait_for_child_inv [OF assms(1)] by metis
next
  case 8
  then show ?case using exec_inv [OF assms(1)] by metis
next
  case 9
  then show ?case using queue_inv [OF assms(1)] by metis
next
  case 10
  then show ?case using receive_inv [OF assms(1)] by metis
qed

lemma kreach_inv: "kreach process_stacks m s \<Longrightarrow> \<exists>ps. sched_inv (fst s) ps (snd s)"
proof (induction rule: kreach.induct)
  case (boot h)
  then show ?case using boot_inv by auto
next
  case (step s t)
  then show ?case using kstep_inv by (metis prod.collapse)
qed

section \<open>Properties\<close>

lemma kreachD:
  assumes "kreach process_stacks m (h, pt)"
  obtains ps cur where "sched_inv h ps pt" "cur \<in> set ps" "current_process pt = Some cur"
proof -
  obtain ps where inv: "sched_inv h ps pt"
    using kreach_inv [OF assms] by auto
  obtain cur where "cur \<in> set ps" "current_process pt = Some cur"
    using inv by (rule sched_inv_current)
  with inv show thesis by (rule that)
qed

text \<open>Property C1. In every state reachable from boot the process list is a finite list without
  repetition; process identifiers are unique; the current process is on the list, and it is the only
  one that may be marked running; \<open>find_process\<close> ends, with the process of that identifier if there
  is one.\<close>

theorem reachable_process_table:
  assumes "kreach process_stacks m (h, pt)"
  shows "\<exists>ps cur. chain (\<lambda>p. next_p (procs pt p)) (process_list pt) ps \<and> distinct ps \<and>
    inj_on (\<lambda>p. pid (procs pt p)) (set ps) \<and>
    current_process pt = Some cur \<and> cur \<in> set ps \<and>
    {p \<in> set ps. pstate (procs pt p) = PROC_RUNNING} \<subseteq> {cur} \<and>
    (\<forall>k. \<exists>r. find_process k pt = Inr r \<and>
       {p \<in> set ps. pid (procs pt p) = k} = set_option r)"
proof -
  obtain ps cur where inv: "sched_inv h ps pt" and cur: "cur \<in> set ps" "current_process pt = Some cur"
    using assms by (rule kreachD)
  have inj: "inj_on (\<lambda>p. pid (procs pt p)) (set ps)"
    using inv by (simp add: sched_inv_def)
  have "{p \<in> set ps. pid (procs pt p) = k} = set_option (List.find (\<lambda>p. pid (procs pt p) = k) ps)" for k
  proof (cases "List.find (\<lambda>p. pid (procs pt p) = k) ps")
    case None
    then have "{p \<in> set ps. pid (procs pt p) = k} = {}"
      by (auto simp: find_None_iff)
    with None show ?thesis by simp
  next
    case (Some q)
    then have "q \<in> set ps" "pid (procs pt q) = k"
      by (auto simp: find_Some_iff)
    with inj have "{p \<in> set ps. pid (procs pt p) = k} = {q}"
      by (auto dest: inj_onD)
    with Some show ?thesis by simp
  qed
  then have "\<forall>k. \<exists>r. find_process k pt = Inr r \<and> {p \<in> set ps. pid (procs pt p) = k} = set_option r"
    by (simp add: find_process_def sched_inv_find [OF inv])
  moreover have "{p \<in> set ps. pstate (procs pt p) = PROC_RUNNING} \<subseteq> {cur}"
    using sched_inv_running [OF inv] cur(2) by auto
  ultimately show ?thesis
    using inv inj cur unfolding sched_inv_def by blast
qed

text \<open>Property C2. The scheduler in every reachable state: with no ready process it never returns;
  otherwise it makes the first ready process of the list the current, running one, returns a running
  predecessor to the ready state, saves the processor in the predecessor's context and loads it from
  the successor's, and changes nothing else (\<open>switch_state\<close>).\<close>

theorem schedule_correct:
  assumes "kreach process_stacks m (h, pt)"
  shows "\<exists>ps cur. chain (\<lambda>p. next_p (procs pt p)) (process_list pt) ps \<and> current_process pt = Some cur \<and>
    (case List.find (\<lambda>p. pstate (procs pt p) = PROC_READY) ps of
       None \<Rightarrow> schedule pt = Inl Hang
     | Some nx \<Rightarrow> nx \<noteq> cur \<and> schedule pt = Inr (switch_state cur nx pt))"
proof -
  obtain ps cur where inv: "sched_inv h ps pt" and cur: "cur \<in> set ps" "current_process pt = Some cur"
    using assms by (rule kreachD)
  have "case List.find (\<lambda>p. pstate (procs pt p) = PROC_READY) ps of
       None \<Rightarrow> schedule pt = Inl Hang
     | Some nx \<Rightarrow> nx \<noteq> cur \<and> schedule pt = Inr (switch_state cur nx pt)"
    using schedule_hang [OF inv] schedule_switches [OF inv cur(2)]
    by (auto split: option.split simp: find_None_iff)
  with inv cur(2) show ?thesis
    unfolding sched_inv_def by blast
qed


text \<open>Property C25. \<open>exit_process\<close> wakes a blocked parent: the scheduler then always finds a process
  to run, the exiting process is a zombie with its exit status, and the parent is ready or already
  running.\<close>

theorem exit_wakes_parent:
  assumes "kreach process_stacks m (h, pt)" and "current_process pt = Some cur"
    and "find_process (parent_pid (procs pt cur)) pt = Inr (Some q)"
    and "pstate (procs pt q) = PROC_BLOCKED"
  shows "\<exists>pt'. exit_process status pt = Inr pt' \<and>
    pstate (procs pt' cur) = PROC_ZOMBIE \<and> exit_status (procs pt' cur) = status \<and>
    pstate (procs pt' q) \<in> {PROC_READY, PROC_RUNNING} \<and>
    (\<exists>nx. current_process pt' = Some nx \<and> nx \<noteq> cur \<and> pstate (procs pt' nx) = PROC_RUNNING)"
proof -
  obtain ps where inv: "sched_inv h ps pt" and cur: "cur \<in> set ps"
    using assms(1,2) by (auto elim: kreachD)
  have q: "parent_of ps cur pt = Some q"
    using assms(3) by (simp add: find_process_def sched_inv_find [OF inv] parent_of_def)
  note qn = parent_of_neq [OF inv cur q]
  let ?pt1 = "exit_state status cur (Some q) pt"
  have inv1: "sched_inv h ps ?pt1"
    using exit_state_inv [OF inv cur assms(2), of status] q by simp
  have st: "pstate (procs ?pt1 q) = PROC_READY" "pstate (procs ?pt1 cur) = PROC_ZOMBIE"
    "exit_status (procs ?pt1 cur) = status" "current_process ?pt1 = Some cur"
    using qn assms(2,4) by (simp_all add: exit_state_def Let_def)
  obtain nx where nx: "List.find (\<lambda>p. pstate (procs ?pt1 p) = PROC_READY) ps = Some nx"
    using st(1) qn(1) by (cases "List.find (\<lambda>p. pstate (procs ?pt1 p) = PROC_READY) ps")
      (auto simp: find_None_iff)
  have s: "nx \<noteq> cur" "exit_process status pt = Inr (switch_state cur nx ?pt1)"
    using schedule_switches [OF inv1 st(4) nx] exit_process_eq [OF inv assms(2)] q by simp_all
  show ?thesis
    using s st qn by (auto simp: switched_def)
qed

text \<open>Property C26. \<open>handle_wait_message\<close> with a finished child reports the status and identifier of
  the first zombie child of the list and collects it: the child is dead afterwards, so no later wait
  reports it again, and nothing else changes.\<close>

theorem wait_collects_child:
  assumes "kreach process_stacks m (h, pt)" and "current_process pt = Some cur"
    and "list_find pt (zombie_child_of (pid (procs pt cur))) = Inr (Some q)"
  shows "\<exists>msg' pt'. handle_wait_message msg pt = Inr (0, msg', pt') \<and>
    mstatus msg' = exit_status (procs pt q) \<and> mpid msg' = pid (procs pt q) \<and>
    parent_pid (procs pt q) = pid (procs pt cur) \<and> pstate (procs pt q) = PROC_ZOMBIE \<and>
    pt' = upd_proc q (\<lambda>p. p\<lparr>pstate := PROC_DEAD\<rparr>) pt \<and>
    (\<forall>k. list_find pt' (zombie_child_of k) \<noteq> Inr (Some q))"
proof -
  obtain ps where inv: "sched_inv h ps pt"
    using assms(1) by (rule kreachD)
  let ?pt' = "upd_proc q (\<lambda>p. p\<lparr>pstate := PROC_DEAD\<rparr>) pt"
  have z: "zombie_child_of (pid (procs pt cur)) (procs pt q)"
    using assms(3) by (auto simp: sched_inv_find [OF inv] find_Some_iff)
  have inv': "sched_inv h ps ?pt'"
    by (rule sched_inv_upd [OF inv]) (simp_all add: keeps_links_def)
  have "list_find ?pt' (zombie_child_of k) \<noteq> Inr (Some q)" for k
    unfolding sched_inv_find [OF inv'] by (auto simp: find_Some_iff zombie_child_of_def)
  then show ?thesis
    using z assms(2,3) by (simp add: handle_wait_message_def zombie_child_of_def)
qed

text \<open>The context layouts of C and assembler disagree: whatever entry point
  \<open>process_create\<close> is given, the first switch to the new process jumps to address 0 with a zero
  stack pointer.\<close>

theorem spawned_process_starts_at_zero:
  assumes "kreach process_stacks m (h, pt)"
    and "process_create entry h pt = (Some q, h', pt1)"
    and "schedule pt1 = Inr pt2" and "current_process pt2 = Some q"
  shows "ctx_pc (ctx (procs pt1 q)) = entry \<and> cpu_pc (pcpu pt2) = 0 \<and> cpu_sp (pcpu pt2) = 0"
proof -
  obtain ps where inv: "sched_inv h ps pt"
    using assms(1) by (rule kreachD)
  then have "sched_inv h' (q # ps) pt1 \<and> ctx_pc (ctx (procs pt1 q)) = entry \<and>
      ctx_x (ctx (procs pt1 q)) = replicate 31 0"
    using process_create_inv [OF inv assms(2)] by blast
  moreover from this obtain cur where "pt2 = switch_state cur q pt1"
    using assms(3,4) by (auto elim!: schedule_Inr)
  ultimately show ?thesis
    by (simp add: switch_state_def restore_fields)
qed

text \<open>The slots of the static process array run out unnoticed: with four processes
  created, \<open>create_process\<close> and \<open>handle_fork_message\<close> write past the array instead of reporting an
  error.\<close>

theorem fork_without_slot_faults:
  assumes "MAX_PROCESSES \<le> process_count pt"
  shows "create_process process_stacks pt = Inl Out_Of_Bounds \<and>
    handle_fork_message process_stacks msg pt = Inl Out_Of_Bounds"
  using assms by (simp add: handle_fork_message_def create_process_full)

text \<open>\<open>process_init\<close> clears the current process and then writes through it, and
  \<open>process_exit\<close> schedules without one: neither ever completes.\<close>

theorem process_init_and_exit_fault:
  assumes "kreach process_stacks m (h, pt)"
  shows "process_init pt' = Inl Null_Deref \<and>
    process_exit status pt \<in> {Inl Null_Deref, Inl Hang}"
proof -
  obtain ps where "sched_inv h ps pt"
    using assms(1) by (rule kreachD)
  then show ?thesis
    using process_exit_faults by (auto simp: process_init_def)
qed

section \<open>The properties at a concrete run\<close>

text \<open>
  The run: boot; process 1 forks process 2; process 1 waits, so process 2 runs; process 2 exits, so
  process 1 runs again and collects it.
\<close>

definition ex_cpu :: cpu where
  "ex_cpu = \<lparr>xregs = replicate 31 0, cpu_sp = 0, cpu_daif = 0, cpu_pc = 0\<rparr>"

definition ex_boot :: ptable where
  "ex_boot = init_process 0 (boot_ptable ex_cpu)"

definition ex_forked :: ptable where
  "ex_forked = create_state 0 (Slot 0) ex_boot"

definition ex_blocked :: ptable where
  "ex_blocked = upd_proc (Slot 0) (\<lambda>p. p\<lparr>pstate := PROC_BLOCKED\<rparr>) ex_forked"

definition ex_waiting :: ptable where
  "ex_waiting = switch_state (Slot 0) (Slot (Suc 0)) ex_blocked"

definition ex_exited :: ptable where
  "ex_exited = switch_state (Slot (Suc 0)) (Slot 0) (exit_state 42 (Slot (Suc 0)) (Some (Slot 0)) ex_waiting)"

lemmas ex_defs = ex_boot_def ex_forked_def ex_blocked_def ex_waiting_def ex_exited_def

lemma ex_boot_fields [simp]:
  "current_process ex_boot = Some (Slot 0)" "process_count ex_boot = 1"
  "pid (procs ex_boot (Slot 0)) = 1" "pstate (procs ex_boot (Slot 0)) = PROC_RUNNING"
  "parent_pid (procs ex_boot (Slot 0)) = 0" "next_pid ex_boot = 2"
  by (simp_all add: ex_boot_def init_process_def Let_def)

lemma ex_forked_fields [simp]:
  "current_process ex_forked = Some (Slot 0)"
  "pid (procs ex_forked (Slot 0)) = 1" "pid (procs ex_forked (Slot (Suc 0))) = 2"
  "parent_pid (procs ex_forked (Slot 0)) = 0" "parent_pid (procs ex_forked (Slot (Suc 0))) = 1"
  "pstate (procs ex_forked (Slot 0)) = PROC_RUNNING" "pstate (procs ex_forked (Slot (Suc 0))) = PROC_READY"
  by (simp_all add: ex_forked_def create_state_def Let_def)

lemma ex_boot_reach: "kreach 0 ex_cpu (0, ex_boot)"
  unfolding ex_boot_def by (rule kreach.boot) (simp add: heap_ok_def)

lemma ex_boot_inv: "sched_inv 0 [Slot 0] ex_boot"
  unfolding ex_boot_def by (rule boot_inv) (simp add: heap_ok_def)

lemma ex_forked_eq: "create_process 0 ex_boot = Inr (Slot (Suc 0), ex_forked)"
  unfolding ex_forked_def using create_process_some [of ex_boot "Slot 0" 0] by simp

lemma ex_forked_inv: "sched_inv 0 [Slot (Suc 0), Slot 0] ex_forked"
  using create_process_inv [OF ex_boot_inv ex_forked_eq] by simp

lemma ex_forked_reach: "kreach 0 ex_cpu (0, ex_forked)"
  by (rule kreach.step [OF ex_boot_reach kstep.create [OF ex_forked_eq]])

lemma ex_switched_eq: "schedule ex_forked = Inr (switch_state (Slot 0) (Slot (Suc 0)) ex_forked)"
  using schedule_switches [OF ex_forked_inv] by simp

lemma ex_switched_reach: "kreach 0 ex_cpu (0, switch_state (Slot 0) (Slot (Suc 0)) ex_forked)"
  by (rule kreach.step [OF ex_forked_reach kstep.tick [OF ex_switched_eq]])

lemma ex_blocked_inv: "sched_inv 0 [Slot (Suc 0), Slot 0] ex_blocked"
  unfolding ex_blocked_def by (rule block_inv [OF ex_forked_inv]) simp

lemma ex_waiting_eq:
  "handle_wait_message zero_message ex_forked = Inr (0, zero_message, ex_waiting)"
proof -
  have "list_find ex_forked (zombie_child_of 1) = Inr None"
    by (simp add: sched_inv_find [OF ex_forked_inv] zombie_child_of_def)
  moreover have "schedule ex_blocked = Inr ex_waiting"
    using schedule_switches [OF ex_blocked_inv] by (simp add: ex_blocked_def ex_waiting_def)
  ultimately show ?thesis
    by (simp add: handle_wait_message_def ex_blocked_def zero_message_def)
qed

lemma ex_waiting_reach: "kreach 0 ex_cpu (0, ex_waiting)"
  by (rule kreach.step [OF ex_forked_reach kstep.wait [OF ex_waiting_eq]])

lemma ex_waiting_fields [simp]:
  "current_process ex_waiting = Some (Slot (Suc 0))"
  "pid (procs ex_waiting (Slot 0)) = 1" "pid (procs ex_waiting (Slot (Suc 0))) = 2"
  "parent_pid (procs ex_waiting (Slot (Suc 0))) = 1" "parent_pid (procs ex_waiting (Slot 0)) = 0"
  "pstate (procs ex_waiting (Slot 0)) = PROC_BLOCKED"
  "pstate (procs ex_waiting (Slot (Suc 0))) = PROC_RUNNING"
  by (simp_all add: ex_waiting_def ex_blocked_def switched_def)

lemma ex_waiting_inv: "sched_inv 0 [Slot (Suc 0), Slot 0] ex_waiting"
  unfolding ex_waiting_def
  by (rule switch_state_inv [OF ex_blocked_inv]) (simp_all add: ex_blocked_def)

lemma ex_exited_eq: "exit_process 42 ex_waiting = Inr ex_exited"
proof -
  have p: "parent_of [Slot (Suc 0), Slot 0] (Slot (Suc 0)) ex_waiting = Some (Slot 0)"
    by (simp add: parent_of_def)
  have "sched_inv 0 [Slot (Suc 0), Slot 0] (exit_state 42 (Slot (Suc 0)) (Some (Slot 0)) ex_waiting)"
    using exit_state_inv [OF ex_waiting_inv, of "Slot (Suc 0)" 42] p by simp
  from schedule_switches [OF this, of "Slot (Suc 0)" "Slot 0"] show ?thesis
    using exit_process_eq [OF ex_waiting_inv, of "Slot (Suc 0)" 42] p
    by (simp add: ex_exited_def exit_state_def Let_def)
qed

lemma ex_exited_reach: "kreach 0 ex_cpu (0, ex_exited)"
  by (rule kreach.step [OF ex_waiting_reach kstep.exit [OF ex_exited_eq]])

lemma ex_exited_inv: "sched_inv 0 [Slot (Suc 0), Slot 0] ex_exited"
  by (rule exit_inv [OF ex_waiting_inv ex_exited_eq])

lemma ex_exited_fields [simp]:
  "current_process ex_exited = Some (Slot 0)" "pid (procs ex_exited (Slot 0)) = 1"
  "pid (procs ex_exited (Slot (Suc 0))) = 2" "parent_pid (procs ex_exited (Slot (Suc 0))) = 1"
  "pstate (procs ex_exited (Slot (Suc 0))) = PROC_ZOMBIE" "exit_status (procs ex_exited (Slot (Suc 0))) = 42"
  by (simp_all add: ex_exited_def exit_state_def switched_def Let_def)

theorem reachable_process_table_witness:
  "\<exists>ps. chain (\<lambda>p. next_p (procs ex_exited p)) (process_list ex_exited) ps \<and> distinct ps \<and>
    {p \<in> set ps. pstate (procs ex_exited p) = PROC_RUNNING} \<subseteq> {Slot 0}"
  using reachable_process_table [OF ex_exited_reach] by auto

theorem schedule_correct_witness:
  "schedule ex_forked = Inr (switch_state (Slot 0) (Slot (Suc 0)) ex_forked)"
proof -
  have c: "chain (\<lambda>p. next_p (procs ex_forked p)) (process_list ex_forked) [Slot (Suc 0), Slot 0]"
    using ex_forked_inv by (simp add: sched_inv_def)
  obtain ps cur where "chain (\<lambda>p. next_p (procs ex_forked p)) (process_list ex_forked) ps"
    and cur: "current_process ex_forked = Some cur"
    and s: "case List.find (\<lambda>p. pstate (procs ex_forked p) = PROC_READY) ps of
       None \<Rightarrow> schedule ex_forked = Inl Hang
     | Some nx \<Rightarrow> nx \<noteq> cur \<and> schedule ex_forked = Inr (switch_state cur nx ex_forked)"
    using schedule_correct [OF ex_forked_reach] by blast
  then have "ps = [Slot (Suc 0), Slot 0]"
    using c chain_unique by metis
  with s cur show ?thesis by simp
qed


theorem exit_wakes_parent_witness:
  "\<exists>pt'. exit_process 42 ex_waiting = Inr pt' \<and> exit_status (procs pt' (Slot (Suc 0))) = 42 \<and>
    pstate (procs pt' (Slot 0)) \<in> {PROC_READY, PROC_RUNNING}"
proof -
  have "find_process 1 ex_waiting = Inr (Some (Slot 0))"
    by (simp add: find_process_def sched_inv_find [OF ex_waiting_inv])
  then show ?thesis
    using exit_wakes_parent [OF ex_waiting_reach, of "Slot (Suc 0)" "Slot 0" 42] by auto
qed

theorem wait_collects_child_witness:
  "\<exists>msg' pt'. handle_wait_message zero_message ex_exited = Inr (0, msg', pt') \<and>
    mstatus msg' = 42 \<and> mpid msg' = 2 \<and> pstate (procs pt' (Slot (Suc 0))) = PROC_DEAD"
proof -
  have "list_find ex_exited (zombie_child_of 1) = Inr (Some (Slot (Suc 0)))"
    by (simp add: sched_inv_find [OF ex_exited_inv] zombie_child_of_def)
  then show ?thesis
    using wait_collects_child [OF ex_exited_reach, of "Slot 0" "Slot (Suc 0)" zero_message] by auto
qed

theorem spawned_process_starts_at_zero_witness:
  "\<exists>pt1 pt2. process_create 0x80000000 0 ex_boot = (Some (Heap 0), 3160, pt1) \<and>
    schedule pt1 = Inr pt2 \<and> ctx_pc (ctx (procs pt1 (Heap 0))) = 0x80000000 \<and> cpu_pc (pcpu pt2) = 0"
proof -
  obtain pt1 where pt1: "process_create 0x80000000 0 ex_boot = (Some (Heap 0), 3160, pt1)"
    by (simp add: process_create_def kalloc_def Let_def)
  then have inv: "sched_inv 3160 [Heap 0, Slot 0] pt1" and r: "pstate (procs pt1 (Heap 0)) = PROC_READY"
    using process_create_inv [OF ex_boot_inv pt1] by auto
  obtain cur where "current_process pt1 = Some cur"
    using inv by (rule sched_inv_current)
  then have s: "schedule pt1 = Inr (switch_state cur (Heap 0) pt1)"
    using schedule_switches [OF inv] r by simp
  show ?thesis
    using spawned_process_starts_at_zero [OF ex_boot_reach pt1 s] pt1 s by auto
qed

theorem fork_without_slot_faults_witness:
  "handle_fork_message 0 zero_message (ex_boot\<lparr>process_count := 4\<rparr>) = Inl Out_Of_Bounds"
  using fork_without_slot_faults [of "ex_boot\<lparr>process_count := 4\<rparr>" 0 zero_message] by simp

theorem process_init_and_exit_fault_witness:
  "process_exit 0 ex_forked \<in> {Inl Null_Deref, Inl Hang}"
  using process_init_and_exit_fault [OF ex_forked_reach, of ex_forked 0] by simp

end
