(* ===== verification/Abyss_Dir.thy ===== *)
theory Abyss_Dir
  imports Abyssfs
begin

text \<open>
  What a directory block of AbyssFS holds, and that the loops and updates of \<open>abyssfs.c\<close> on the bytes
  are \<open>find\<close>, \<open>map\<close>, append and remove on the list of its entries. All records but the last have
  exactly the length their name needs (\<open>dir_pre\<close>); the last may be longer, as the \<open>..\<close> of a new
  directory is, and a record of length 0 follows it within the block (\<open>dir_ok\<close>).
\<close>

section \<open>Sizes of records\<close>

text \<open>Names that fit a record: the size of a longer one wraps in 8 bits.\<close>

definition name_ok :: "string \<Rightarrow> bool" where
  "name_ok n \<longleftrightarrow> cstr n \<and> length n \<le> 245"

definition esz :: "string \<Rightarrow> nat" where
  "esz n = unat (entry_size (of_nat (length n)))"

lemma unat_and_not_mask_2: "unat (w AND NOT (mask 2) :: u8) = 4 * (unat w div 4)"
proof -
  have "w AND NOT (mask 2) = push_bit 2 (drop_bit 2 w)"
  proof (rule bit_word_eqI)
    fix k assume "k < LENGTH(8)"
    then show "bit (w AND NOT (mask 2)) k \<longleftrightarrow> bit (push_bit 2 (drop_bit 2 w)) k"
    proof (cases "2 \<le> k")
      case True
      then obtain j where "k = 2 + j"
        using le_Suc_ex by blast
      then show ?thesis
        using \<open>k < LENGTH(8)\<close> by (auto simp: bit_simps)
    qed (auto simp: bit_simps)
  qed
  moreover have "unat (drop_bit 2 w) = unat w div 4"
    by (simp add: drop_bit_eq_div unat_div)
  moreover have "unat (push_bit 2 v) = 4 * unat v" if "unat v < 64" for v :: u8
    using that by (simp add: push_bit_eq_mult unat_word_ariths)
  moreover have "unat w div 4 < 64"
    using unat_less_8 [of w] by simp
  ultimately show ?thesis
    by metis
qed

lemma esz_eq:
  assumes "length n \<le> 245"
  shows "esz n = 4 * ((length n + 10) div 4)"
proof -
  have u: "unat (of_nat (length n + 10) :: u8) = length n + 10"
    using assms by (simp add: unat_of_nat del: of_nat_add)
  have "(4 :: u8) - 1 = mask 2"
    by (simp add: mask_eq_exp_minus_1)
  moreover have "of_nat ENTRY_FIXED + of_nat (length n) + 1 + 4 - 1 = (of_nat (length n + 10) :: u8)"
    by simp
  ultimately have "entry_size (of_nat (length n)) = of_nat (length n + 10) AND NOT (mask 2)"
    by (simp only: entry_size_def round_up_def)
  then show ?thesis
    by (simp only: esz_def unat_and_not_mask_2 u)
qed

lemma esz_bounds: "name_ok n \<Longrightarrow> length n + 7 \<le> esz n \<and> esz n \<le> 252"
proof -
  assume "name_ok n"
  then have "length n \<le> 245"
    by (simp add: name_ok_def)
  moreover have "(length n + 10) mod 4 < 4" "4 * ((length n + 10) div 4) + (length n + 10) mod 4 = length n + 10"
    by simp_all
  moreover have "(length n + 10) div 4 \<le> 255 div 4"
    using calculation(1) by (intro div_le_mono) simp
  ultimately show ?thesis
    by (simp add: esz_eq)
qed

section \<open>Entries and directories\<close>

definition name_at :: "mem \<Rightarrow> nat \<Rightarrow> string \<Rightarrow> bool" where
  "name_at m a n \<longleftrightarrow> (\<forall>k < length n. m (a + k) = n ! k) \<and> m (a + length n) = NUL"

definition entry_at :: "mem \<Rightarrow> nat \<Rightarrow> u32 \<times> string \<Rightarrow> bool" where
  "entry_at m e x \<longleftrightarrow> e_inode m e = fst x \<and> e_name_len m e = of_nat (length (snd x)) \<and>
     name_at m (e + 6) (snd x) \<and> name_ok (snd x)"

definition rec_at :: "mem \<Rightarrow> nat \<Rightarrow> nat" where
  "rec_at m e = unat (e_rec_len m e)"

fun dir_pre :: "mem \<Rightarrow> nat \<Rightarrow> (u32 \<times> string) list \<Rightarrow> bool" where
  "dir_pre m e [] \<longleftrightarrow> True"
| "dir_pre m e (x # xs) \<longleftrightarrow> entry_at m e x \<and> rec_at m e = esz (snd x) \<and> dir_pre m (e + esz (snd x)) xs"

definition dsize :: "(u32 \<times> string) list \<Rightarrow> nat" where
  "dsize xs = sum_list (map (\<lambda>x. esz (snd x)) xs)"

definition dir_ok :: "mem \<Rightarrow> nat \<Rightarrow> (u32 \<times> string) list \<Rightarrow> u32 \<times> string \<Rightarrow> bool" where
  "dir_ok m b xs y \<longleftrightarrow> dir_pre m b xs \<and>
     (let p = b + dsize xs in
        entry_at m p y \<and> esz (snd y) \<le> rec_at m p \<and> rec_at m (p + rec_at m p) = 0 \<and>
        p + rec_at m p + 6 \<le> b + BLOCK_SIZE)"

lemma dsize_simps [simp]: "dsize [] = 0" "dsize (x # xs) = esz (snd x) + dsize xs"
  "dsize (xs @ ys) = dsize xs + dsize ys"
  by (simp_all add: dsize_def)

lemma dir_pre_append [simp]: "dir_pre m e (xs @ ys) \<longleftrightarrow> dir_pre m e xs \<and> dir_pre m (e + dsize xs) ys"
  by (induction xs arbitrary: e) (auto simp: add.assoc)

lemma entry_at_esz: "entry_at m e x \<Longrightarrow> 7 \<le> esz (snd x)"
  using esz_bounds [of "snd x"] by (simp add: entry_at_def)

lemma entry_at_shift:
  assumes "\<And>a. e \<le> a \<Longrightarrow> a < e + esz (snd x) \<Longrightarrow> m' a = m (a + s)"
  shows "name_ok (snd x) \<Longrightarrow> entry_at m' e x = entry_at m (e + s) x"
    and "name_ok (snd x) \<Longrightarrow> rec_at m' e = rec_at m (e + s)"
proof -
  assume n: "name_ok (snd x)"
  have sz: "length (snd x) + 7 \<le> esz (snd x)"
    using esz_bounds [OF n] by simp
  have byte: "m' (e + k) = m (e + s + k)" if "k < length (snd x) + 7" for k
    using assms [of "e + k"] that sz by (simp add: ac_simps)
  have "get32 m' e = get32 m (e + s)"
    using byte [of 0] byte [of 1] byte [of 2] byte [of 3] by (simp add: get32_def)
  moreover have "get8 m' (e + 4) = get8 m (e + s + 4)" and r: "get8 m' (e + 5) = get8 m (e + s + 5)"
    using byte [of 4] byte [of 5] by (simp_all add: get8_def)
  moreover have "name_at m' (e + 6) (snd x) = name_at m (e + s + 6) (snd x)"
    using byte [of "6 + k" for k] byte [of "6 + length (snd x)"]
    by (simp add: name_at_def add.assoc)
  ultimately show "entry_at m' e x = entry_at m (e + s) x"
    by (simp add: entry_at_def e_inode_def e_name_len_def)
  show "rec_at m' e = rec_at m (e + s)"
    using r by (simp add: rec_at_def e_rec_len_def)
qed

lemma dir_pre_shift:
  assumes "dir_pre m (e + s) xs" and "\<And>a. e \<le> a \<Longrightarrow> a < e + dsize xs \<Longrightarrow> m' a = m (a + s)"
  shows "dir_pre m' e xs"
  using assms
proof (induction xs arbitrary: e)
  case (Cons x xs)
  have n: "name_ok (snd x)"
    using Cons.prems(1) by (simp add: entry_at_def)
  have sh: "entry_at m' e x = entry_at m (e + s) x" "rec_at m' e = rec_at m (e + s)"
    using Cons.prems(2) n by (intro entry_at_shift; simp)+
  moreover have "dir_pre m' (e + esz (snd x)) xs"
    using Cons.prems by (intro Cons.IH) (simp_all add: ac_simps)
  ultimately show ?case
    using Cons.prems(1) by simp
qed simp

lemma dir_pre_cong:
  "dir_pre m e xs \<Longrightarrow> (\<And>a. e \<le> a \<Longrightarrow> a < e + dsize xs \<Longrightarrow> m' a = m a) \<Longrightarrow> dir_pre m' e xs"
  using dir_pre_shift [of m e 0 xs m'] by simp

lemma dir_okD:
  assumes "dir_ok m b xs y"
  shows "dir_pre m b xs" "entry_at m (b + dsize xs) y" "esz (snd y) \<le> rec_at m (b + dsize xs)"
    "rec_at m (b + dsize xs + rec_at m (b + dsize xs)) = 0"
    "b + dsize xs + rec_at m (b + dsize xs) + 6 \<le> b + BLOCK_SIZE" "7 \<le> esz (snd y)"
  using assms entry_at_esz [of m "b + dsize xs" y] by (simp_all add: dir_ok_def Let_def)

lemma entry_at_cong:
  "entry_at m e x \<Longrightarrow> (\<And>a. e \<le> a \<Longrightarrow> a < e + esz (snd x) \<Longrightarrow> m' a = m a) \<Longrightarrow> entry_at m' e x"
  using entry_at_shift(1) [of e x m' m 0] by (simp add: entry_at_def)

lemma rec_at_cong: "m' (e + 5) = m (e + 5) \<Longrightarrow> rec_at m' e = rec_at m e"
  by (simp add: rec_at_def e_rec_len_def get8_def)

lemma dir_ok_cong:
  assumes "dir_ok m b xs y" and "\<And>a. b \<le> a \<Longrightarrow> a < b + BLOCK_SIZE \<Longrightarrow> m' a = m a"
  shows "dir_ok m' b xs y"
proof -
  let ?p = "b + dsize xs"
  note d = dir_okD [OF assms(1)]
  have r: "rec_at m' ?p = rec_at m ?p" "rec_at m' (?p + rec_at m ?p) = rec_at m (?p + rec_at m ?p)"
    using d by (intro rec_at_cong assms(2); linarith)+
  moreover have "dir_pre m' b xs"
    by (rule dir_pre_cong [OF d(1)]) (use d in \<open>intro assms(2); linarith\<close>)
  moreover have "entry_at m' ?p y"
    by (rule entry_at_cong [OF d(2)]) (use d in \<open>intro assms(2); linarith\<close>)
  ultimately show ?thesis
    using d by (simp add: dir_ok_def Let_def)
qed

section \<open>The loops\<close>

lemma name_eq_at:
  assumes "name_at m a n" and "a + length n < DISK_SIZE" and "cstr n" and "cstr s"
  shows "name_eq m a s = Inr (n = s)"
  using assms
proof (induction s arbitrary: a n)
  case Nil
  then show ?case by (cases n) (auto simp: name_at_def)
next
  case (Cons c s)
  show ?case
  proof (cases n)
    case Nil
    then show ?thesis using Cons.prems by (auto simp: name_at_def)
  next
    case (Cons d n')
    have "name_at m (Suc a) n'" and "m a = d"
      using Cons.prems(1) Cons by (auto simp: name_at_def)
    then show ?thesis
      using Cons.IH [of "Suc a" n'] Cons.prems Cons by auto
  qed
qed

lemma copy_name_at:
  assumes "name_at m a n" and "a + length n < DISK_SIZE" and "cstr n" and "length n < k"
  shows "copy_name m a k = Inr n"
  using assms
proof (induction n arbitrary: a k)
  case Nil
  then show ?case by (cases k) (auto simp: name_at_def)
next
  case (Cons c n)
  have "name_at m (Suc a) n" and "m a = c"
    using Cons.prems(1) by (auto simp: name_at_def)
  then show ?case
    using Cons.IH [of "Suc a" "k - 1"] Cons.prems by (cases k) auto
qed

lemma rec_pos_iff: "0 < e_rec_len m e \<longleftrightarrow> 0 < rec_at m e"
  by (simp add: rec_at_def word_less_nat_alt)

lemma entry_at_name: "entry_at m e x \<Longrightarrow> name_at m (e + 6) (snd x) \<and> cstr (snd x) \<and> length (snd x) \<le> 245"
  by (simp add: entry_at_def name_ok_def)

lemma dir_find_pre:
  assumes "dir_pre m e xs" and "e + dsize xs + 6 \<le> DISK_SIZE" and "cstr name"
  shows "dir_find m e name =
    (case first_index (\<lambda>x. snd x = name) xs of
       Some k \<Rightarrow> Inr (Some (e + dsize (take k xs)))
     | None \<Rightarrow> dir_find m (e + dsize xs) name)"
  using assms
proof (induction xs arbitrary: e)
  case (Cons x xs)
  have x: "entry_at m e x" "rec_at m e = esz (snd x)" and sz: "7 \<le> esz (snd x)"
    using Cons.prems(1) entry_at_esz [of m e x] by simp_all
  have len: "length (snd x) + 7 \<le> esz (snd x)"
    using x(1) esz_bounds [of "snd x"] by (simp add: entry_at_def)
  have "name_eq m (e + 6) name = Inr (snd x = name)"
    using entry_at_name [OF x(1)] len Cons.prems(2,3) by (intro name_eq_at) auto
  then have "dir_find m e name = (if snd x = name then Inr (Some e) else dir_find m (e + esz (snd x)) name)"
    using x sz Cons.prems(2) by (subst dir_find.simps) (simp add: rec_pos_iff flip: rec_at_def)
  moreover have "dir_find m (e + esz (snd x)) name =
    (case first_index (\<lambda>x. snd x = name) xs of
       Some k \<Rightarrow> Inr (Some (e + esz (snd x) + dsize (take k xs)))
     | None \<Rightarrow> dir_find m (e + esz (snd x) + dsize xs) name)"
    using Cons.prems by (intro Cons.IH) (simp_all add: ac_simps)
  ultimately show ?case
    by (auto simp: ac_simps split: option.splits)
qed simp

lemma dir_find_ok:
  assumes "dir_ok m b xs y" and "b + BLOCK_SIZE \<le> DISK_SIZE" and "cstr name"
  shows "dir_find m b name =
    Inr (map_option (\<lambda>k. b + dsize (take k (xs @ [y]))) (first_index (\<lambda>x. snd x = name) (xs @ [y])))"
proof -
  let ?p = "b + dsize xs"
  have y: "entry_at m ?p y" "esz (snd y) \<le> rec_at m ?p" "rec_at m (?p + rec_at m ?p) = 0"
    "?p + rec_at m ?p + 6 \<le> b + BLOCK_SIZE" and pre: "dir_pre m b xs" and sz: "7 \<le> esz (snd y)"
    using dir_okD [OF assms(1)] by simp_all
  have "length (snd y) + 7 \<le> esz (snd y)"
    using y(1) esz_bounds [of "snd y"] by (simp add: entry_at_def)
  then have "name_eq m (?p + 6) name = Inr (snd y = name)"
    using entry_at_name [OF y(1)] y assms(2,3) by (intro name_eq_at) auto
  moreover have "dir_find m (?p + rec_at m ?p) name = Inr None"
    using y assms(2) by (subst dir_find.simps) (simp add: rec_pos_iff)
  ultimately have "dir_find m ?p name = Inr (if snd y = name then Some ?p else None)"
    using y sz assms(2) by (subst dir_find.simps) (simp add: rec_pos_iff flip: rec_at_def)
  moreover have "first_index (\<lambda>x. snd x = name) (xs @ [y]) =
      (case first_index (\<lambda>x. snd x = name) xs of Some k \<Rightarrow> Some k
       | None \<Rightarrow> if snd y = name then Some (length xs) else None)"
    by (induction xs) (auto split: option.splits)
  ultimately show ?thesis
    using dir_find_pre [OF pre _ assms(3)] y assms(2)
    by (auto split: option.splits dest: first_index_SomeD)
qed

definition abyss_dirent :: "u32 \<times> string \<Rightarrow> dirent" where
  "abyss_dirent x = \<lparr>d_inode = ucast (fst x), d_name = snd x\<rparr>"

lemma dir_copy_step:
  assumes "entry_at m e x" and "esz (snd x) \<le> rec_at m e" and "e + esz (snd x) \<le> DISK_SIZE"
  shows "dir_copy m e (Suc n) = map_res (\<lambda>es. abyss_dirent x # es) (dir_copy m (e + rec_at m e) n)"
proof -
  have len: "length (snd x) + 7 \<le> esz (snd x)" and ino: "e_inode m e = fst x"
    using assms(1) esz_bounds [of "snd x"] by (simp_all add: entry_at_def)
  have "copy_name m (e + 6) 256 = Inr (snd x)"
    using entry_at_name [OF assms(1)] len assms(3) by (intro copy_name_at) auto
  then show ?thesis
    using assms len ino by (simp add: rec_pos_iff abyss_dirent_def flip: rec_at_def)
qed

lemma dir_copy_pre:
  assumes "dir_pre m e xs" and "e + dsize xs + 6 \<le> DISK_SIZE"
  shows "dir_copy m e n =
    (if n \<le> length xs then Inr (map abyss_dirent (take n xs))
     else map_res (\<lambda>es. map abyss_dirent xs @ es) (dir_copy m (e + dsize xs) (n - length xs)))"
  using assms
proof (induction xs arbitrary: e n)
  case Nil
  then show ?case
    by (cases "dir_copy m e n"; cases n) auto
next
  case (Cons x xs)
  show ?case
  proof (cases n)
    case 0
    then show ?thesis using Cons.prems by simp
  next
    case (Suc k)
    have "dir_copy m e (Suc k) = map_res (\<lambda>es. abyss_dirent x # es) (dir_copy m (e + esz (snd x)) k)"
      using Cons.prems dir_copy_step [of m e x k] by simp
    moreover have "dir_copy m (e + esz (snd x)) k =
      (if k \<le> length xs then Inr (map abyss_dirent (take k xs))
       else map_res (\<lambda>es. map abyss_dirent xs @ es) (dir_copy m (e + esz (snd x) + dsize xs) (k - length xs)))"
      using Cons.prems by (intro Cons.IH) (simp_all add: ac_simps)
    ultimately show ?thesis
      using Suc by (cases "dir_copy m (e + esz (snd x) + dsize xs) (k - length xs)") (simp_all add: ac_simps)
  qed
qed

lemma dir_copy_ok:
  assumes "dir_ok m b xs y" and "b + BLOCK_SIZE \<le> DISK_SIZE"
  shows "dir_copy m b n = Inr (map abyss_dirent (take n (xs @ [y])))"
proof -
  let ?p = "b + dsize xs"
  have y: "entry_at m ?p y" "esz (snd y) \<le> rec_at m ?p" "rec_at m (?p + rec_at m ?p) = 0"
    "?p + rec_at m ?p + 6 \<le> b + BLOCK_SIZE" and pre: "dir_pre m b xs"
    using dir_okD [OF assms(1)] by simp_all
  have fin: "dir_copy m (?p + rec_at m ?p) k = Inr []" for k
    using y assms(2) by (cases k) (simp_all add: rec_pos_iff)
  have "dir_copy m ?p (Suc k) = Inr [abyss_dirent y]" for k
    using dir_copy_step [OF y(1,2), of k] y assms(2) fin by simp
  then show ?thesis
    using dir_copy_pre [OF pre, of n] y assms(2)
    by (cases "n - length xs") (auto simp: not_le)
qed

lemma dir_last_pre:
  assumes "dir_pre m e xs" and "e + dsize xs + 6 \<le> DISK_SIZE" and "e + dsize xs \<le> B"
  shows "dir_last m B e prev = dir_last m B (e + dsize xs)
    (if xs = [] then prev else Some (e + dsize (butlast xs)))"
  using assms
proof (induction xs arbitrary: e prev)
  case (Cons x xs)
  have x: "rec_at m e = esz (snd x)" and sz: "7 \<le> esz (snd x)"
    using Cons.prems(1) entry_at_esz [of m e x] by simp_all
  have "dir_last m B e prev = dir_last m B (e + esz (snd x)) (Some e)"
    using x sz Cons.prems by (subst dir_last.simps) (simp add: rec_pos_iff flip: rec_at_def)
  also have "\<dots> = dir_last m B (e + esz (snd x) + dsize xs)
      (if xs = [] then Some e else Some (e + esz (snd x) + dsize (butlast xs)))"
    using Cons.prems by (intro Cons.IH) (simp_all add: ac_simps)
  finally show ?case
    by (simp add: ac_simps)
qed simp

lemma dir_last_ok:
  assumes "dir_ok m b xs y" and "b + BLOCK_SIZE \<le> DISK_SIZE"
  shows "\<exists>e. dir_last m (b + BLOCK_SIZE) b None = Inr (e, Some (b + dsize xs))"
proof -
  let ?p = "b + dsize xs"
  have y: "esz (snd y) \<le> rec_at m ?p" "rec_at m (?p + rec_at m ?p) = 0"
    "?p + rec_at m ?p + 6 \<le> b + BLOCK_SIZE" and pre: "dir_pre m b xs" and sz: "7 \<le> esz (snd y)"
    using dir_okD [OF assms(1)] by simp_all
  have fin: "dir_last m (b + BLOCK_SIZE) (?p + rec_at m ?p) q = Inr (?p + rec_at m ?p, q)" for q
    using y assms(2) by (subst dir_last.simps) (simp add: rec_pos_iff)
  have "dir_last m (b + BLOCK_SIZE) ?p q = Inr (?p + rec_at m ?p, Some ?p)" for q
    using y sz assms(2) fin by (subst dir_last.simps) (simp add: rec_pos_iff flip: rec_at_def)
  then show ?thesis
    using dir_last_pre [OF pre, of "b + BLOCK_SIZE" None] y assms(2) by simp
qed

section \<open>The updates\<close>

lemma memset_byte: "memset m p 0 n a = (if p \<le> a \<and> a < p + n then NUL else m a)"
  by (simp add: memset_eq)

lemma write_entry_at:
  assumes "name_ok n"
  shows "entry_at (write_entry m e ino (of_nat (length n)) rl n) e (ino, n)"
    and "rec_at (write_entry m e ino (of_nat (length n)) rl n) e = unat rl"
proof -
  let ?m1 = "put8 (put8 (put32 m e ino) (e + 4) (of_nat (length n))) (e + 5) rl"
  let ?m = "write_entry m e ino (of_nat (length n)) rl n"
  have low: "?m (e + k) = ?m1 (e + k)" if "k < 6" for k
    using that by (simp add: write_entry_def Let_def memcpy_eq)
  have "get32 ?m e = get32 ?m1 e"
    using low [of 0] low [of 1] low [of 2] low [of 3] by (simp add: get32_def)
  also have "\<dots> = get32 (put32 m e ino) e"
    by (rule get32_cong) (simp add: put8_other)
  finally have i: "e_inode ?m e = ino"
    by (simp add: e_inode_def)
  have "get8 ?m (e + 4) = get8 (put8 (put32 m e ino) (e + 4) (of_nat (length n))) (e + 4)"
    using low [of 4] by (simp add: get8_def put8_other)
  then have nl: "e_name_len ?m e = of_nat (length n)"
    by (simp add: e_name_len_def)
  have "get8 ?m (e + 5) = get8 ?m1 (e + 5)"
    using low [of 5] by (simp add: get8_def)
  then show "rec_at ?m e = unat rl"
    by (simp add: rec_at_def e_rec_len_def)
  have "name_at ?m (e + 6) n"
    by (simp add: name_at_def write_entry_def Let_def memcpy_eq)
  then show "entry_at ?m e (ino, n)"
    using i nl assms by (simp add: entry_at_def)
qed

lemma write_entry_other:
  assumes "a < e \<or> e + 7 + length n \<le> a"
  shows "write_entry m e ino nl rl n a = m a"
  using assms by (auto simp: write_entry_def Let_def memcpy_eq put8_other put32_other)

lemma entry_size_pos: "name_ok n \<Longrightarrow> unat (entry_size (of_nat (length n))) = esz n"
  by (simp add: esz_def)

lemma add_entry_ok:
  assumes ok: "dir_ok m b xs y" and disk: "b + BLOCK_SIZE \<le> DISK_SIZE"
    and n: "name_ok n" "abyss_basename path = n"
    and room: "dsize (xs @ [y]) + esz n + 6 \<le> BLOCK_SIZE"
  shows "\<exists>m'. add_entry path ino b m = Inr m' \<and> dir_ok m' b (xs @ [y]) (ino, n) \<and>
    (\<forall>a. a < b \<or> b + BLOCK_SIZE \<le> a \<longrightarrow> m' a = m a)"
proof -
  note d = dir_okD [OF ok]
  define p where "p = b + dsize xs"
  define e where "e = p + esz (snd y)"
  define m1 where "m1 = memset (put8 m (p + 5) (entry_size (e_name_len m p))) e 0 (b + BLOCK_SIZE - e)"
  define m' where "m' = write_entry m1 e ino (of_nat (length n)) (entry_size (of_nat (length n))) n"
  have y: "name_ok (snd y)" "e_name_len m p = of_nat (length (snd y))"
    using d(2) by (simp_all add: entry_at_def p_def)
  have es: "unat (entry_size (e_name_len m p)) = esz (snd y)"
    using y by (simp add: entry_size_pos)
  have bounds: "e + esz n + 6 \<le> b + BLOCK_SIZE" "length n + 7 \<le> esz n" "length (snd y) + 7 \<le> esz (snd y)"
    using room esz_bounds [OF n(1)] esz_bounds [OF y(1)] by (simp_all add: e_def p_def)
  have nl: "unat (of_nat (length n) :: u8) = length n"
    using n(1) by (simp add: name_ok_def unat_of_nat)
  obtain z where last: "dir_last m (b + BLOCK_SIZE) b None = Inr (z, Some p)"
    using dir_last_ok [OF ok disk] unfolding p_def by blast
  have add: "add_entry path ino b m = Inr m'"
    using last es bounds disk nl by (simp add: add_entry_def Let_def e_def m1_def m'_def n(2))
  have low: "m' a = m a" if "a < e" "a \<noteq> p + 5" for a
    using that by (simp add: m'_def write_entry_other m1_def memset_byte put8_other)
  have "dir_pre m' b xs"
    by (rule dir_pre_cong [OF d(1)]) (simp add: low e_def p_def)
  moreover have "entry_at m' p y"
  proof -
    have "e_inode m' p = e_inode m p"
      unfolding e_inode_def by (rule get32_cong) (use bounds in \<open>simp add: low e_def\<close>)
    moreover have "e_name_len m' p = e_name_len m p"
      using bounds by (simp add: e_name_len_def get8_def low e_def)
    moreover have "name_at m' (p + 6) (snd y)"
      using d(2) bounds by (auto simp: entry_at_def name_at_def low e_def simp flip: p_def)
    ultimately show ?thesis
      using d(2) by (simp add: entry_at_def flip: p_def)
  qed
  moreover have "rec_at m' p = esz (snd y)"
  proof -
    have "m' (p + 5) = put8 m (p + 5) (entry_size (e_name_len m p)) (p + 5)"
      using bounds by (simp add: m'_def write_entry_other m1_def memset_byte e_def)
    then show ?thesis
      using es by (simp add: rec_at_def e_rec_len_def get8_def) (simp flip: get8_def)
  qed
  moreover have "entry_at m' e (ino, n)" "rec_at m' e = esz n"
    using write_entry_at [OF n(1)] entry_size_pos [OF n(1)] by (simp_all add: m'_def)
  moreover have "rec_at m' (e + esz n) = 0"
    using bounds by (simp add: rec_at_def e_rec_len_def get8_def m'_def write_entry_other m1_def memset_byte)
  ultimately have "dir_ok m' b (xs @ [y]) (ino, n)"
    using bounds by (simp add: dir_ok_def Let_def p_def e_def add.assoc)
  moreover have "m' a = m a" if "a < b \<or> b + BLOCK_SIZE \<le> a" for a
    using that bounds by (auto simp: m'_def write_entry_other m1_def memset_byte put8_other e_def p_def)
  ultimately show ?thesis
    using add by blast
qed

text \<open>Removing the last entry, and one before it.\<close>

lemma remove_last_ok:
  assumes ok: "dir_ok m b (xs @ [z]) y" and disk: "b + BLOCK_SIZE \<le> DISK_SIZE"
  shows "\<exists>m'. remove_entry b (b + dsize (xs @ [z])) m = Inr m' \<and> dir_ok m' b xs z \<and>
    (\<forall>a. a < b \<or> b + BLOCK_SIZE \<le> a \<longrightarrow> m' a = m a)"
proof -
  note d = dir_okD [OF ok]
  define p where "p = b + dsize xs"
  define e where "e = p + esz (snd z)"
  have e: "e = b + dsize (xs @ [z])"
    by (simp add: e_def p_def)
  define m' where "m' = memset m e 0 (rec_at m e)"
  have z: "dir_pre m b xs" "entry_at m p z" "rec_at m p = esz (snd z)" and sz: "7 \<le> esz (snd z)"
    using d(1) entry_at_esz [of m p z] by (simp_all add: p_def)
  have r: "remove_entry b e m = Inr m'"
    using d disk by (simp add: remove_entry_def Let_def rec_pos_iff m'_def rec_at_def e)
  have low: "m' a = m a" if "a < e" for a
    using that by (simp add: m'_def memset_byte)
  have "dir_pre m' b xs"
    by (rule dir_pre_cong [OF z(1)]) (simp add: low e_def p_def)
  moreover have "entry_at m' p z"
    by (rule entry_at_cong [OF z(2)]) (simp add: low e_def)
  moreover have "rec_at m' p = esz (snd z)"
    using z(3) sz rec_at_cong [of m' p m] by (simp add: low e_def)
  moreover have "rec_at m' e = 0"
    using d(3,6) by (simp add: rec_at_def e_rec_len_def get8_def m'_def memset_byte e)
  ultimately have "dir_ok m' b xs z"
    using d(3,5,6) by (simp add: dir_ok_def Let_def p_def e_def add.assoc)
  moreover have "m' a = m a" if "a < b \<or> b + BLOCK_SIZE \<le> a" for a
    using that d(5) by (auto simp: m'_def memset_byte e)
  ultimately show ?thesis
    using r e by blast
qed

lemma remove_middle_ok:
  assumes ok: "dir_ok m b (us @ x # vs) y" and disk: "b + BLOCK_SIZE \<le> DISK_SIZE"
  shows "\<exists>m'. remove_entry b (b + dsize us) m = Inr m' \<and> dir_ok m' b (us @ vs) y \<and>
    (\<forall>a. a < b \<or> b + BLOCK_SIZE \<le> a \<longrightarrow> m' a = m a)"
proof -
  note d = dir_okD [OF ok]
  define e where "e = b + dsize us"
  define s where "s = esz (snd x)"
  define p where "p = e + dsize vs"
  define m' where "m' = memmove m e (e + s) (BLOCK_SIZE - (e + s - b))"
  have pre: "dir_pre m b us" "entry_at m e x" "rec_at m e = s" "dir_pre m (e + s) vs"
    using d(1) by (simp_all add: e_def s_def add.assoc)
  have y: "entry_at m (p + s) y" "esz (snd y) \<le> rec_at m (p + s)" "rec_at m (p + s + rec_at m (p + s)) = 0"
    "p + s + rec_at m (p + s) + 6 \<le> b + BLOCK_SIZE"
    using d by (simp_all add: p_def e_def s_def ac_simps)
  have sz: "7 \<le> s" "7 \<le> esz (snd y)"
    using entry_at_esz [OF pre(2)] d(6) by (simp_all add: s_def)
  have pos: "0 < rec_at m (e + s)"
  proof (cases vs)
    case Nil
    then show ?thesis using y sz by (simp add: p_def)
  next
    case (Cons v vs')
    then show ?thesis using pre(4) entry_at_esz [of m "e + s" v] by simp
  qed
  have b: "b \<le> e" "e + s \<le> b + BLOCK_SIZE"
    using y by (simp_all add: e_def p_def)
  have rs: "e + unat (e_rec_len m e) = e + s"
    using pre(3) by (simp add: rec_at_def)
  have r: "remove_entry b e m = Inr m'"
    using pos b disk y sz p_def
    unfolding remove_entry_def Let_def rs by (simp add: rec_pos_iff m'_def)
  have mv: "m' a = (if e \<le> a \<and> a < b + BLOCK_SIZE - s then m (a + s) else m a)" for a
    using b by (auto simp: m'_def memmove_eq ac_simps)
  have "dir_pre m' b us"
    by (rule dir_pre_cong [OF pre(1)]) (simp add: mv e_def)
  moreover have "dir_pre m' e vs"
    by (rule dir_pre_shift [OF pre(4)]) (use y(4) in \<open>simp add: mv p_def less_diff_conv\<close>)
  moreover have sh: "entry_at m' p y = entry_at m (p + s) y" "rec_at m' p = rec_at m (p + s)"
  proof -
    have byte: "m' a = m (a + s)" if "p \<le> a" "a < p + esz (snd y)" for a
      using that y(2,4) b by (auto simp: mv p_def less_diff_conv)
    have "name_ok (snd y)"
      using y(1) by (simp add: entry_at_def)
    then show "entry_at m' p y = entry_at m (p + s) y" "rec_at m' p = rec_at m (p + s)"
      using entry_at_shift [of p y m' m s] byte by blast+
  qed
  moreover have "rec_at m' (p + rec_at m (p + s)) = rec_at m (p + s + rec_at m (p + s))"
  proof -
    have "m' (p + rec_at m (p + s) + 5) = m (p + s + rec_at m (p + s) + 5)"
      using y(4) sz b by (simp add: mv p_def less_diff_conv ac_simps)
    then show ?thesis
      by (simp add: rec_at_def e_rec_len_def get8_def)
  qed
  ultimately have "dir_ok m' b (us @ vs) y"
    using y by (simp add: dir_ok_def Let_def p_def e_def add.assoc)
  moreover have "m' a = m a" if "a < b \<or> b + BLOCK_SIZE \<le> a" for a
    using that b by (auto simp: mv)
  ultimately show ?thesis
    using r e_def by blast
qed

end
