(* ===== verification/Abyss_Spec.thy ===== *)
theory Abyss_Spec
  imports Abyss_Dir Directory
begin

text \<open>
  Correctness of \<open>abyssfs.c\<close>: the invariant of the disk image (the root directory, the inodes of its
  files, and that no two inodes share a block), that the operations keep it, and what they do to the
  names and to the contents.
\<close>

section \<open>Inodes\<close>

abbreviation (input) ROOT_BLOCK :: nat where "ROOT_BLOCK \<equiv> 36864"

definition inode_addr :: "nat \<Rightarrow> nat" where
  "inode_addr n = 4096 + 64 * n"

definition mode_of :: "abyss \<Rightarrow> nat \<Rightarrow> u32" where "mode_of ab n = i_mode ab (inode_addr n)"
definition size_of :: "abyss \<Rightarrow> nat \<Rightarrow> nat" where "size_of ab n = unat (i_size ab (inode_addr n))"
definition blk :: "abyss \<Rightarrow> nat \<Rightarrow> nat" where "blk ab n = unat (i_blocks ab (inode_addr n))"

lemma get_inode_addr: "geometry ab \<Longrightarrow> n < 512 \<Longrightarrow> get_inode ab (of_nat n) = Some (inode_addr n)"
  by (simp add: get_inode_geometry unat_of_nat inode_addr_def)

lemma get_inode_unat: "geometry ab \<Longrightarrow> unat w < 512 \<Longrightarrow> get_inode ab w = Some (inode_addr (unat w))"
  by (simp add: get_inode_geometry inode_addr_def)

lemma inode_apart: "i \<noteq> j \<Longrightarrow> inode_addr i + 64 \<le> inode_addr j \<or> inode_addr j + 64 \<le> inode_addr i"
  by (auto simp: inode_addr_def neq_iff)

lemma inode_region: "n < 512 \<Longrightarrow> 4096 \<le> inode_addr n \<and> inode_addr n + 64 \<le> ROOT_BLOCK"
  by (simp add: inode_addr_def)

lemma fields_cong:
  assumes "\<And>a. inode_addr n \<le> a \<Longrightarrow> a < inode_addr n + 12 \<Longrightarrow> disk ab' a = disk ab a"
  shows "mode_of ab' n = mode_of ab n" "size_of ab' n = size_of ab n" "blk ab' n = blk ab n"
  using assms
  by (auto simp: mode_of_def size_of_def blk_def i_mode_def i_size_def i_blocks_def intro!: get32_cong
      arg_cong [where f = unat])

text \<open>An update of one inode leaves the others.\<close>

definition only_inode :: "nat \<Rightarrow> abyss \<Rightarrow> abyss \<Rightarrow> bool" where
  "only_inode n ab ab' \<longleftrightarrow> (\<forall>a. a < inode_addr n \<or> inode_addr n + 64 \<le> a \<longrightarrow> disk ab' a = disk ab a)"

lemma only_inode_other:
  assumes "only_inode n ab ab'" and "j \<noteq> n"
  shows "mode_of ab' j = mode_of ab j" "size_of ab' j = size_of ab j" "blk ab' j = blk ab j"
  using assms inode_apart [of n j] by (auto intro!: fields_cong simp: only_inode_def)

lemma only_inode_trans: "only_inode n ab ab' \<Longrightarrow> only_inode n ab' ab'' \<Longrightarrow> only_inode n ab ab''"
  by (simp add: only_inode_def)

lemma only_inode_sets:
  "only_inode n ab (set_mode (inode_addr n) v ab)"
  "only_inode n ab (set_size (inode_addr n) v ab)"
  "only_inode n ab (set_blocks (inode_addr n) v ab)"
  "only_inode n ab (ab\<lparr>disk := memset (disk ab) (inode_addr n) 0 64\<rparr>)"
  "only_inode n ab (ab\<lparr>block_bitmap := bm, sb := s\<rparr>)"
  by (auto simp: only_inode_def set_mode_def set_size_def set_blocks_def put32_other memset_byte)

lemma sets_fields [simp]:
  "mode_of (set_mode (inode_addr n) v ab) n = v"
  "mode_of (set_size (inode_addr n) v ab) n = mode_of ab n"
  "mode_of (set_blocks (inode_addr n) v ab) n = mode_of ab n"
  "size_of (set_mode (inode_addr n) v ab) n = size_of ab n"
  "size_of (set_size (inode_addr n) v ab) n = unat v"
  "size_of (set_blocks (inode_addr n) v ab) n = size_of ab n"
  "blk (set_mode (inode_addr n) v ab) n = blk ab n"
  "blk (set_size (inode_addr n) v ab) n = blk ab n"
  "blk (set_blocks (inode_addr n) v ab) n = unat v"
  by (simp_all add: mode_of_def size_of_def blk_def)

lemma geometry_cong:
  "sb ab' = (sb ab)\<lparr>free_blocks := f\<rparr> \<Longrightarrow> blocks ab' = blocks ab \<Longrightarrow> geometry ab' = geometry ab"
  by (simp add: geometry_def)

lemma geometry_sets [simp]:
  "geometry (set_mode p v ab) = geometry ab" "geometry (set_size p v ab) = geometry ab"
  "geometry (set_blocks p v ab) = geometry ab" "geometry (ab\<lparr>disk := m\<rparr>) = geometry ab"
  "geometry (ab\<lparr>block_bitmap := bm\<rparr>) = geometry ab"
  by (simp_all add: geometry_def)

definition fresh_inode :: "nat \<Rightarrow> abyss \<Rightarrow> abyss" where
  "fresh_inode n ab = set_mode (inode_addr n) 0x1FF (ab\<lparr>disk := memset (disk ab) (inode_addr n) 0 64\<rparr>)"

lemma get32_zero:
  assumes "\<And>k. k < 4 \<Longrightarrow> m (a + k) = NUL"
  shows "get32 m a = 0"
  using assms [of 0] assms [of 1] assms [of 2] assms [of 3] by (simp add: get32_def)

lemma fresh_inode_fields:
  "mode_of (fresh_inode n ab) n = 0x1FF" "size_of (fresh_inode n ab) n = 0" "blk (fresh_inode n ab) n = 0"
  "only_inode n ab (fresh_inode n ab)" "geometry (fresh_inode n ab) = geometry ab"
  "sb (fresh_inode n ab) = sb ab" "block_bitmap (fresh_inode n ab) = block_bitmap ab"
  "blocks (fresh_inode n ab) = blocks ab"
  unfolding fresh_inode_def
  by (simp_all, simp_all add: size_of_def blk_def i_size_def i_blocks_def memset_byte get32_zero)
    (blast intro: only_inode_trans only_inode_sets)

lemma alloc_inode_eq:
  assumes "geometry ab"
  shows "alloc_inode ab =
    (case List.find (\<lambda>i. mode_of ab i = 0) [1..<512] of None \<Rightarrow> (0, ab) | Some i \<Rightarrow> (of_nat i, fresh_inode i ab))"
proof -
  have "unat (inode_blocks (sb ab) * 64) = 512"
    using assms by (simp add: geometry_def)
  moreover have "List.find (inode_free ab) [1..<512] = List.find (\<lambda>i. mode_of ab i = 0) [1..<512]"
    by (rule find_cong) (simp_all add: inode_free_def get_inode_addr [OF assms] mode_of_def)
  moreover have "get_inode ab (of_nat i) = Some (inode_addr i)"
    if "List.find (\<lambda>i. mode_of ab i = 0) [1..<512] = Some i" for i
    using that unfolding find_upt_Some by (simp add: get_inode_addr [OF assms])
  ultimately show ?thesis
    unfolding alloc_inode_def Let_def
    by (cases "List.find (\<lambda>i. mode_of ab i = 0) [1..<512]") (simp_all add: fresh_inode_def)
qed

text \<open>The first inode from 1 on that is not in use.\<close>

lemma alloc_inode_some:
  assumes "geometry ab" and "alloc_inode ab = (w, ab')" and "w \<noteq> 0"
  obtains n where "1 \<le> n" "n < 512" "w = of_nat n" "unat w = n" "mode_of ab n = 0"
    "\<forall>j. 1 \<le> j \<and> j < n \<longrightarrow> mode_of ab j \<noteq> 0" "ab' = fresh_inode n ab"
proof -
  obtain i where i: "List.find (\<lambda>i. mode_of ab i = 0) [1..<512] = Some i" "w = of_nat i" "ab' = fresh_inode i ab"
    using assms by (auto simp: alloc_inode_eq split: option.splits)
  moreover have "unat w = i"
    using i unfolding find_upt_Some by (simp add: unat_of_nat)
  ultimately show thesis
    using that unfolding find_upt_Some by blast
qed

section \<open>The bitmap\<close>

lemma bit_test: "i < 64 \<Longrightarrow> (w AND 2 ^ i = 0) = (\<not> bit (w :: u64) i)"
  using bit_eq_iff [of "w AND 2 ^ i" 0] by (auto simp: bit_and_iff bit_exp_iff)

lemma bit_set: "i < 64 \<Longrightarrow> bit (w OR 2 ^ i :: u64) k \<longleftrightarrow> bit w k \<or> k = i"
  by (auto simp: bit_or_iff bit_exp_iff)

lemma bit_clear: "i < 64 \<Longrightarrow> bit (w AND NOT (2 ^ i) :: u64) k \<longleftrightarrow> bit w k \<and> k \<noteq> i"
  by (auto simp: bit_and_iff bit_not_iff bit_exp_iff dest: bit_imp_le_length)

definition used_block :: "abyss \<Rightarrow> nat \<Rightarrow> bool" where
  "used_block ab i = bit (block_bitmap ab) i"

lemma alloc_block_some:
  assumes "geometry ab" and "alloc_block ab = (w, ab')" and "w \<noteq> 0"
  obtains i where "9 \<le> i" "i < 64" "w = of_nat i" "unat w = i" "\<not> used_block ab i"
    "\<forall>j. 9 \<le> j \<and> j < i \<longrightarrow> used_block ab j"
    "ab' = ab\<lparr>block_bitmap := block_bitmap ab OR 2 ^ i,
              sb := (sb ab)\<lparr>free_blocks := free_blocks (sb ab) - 1\<rparr>\<rparr>"
proof -
  obtain i where i: "List.find (\<lambda>i. block_bitmap ab AND 2 ^ i = 0) [9..<64] = Some i" "w = of_nat i"
    "ab' = ab\<lparr>block_bitmap := block_bitmap ab OR 2 ^ i,
              sb := (sb ab)\<lparr>free_blocks := free_blocks (sb ab) - 1\<rparr>\<rparr>"
    using assms by (auto simp: alloc_block_def geometry_def simp del: upt_rec_numeral split: option.splits)
  then have "9 \<le> i" "i < 64" "\<not> used_block ab i" "\<forall>j. 9 \<le> j \<and> j < i \<longrightarrow> used_block ab j"
    unfolding find_upt_Some by (auto simp: bit_test used_block_def)
  moreover have "unat w = i"
    using i(2) \<open>i < 64\<close> by (simp add: unat_of_nat)
  ultimately show thesis
    using that i by blast
qed

lemma alloc_block_none:
  assumes "geometry ab"
  shows "fst (alloc_block ab) = 0 \<longleftrightarrow> (\<forall>i. 9 \<le> i \<and> i < 64 \<longrightarrow> used_block ab i)"
proof -
  let ?l = "List.find (\<lambda>i. block_bitmap ab AND 2 ^ i = 0) [9..<64]"
  have "fst (alloc_block ab) = 0 \<longleftrightarrow> ?l = None"
  proof (cases ?l)
    case (Some i)
    then have "9 \<le> i" "i < 64"
      unfolding find_upt_Some by simp_all
    then have "unat (of_nat i :: u32) = i"
      by (simp add: unat_of_nat)
    then have "(of_nat i :: u32) \<noteq> 0"
      using \<open>9 \<le> i\<close> by auto
    then show ?thesis
      using assms Some by (simp add: alloc_block_def geometry_def del: upt_rec_numeral)
  qed (use assms in \<open>simp add: alloc_block_def geometry_def del: upt_rec_numeral\<close>)
  also have "\<dots> \<longleftrightarrow> (\<forall>i. 9 \<le> i \<and> i < 64 \<longrightarrow> used_block ab i)"
    unfolding find_upt_None by (auto simp: bit_test used_block_def)
  finally show ?thesis .
qed

lemma alloc_block_full:
  assumes "geometry ab" and "fst (alloc_block ab) = 0"
  shows "alloc_block ab = (0, ab)"
proof (cases "List.find (\<lambda>i. block_bitmap ab AND 2 ^ i = 0) [9..<64]")
  case None
  then show ?thesis
    using assms(1) by (simp add: alloc_block_def geometry_def del: upt_rec_numeral)
next
  case (Some i)
  then have "9 \<le> i" "i < 64" "\<not> used_block ab i"
    unfolding find_upt_Some by (auto simp: bit_test used_block_def)
  then show ?thesis
    using alloc_block_none [OF assms(1)] assms(2) by blast
qed

section \<open>The invariant\<close>

definition file_name :: "string \<Rightarrow> bool" where
  "file_name n \<longleftrightarrow> name_ok n \<and> n \<noteq> [] \<and> CHR ''/'' \<notin> set n \<and> n \<noteq> ''.'' \<and> n \<noteq> ''..''"

definition dots :: "(u32 \<times> string) list" where
  "dots = [(1, ''.''), (1, ''..'')]"

definition root_dir :: "abyss \<Rightarrow> (u32 \<times> string) list \<Rightarrow> bool" where
  "root_dir ab fs \<longleftrightarrow> dir_ok (disk ab) ROOT_BLOCK (butlast (dots @ fs)) (last (dots @ fs))"

text \<open>The inodes that may own a block: those in use, and inode 0, which every opened file stands for.\<close>

definition owner :: "abyss \<Rightarrow> nat \<Rightarrow> bool" where
  "owner ab n \<longleftrightarrow> n < 512 \<and> (n = 0 \<or> mode_of ab n \<noteq> 0)"

definition blocks_ok :: "abyss \<Rightarrow> bool" where
  "blocks_ok ab \<longleftrightarrow>
     (\<forall>n. owner ab n \<and> blk ab n \<noteq> 0 \<longrightarrow> 9 \<le> blk ab n \<and> blk ab n < 64 \<and> used_block ab (blk ab n)) \<and>
     (\<forall>n m. owner ab n \<and> owner ab m \<and> blk ab n \<noteq> 0 \<and> blk ab n = blk ab m \<longrightarrow> n = m)"

definition files_ok :: "abyss \<Rightarrow> (u32 \<times> string) list \<Rightarrow> bool" where
  "files_ok ab fs \<longleftrightarrow> distinct (map fst fs) \<and> distinct (map snd fs) \<and>
     (\<forall>x \<in> set fs. file_name (snd x) \<and> 1 < unat (fst x) \<and> unat (fst x) < 512 \<and> mode_of ab (unat (fst x)) \<noteq> 0)"

definition abyss_inv :: "abyss \<Rightarrow> (u32 \<times> string) list \<Rightarrow> bool" where
  "abyss_inv ab fs \<longleftrightarrow> geometry ab \<and> root_dir ab fs \<and> files_ok ab fs \<and>
     mode_of ab 1 \<noteq> 0 \<and> blk ab 1 = 9 \<and> blocks_ok ab"

lemma abyss_invD:
  assumes "abyss_inv ab fs"
  shows "geometry ab" "root_dir ab fs" "files_ok ab fs" "mode_of ab 1 \<noteq> 0" "blk ab 1 = 9" "blocks_ok ab"
  using assms by (simp_all add: abyss_inv_def)

lemma files_okD:
  assumes "files_ok ab fs" and "x \<in> set fs"
  shows "file_name (snd x)" "1 < unat (fst x)" "unat (fst x) < 512" "mode_of ab (unat (fst x)) \<noteq> 0"
  using assms by (simp_all add: files_ok_def)

lemma blocks_okD:
  assumes "blocks_ok ab" and "owner ab n" and "blk ab n \<noteq> 0"
  shows "9 \<le> blk ab n" "blk ab n < 64" "used_block ab (blk ab n)"
    "owner ab m \<Longrightarrow> blk ab m = blk ab n \<Longrightarrow> m = n"
  using assms by (auto simp: blocks_ok_def)

lemma file_nameD: "file_name n \<Longrightarrow> name_ok n \<and> cstr n \<and> n \<noteq> [] \<and> CHR ''/'' \<notin> set n"
  by (simp add: file_name_def name_ok_def)

lemma root_dir_inode:
  assumes "only_inode n ab ab'" and "n < 512" and "root_dir ab fs"
  shows "root_dir ab' fs"
  unfolding root_dir_def
proof (rule dir_ok_cong)
  show "dir_ok (disk ab) ROOT_BLOCK (butlast (dots @ fs)) (last (dots @ fs))"
    using assms(3) by (simp add: root_dir_def)
  show "disk ab' a = disk ab a" if "ROOT_BLOCK \<le> a" for a
    using assms(1) that inode_region [OF assms(2)] by (simp add: only_inode_def)
qed

text \<open>Updates of the root block leave the inodes.\<close>

lemma fields_root:
  assumes "\<And>a. a < ROOT_BLOCK \<Longrightarrow> m a = disk ab a" and "n < 512"
  shows "mode_of (ab\<lparr>disk := m\<rparr>) n = mode_of ab n" "size_of (ab\<lparr>disk := m\<rparr>) n = size_of ab n"
    "blk (ab\<lparr>disk := m\<rparr>) n = blk ab n"
  using assms inode_region [OF assms(2)] by (auto intro!: fields_cong)

lemma blocks_ok_root:
  assumes "\<And>a. a < ROOT_BLOCK \<Longrightarrow> m a = disk ab a" and "blocks_ok ab"
  shows "blocks_ok (ab\<lparr>disk := m\<rparr>)"
proof -
  have own: "owner (ab\<lparr>disk := m\<rparr>) n = owner ab n" for n
    using fields_root [OF assms(1)] by (auto simp: owner_def)
  have b: "blk (ab\<lparr>disk := m\<rparr>) n = blk ab n" if "owner ab n" for n
    using fields_root [OF assms(1)] that by (simp add: owner_def)
  show ?thesis
    using assms(2) b unfolding blocks_ok_def own used_block_def by auto
qed

section \<open>Names\<close>

lemma dir_ok_entry:
  assumes "dir_ok m b xs y" and "k < length (xs @ [y])"
  shows "e_inode m (b + dsize (take k (xs @ [y]))) = fst ((xs @ [y]) ! k)"
proof (cases "k < length xs")
  case True
  then have "xs = take k xs @ xs ! k # drop (Suc k) xs"
    by (simp add: id_take_nth_drop)
  then have "dir_pre m b (take k xs @ xs ! k # drop (Suc k) xs)"
    using dir_okD(1) [OF assms(1)] by simp
  then show ?thesis
    using True by (simp add: entry_at_def nth_append)
next
  case False
  then show ?thesis
    using dir_okD(2) [OF assms(1)] assms(2) by (simp add: entry_at_def nth_append)
qed

lemma map_of_first_index:
  "map_of (map prod.swap es) n = map_option (\<lambda>k. fst (es ! k)) (first_index (\<lambda>x. snd x = n) es)"
  by (induction es) (auto simp: option.map_comp comp_def)

text \<open>What the search of \<open>abyssfs_unlink\<close> and \<open>get_inode_by_path\<close> finds in the root directory.\<close>

definition abyss_look :: "abyss \<Rightarrow> string \<Rightarrow> u32 option" where
  "abyss_look ab n =
     (case dir_find (disk ab) ROOT_BLOCK n of Inr (Some e) \<Rightarrow> Some (e_inode (disk ab) e) | _ \<Rightarrow> None)"

lemma root_dir_split:
  assumes "root_dir ab fs"
  obtains xs y where "dots @ fs = xs @ [y]" "dir_ok (disk ab) ROOT_BLOCK xs y"
proof -
  obtain xs y where es: "dots @ fs = xs @ [y]"
    by (metis append_is_Nil_conv dots_def list.discI rev_exhaust)
  then show thesis
    using that assms by (simp add: root_dir_def)
qed

lemma root_dirI: "dots @ fs = xs @ [y] \<Longrightarrow> dir_ok (disk ab) ROOT_BLOCK xs y \<Longrightarrow> root_dir ab fs"
  by (simp add: root_dir_def)

lemma root_dir_find:
  assumes "root_dir ab fs" and "cstr n"
  shows "dir_find (disk ab) ROOT_BLOCK n =
    Inr (map_option (\<lambda>k. ROOT_BLOCK + dsize (take k (dots @ fs))) (first_index (\<lambda>x. snd x = n) (dots @ fs)))"
proof -
  obtain xs y where es: "dots @ fs = xs @ [y]" and ok: "dir_ok (disk ab) ROOT_BLOCK xs y"
    by (rule root_dir_split [OF assms(1)])
  show ?thesis
    unfolding es by (rule dir_find_ok [OF ok _ assms(2)]) simp
qed

lemma root_dir_entry:
  assumes "root_dir ab fs" and "k < length (dots @ fs)"
  shows "e_inode (disk ab) (ROOT_BLOCK + dsize (take k (dots @ fs))) = fst ((dots @ fs) ! k)"
proof -
  obtain xs y where es: "dots @ fs = xs @ [y]" and ok: "dir_ok (disk ab) ROOT_BLOCK xs y"
    by (rule root_dir_split [OF assms(1)])
  show ?thesis
    using assms(2) unfolding es by (rule dir_ok_entry [OF ok])
qed

lemma abyss_look_root:
  assumes "root_dir ab fs" and "cstr n"
  shows "abyss_look ab n = map_of (map prod.swap (dots @ fs)) n"
  using root_dir_find [OF assms] root_dir_entry [OF assms(1)]
  unfolding map_of_first_index
  by (auto simp: abyss_look_def dest: first_index_SomeD split: option.splits)

lemma abyss_look_file:
  assumes "abyss_inv ab fs" and "file_name n"
  shows "abyss_look ab n = map_of (map prod.swap fs) n"
  using abyss_look_root [OF abyss_invD(2) [OF assms(1)], of n] assms(2)
  by (simp add: dots_def file_name_def name_ok_def)

section \<open>Creating\<close>

lemma inv_only_inode:
  assumes inv: "abyss_inv ab fs" and i: "only_inode n ab ab'" "n < 512" "geometry ab'" "n \<noteq> 1"
    and m: "mode_of ab n \<noteq> 0 \<Longrightarrow> mode_of ab' n \<noteq> 0" and b: "blocks_ok ab'"
  shows "abyss_inv ab' fs"
proof -
  note d = abyss_invD [OF inv]
  have "mode_of ab' j \<noteq> 0" if "mode_of ab j \<noteq> 0" for j
    using only_inode_other(1) [OF i(1)] m that by (cases "j = n") auto
  then have "files_ok ab' fs"
    using d(3) by (auto simp: files_ok_def)
  then show ?thesis
    using d root_dir_inode [OF i(1,2) d(2)] b i only_inode_other [OF i(1), of 1] by (simp add: abyss_inv_def)
qed

lemma fresh_inode_inv:
  assumes inv: "abyss_inv ab fs" and n: "1 \<le> n" "n < 512" "mode_of ab n = 0"
  shows "abyss_inv (fresh_inode n ab) fs" "1 < n" "of_nat n \<notin> fst ` set fs"
proof -
  note d = abyss_invD [OF inv]
  show "1 < n"
    using n d(4) by (metis le_neq_implies_less)
  note f = fresh_inode_fields [of n ab]
  have other: "owner ab j" "blk (fresh_inode n ab) j = blk ab j"
    if "owner (fresh_inode n ab) j" "blk (fresh_inode n ab) j \<noteq> 0" for j
  proof -
    have "j \<noteq> n"
      using that f(3) by metis
    then show "owner ab j" "blk (fresh_inode n ab) j = blk ab j"
      using that only_inode_other [OF f(4)] by (auto simp: owner_def)
  qed
  have "blocks_ok (fresh_inode n ab)"
    using d(6) other unfolding blocks_ok_def used_block_def f(7) by metis
  then show "abyss_inv (fresh_inode n ab) fs"
    using inv_only_inode [OF inv f(4) n(2)] f d(1) \<open>1 < n\<close> by simp
  show "of_nat n \<notin> fst ` set fs"
  proof
    assume "of_nat n \<in> fst ` set fs"
    then obtain x where "x \<in> set fs" "fst x = of_nat n"
      by (metis imageE)
    moreover have "unat (of_nat n :: u32) = n"
      using n(2) by (simp add: unat_of_nat)
    ultimately show False
      using files_okD(4) [OF d(3)] n(3) by metis
  qed
qed

text \<open>The working directory /.\<close>

definition at_root :: "char list option \<Rightarrow> bool" where
  "at_root cwd \<longleftrightarrow> (\<exists>buf. cwd = Some buf \<and> cstring buf = ''/'')"

definition root_room :: "(u32 \<times> string) list \<Rightarrow> string \<Rightarrow> bool" where
  "root_room fs n \<longleftrightarrow> dsize (dots @ fs) + esz n + 6 \<le> BLOCK_SIZE"

definition only_root :: "abyss \<Rightarrow> abyss \<Rightarrow> bool" where
  "only_root ab ab' \<longleftrightarrow> (\<exists>m. ab' = ab\<lparr>disk := m\<rparr> \<and>
     (\<forall>a. a < ROOT_BLOCK \<or> ROOT_BLOCK + BLOCK_SIZE \<le> a \<longrightarrow> m a = disk ab a))"

lemma get_inode_1: "geometry ab \<Longrightarrow> get_inode ab 1 = Some (inode_addr 1)"
  using get_inode_unat [of ab 1] by simp

lemma root_block_of:
  assumes "abyss_inv ab fs"
  shows "i_blocks ab (inode_addr 1) = 9" "get_block ab 9 = Some ROOT_BLOCK"
proof -
  have "unat (i_blocks ab (inode_addr 1)) = unat (9 :: u32)"
    using abyss_invD(5) [OF assms] by (simp add: blk_def)
  then show "i_blocks ab (inode_addr 1) = 9"
    by (simp only: word_unat_eq_iff)
  show "get_block ab 9 = Some ROOT_BLOCK"
    using get_block_geometry [OF abyss_invD(1) [OF assms], of 9] by simp
qed

lemma create_file_root:
  assumes "abyss_inv ab fs" and "at_root cwd"
  shows "create_file path w cwd ab = map_res (\<lambda>m. (0, ab\<lparr>disk := m\<rparr>)) (add_entry path w ROOT_BLOCK (disk ab))"
  using assms(2) get_inode_1 [OF abyss_invD(1) [OF assms(1)]] root_block_of [OF assms(1)]
  by (auto simp: create_file_def cwd_inode_def at_root_def Let_def)

lemma create_file_inv:
  assumes inv: "abyss_inv ab fs" and cwd: "at_root cwd"
    and n: "abyss_basename path = n" "file_name n" "n \<notin> snd ` set fs" "root_room fs n"
    and w: "1 < unat w" "unat w < 512" "mode_of ab (unat w) \<noteq> 0" "w \<notin> fst ` set fs"
  shows "\<exists>ab'. create_file path w cwd ab = Inr (0, ab') \<and> abyss_inv ab' (fs @ [(w, n)]) \<and> only_root ab ab'"
proof -
  note d = abyss_invD [OF inv]
  obtain xs y where es: "dots @ fs = xs @ [y]" and ok: "dir_ok (disk ab) ROOT_BLOCK xs y"
    by (rule root_dir_split [OF d(2)])
  have "dsize (xs @ [y]) + esz n + 6 \<le> BLOCK_SIZE"
    using n(4) unfolding root_room_def es .
  then obtain m where m: "add_entry path w ROOT_BLOCK (disk ab) = Inr m" "dir_ok m ROOT_BLOCK (xs @ [y]) (w, n)"
    "\<forall>a. a < ROOT_BLOCK \<or> ROOT_BLOCK + BLOCK_SIZE \<le> a \<longrightarrow> m a = disk ab a"
    using add_entry_ok [OF ok _ _ n(1)] n(2) by (auto simp: file_name_def)
  have low: "\<And>a. a < ROOT_BLOCK \<Longrightarrow> m a = disk ab a"
    using m(3) by simp
  note f = fields_root [OF low]
  have "files_ok (ab\<lparr>disk := m\<rparr>) (fs @ [(w, n)])"
    using d(3) n w f(1) by (auto simp: files_ok_def)
  moreover have "root_dir (ab\<lparr>disk := m\<rparr>) (fs @ [(w, n)])"
  proof (rule root_dirI)
    show "dots @ (fs @ [(w, n)]) = (xs @ [y]) @ [(w, n)]"
      using es by (metis append.assoc)
  qed (simp add: m(2))
  ultimately have "abyss_inv (ab\<lparr>disk := m\<rparr>) (fs @ [(w, n)])"
    using d f blocks_ok_root [OF low d(6)] by (simp add: abyss_inv_def)
  moreover have "only_root ab (ab\<lparr>disk := m\<rparr>)"
    using m(3) by (auto simp: only_root_def)
  ultimately show ?thesis
    using create_file_root [OF inv cwd] m(1) by auto
qed

lemma basename_skip_slashes: "file_name n \<Longrightarrow> abyss_basename (skip_slashes n) = n"
proof -
  assume n: "file_name n"
  then have "skip_slashes n = n"
    by (cases n) (auto simp: file_name_def)
  then show ?thesis
    using n rindex_None_iff [of n "CHR ''/''"] by (simp add: abyss_basename_def file_name_def)
qed

text \<open>
  Creating a name in the root directory, whatever becomes of the handle: the entry and the lowest
  free inode.
\<close>

lemma abyssfs_create_some:
  assumes inv: "abyss_inv ab fs" and cwd: "at_root cwd"
    and n: "file_name n" "n \<notin> snd ` set fs" "root_room fs n"
    and c: "abyssfs_create n cwd h ab = Inr (Some fl, h', ab')"
  obtains w where "1 < unat w" "unat w < 512" "mode_of ab (unat w) = 0"
    "\<forall>j. 1 \<le> j \<and> j < unat w \<longrightarrow> mode_of ab j \<noteq> 0" "w = fst (alloc_inode ab)"
    "abyss_inv ab' (fs @ [(w, n)])" "only_root (fresh_inode (unat w) ab) ab'"
    "fl = new_abyss_file w []" "kalloc sizeof_vfs_file h = (Some h, h')"
proof -
  note d = abyss_invD [OF inv]
  obtain w ab1 where w: "alloc_inode ab = (w, ab1)"
    by (cases "alloc_inode ab")
  have w0: "w \<noteq> 0"
    using c w by (auto simp: abyssfs_create_def)
  obtain i where i: "1 \<le> i" "i < 512" "w = of_nat i" "unat w = i" "mode_of ab i = 0"
    "\<forall>j. 1 \<le> j \<and> j < i \<longrightarrow> mode_of ab j \<noteq> 0" "ab1 = fresh_inode i ab"
    by (rule alloc_inode_some [OF d(1) w w0])
  note f = fresh_inode_inv [OF inv i(1,2,5)]
  obtain ab2 where ab2: "create_file (skip_slashes n) w cwd ab1 = Inr (0, ab2)"
    "abyss_inv ab2 (fs @ [(w, n)])" "only_root ab1 ab2"
    using create_file_inv [OF f(1) cwd basename_skip_slashes [OF n(1)] n, of w] i f
      fresh_inode_fields(1) [of i ab] by auto
  have "get_inode ab1 w \<noteq> None"
    using get_inode_unat [of ab1 w] i d(1) fresh_inode_fields(5) [of i ab] by simp
  then have "ab' = ab2 \<and> fl = new_abyss_file w [] \<and> kalloc sizeof_vfs_file h = (Some h, h')"
    using c w w0 ab2(1) by (auto simp: abyssfs_create_def dest: kalloc_Some split: prod.splits option.splits)
  then show thesis
    using that [of w] i f(2) ab2 w by simp
qed

section \<open>Unlinking\<close>

lemma release_inode_eq:
  assumes "geometry ab" and "n < 512" and "blk ab n < 64"
  defines "ab' \<equiv> release_inode (of_nat n) ab"
  shows "only_inode n ab ab'" "mode_of ab' n = 0" "geometry ab'"
    "used_block ab' k \<longleftrightarrow> used_block ab k \<and> (blk ab n \<noteq> 0 \<longrightarrow> k \<noteq> blk ab n)"
proof -
  let ?a = "set_mode (inode_addr n) 0 ab"
  have r: "ab' = (if i_blocks ?a (inode_addr n) \<noteq> 0 then free_block (i_blocks ?a (inode_addr n)) ?a else ?a)"
    by (simp add: ab'_def release_inode_def get_inode_addr [OF assms(1,2)] Let_def)
  have z: "i_blocks ?a (inode_addr n) = 0 \<longleftrightarrow> blk ab n = 0"
    by (simp add: blk_def unat_eq_0)
  have fb: "free_block (i_blocks ?a (inode_addr n)) ?a =
      ?a\<lparr>block_bitmap := block_bitmap ab AND NOT (2 ^ blk ab n),
         sb := (sb ab)\<lparr>free_blocks := free_blocks (sb ab) + 1\<rparr>\<rparr>"
    using assms(1,3) by (simp add: free_block_def geometry_def word_less_nat_alt blk_def)
  show "only_inode n ab ab'"
    unfolding r fb using only_inode_trans [OF only_inode_sets(1) only_inode_sets(5)] only_inode_sets(1) by simp
  show "geometry ab'"
    unfolding r fb using assms(1) by (simp add: geometry_def)
  have "mode_of ?a n = 0"
    by simp
  then show "mode_of ab' n = 0"
    unfolding r fb by (simp add: mode_of_def i_mode_def)
  show "used_block ab' k \<longleftrightarrow> used_block ab k \<and> (blk ab n \<noteq> 0 \<longrightarrow> k \<noteq> blk ab n)"
    unfolding r fb using z assms(3) by (simp add: used_block_def bit_clear)
qed

text \<open>Taking the entry at position \<open>k\<close> out of the bytes of the root directory.\<close>

lemma root_dir_remove:
  assumes r: "root_dir ab fs" and k: "k < length fs"
  shows "\<exists>m. remove_entry ROOT_BLOCK (ROOT_BLOCK + dsize (dots @ take k fs)) (disk ab) = Inr m \<and>
    root_dir (ab\<lparr>disk := m\<rparr>) (take k fs @ drop (Suc k) fs) \<and>
    (\<forall>a. a < ROOT_BLOCK \<or> ROOT_BLOCK + BLOCK_SIZE \<le> a \<longrightarrow> m a = disk ab a)"
proof -
  have split: "fs = take k fs @ fs ! k # drop (Suc k) fs"
    using k by (rule id_take_nth_drop)
  obtain xs y where es: "dots @ fs = xs @ [y]" and ok: "dir_ok (disk ab) ROOT_BLOCK xs y"
    by (rule root_dir_split [OF r])
  have disk: "ROOT_BLOCK + BLOCK_SIZE \<le> DISK_SIZE"
    by simp
  show ?thesis
  proof (cases "drop (Suc k) fs = []")
    case True
    obtain us z where us: "dots @ take k fs = us @ [z]"
      by (metis append_is_Nil_conv dots_def list.discI rev_exhaust)
    have "xs = dots @ take k fs" "y = fs ! k"
      using es split True by (metis append.assoc append1_eq_conv)+
    then have "dir_ok (disk ab) ROOT_BLOCK (us @ [z]) y"
      using ok us by simp
    from remove_last_ok [OF this disk] obtain m where
      m: "remove_entry ROOT_BLOCK (ROOT_BLOCK + dsize (us @ [z])) (disk ab) = Inr m"
        "dir_ok m ROOT_BLOCK us z" "\<forall>a. a < ROOT_BLOCK \<or> ROOT_BLOCK + BLOCK_SIZE \<le> a \<longrightarrow> m a = disk ab a"
      by blast
    moreover have "root_dir (ab\<lparr>disk := m\<rparr>) (take k fs)"
      by (rule root_dirI [OF us]) (simp add: m(2))
    ultimately show ?thesis
      unfolding us True by simp
  next
    case False
    then obtain vs z where vs: "drop (Suc k) fs = vs @ [z]"
      by (metis rev_exhaust)
    have "xs @ [y] = (dots @ take k fs @ fs ! k # vs) @ [z]"
      using es split vs by (metis append.assoc append_Cons)
    then have "dir_ok (disk ab) ROOT_BLOCK ((dots @ take k fs) @ fs ! k # vs) z"
      using ok by simp
    from remove_middle_ok [OF this disk] obtain m where
      m: "remove_entry ROOT_BLOCK (ROOT_BLOCK + dsize (dots @ take k fs)) (disk ab) = Inr m"
        "dir_ok m ROOT_BLOCK ((dots @ take k fs) @ vs) z"
        "\<forall>a. a < ROOT_BLOCK \<or> ROOT_BLOCK + BLOCK_SIZE \<le> a \<longrightarrow> m a = disk ab a"
      by blast
    moreover have "root_dir (ab\<lparr>disk := m\<rparr>) (take k fs @ vs @ [z])"
      by (rule root_dirI [of _ "(dots @ take k fs) @ vs" z]) (use m(2) in simp_all)
    ultimately show ?thesis
      unfolding vs by blast
  qed
qed

lemma file_not_dots: "file_name n \<Longrightarrow> n \<notin> snd ` set dots"
  by (simp add: dots_def file_name_def)

lemma first_index_append:
  "first_index P (xs @ ys) =
    (case first_index P xs of Some k \<Rightarrow> Some k | None \<Rightarrow> map_option (\<lambda>k. length xs + k) (first_index P ys))"
proof (induction xs)
  case Nil
  then show ?case by (cases "first_index P ys") simp_all
next
  case (Cons a xs)
  then show ?case by (cases "first_index P ys") (auto split: option.splits)
qed

lemma root_find_file:
  assumes "abyss_inv ab fs" and "file_name n"
  shows "dir_find (disk ab) ROOT_BLOCK n =
    Inr (map_option (\<lambda>k. ROOT_BLOCK + dsize (dots @ take k fs)) (first_index (\<lambda>x. snd x = n) fs))"
proof -
  have "first_index (\<lambda>x. snd x = n) dots = None"
    using file_not_dots [OF assms(2)] by (auto simp: first_index_None)
  then show ?thesis
    using root_dir_find [OF abyss_invD(2) [OF assms(1)], of n] file_nameD [OF assms(2)]
    by (simp add: first_index_append option.map_comp comp_def)
qed

lemma unlink_blocks_ok:
  assumes b: "blocks_ok ab" and "geometry ab" and i: "owner ab i" "i \<noteq> 0"
  shows "blocks_ok (release_inode (of_nat i) ab)" "blk ab i < 64"
proof -
  let ?r = "release_inode (of_nat i) ab"
  show lt: "blk ab i < 64"
    using blocks_okD(2) [OF b i(1)] by (cases "blk ab i = 0") auto
  have "i < 512"
    using i by (simp add: owner_def)
  note r = release_inode_eq [OF assms(2) this lt]
  have own: "n \<noteq> i \<and> owner ab n \<and> blk ?r n = blk ab n" if "owner ?r n" for n
  proof -
    have "n \<noteq> i"
      using r(2) that i(2) by (auto simp: owner_def)
    then show ?thesis
      using that only_inode_other [OF r(1)] by (simp add: owner_def)
  qed
  show "blocks_ok ?r"
    unfolding blocks_ok_def r(4)
    using own blocks_okD [OF b] i(1) by metis
qed

text \<open>\<open>abyssfs_unlink\<close> on a name of the root directory.\<close>

lemma abyssfs_unlink_none:
  assumes "abyss_inv ab fs" and "file_name n" and "n \<notin> snd ` set fs"
  shows "abyssfs_unlink n ab = Inr (-1, ab)"
proof -
  have "skip_slashes n = n"
    using assms(2) by (cases n) (auto simp: file_name_def)
  moreover have "first_index (\<lambda>x. snd x = n) fs = None"
    using assms(3) by (auto simp: first_index_None)
  moreover have "inode_blocks (sb ab) + 1 = 9"
    using abyss_invD(1) [OF assms(1)] by (simp add: geometry_def)
  ultimately show ?thesis
    using root_find_file [OF assms(1,2)] root_block_of(2) [OF assms(1)] by (simp add: abyssfs_unlink_def)
qed

lemma abyssfs_unlink_some:
  assumes inv: "abyss_inv ab fs" and n: "file_name n" and k: "k < length fs" "snd (fs ! k) = n"
  shows "\<exists>ab'. abyssfs_unlink n ab = Inr (0, ab') \<and> abyss_inv ab' (take k fs @ drop (Suc k) fs) \<and>
    mode_of ab' (unat (fst (fs ! k))) = 0 \<and>
    (\<forall>j. used_block ab' j \<longleftrightarrow> used_block ab j \<and> (blk ab (unat (fst (fs ! k))) \<noteq> 0 \<longrightarrow> j \<noteq> blk ab (unat (fst (fs ! k))))) \<and>
    (\<forall>j < 512. j \<noteq> unat (fst (fs ! k)) \<longrightarrow> mode_of ab' j = mode_of ab j)"
proof -
  note d = abyss_invD [OF inv]
  let ?w = "fst (fs ! k)"
  define i where "i = unat ?w"
  define a where "a = release_inode ?w ab"
  note f = files_okD [OF d(3) nth_mem [OF k(1)]]
  have w: "?w = of_nat i"
    by (simp add: i_def)
  have own: "owner ab i" "i \<noteq> 0" "i < 512" "i \<noteq> 1"
    using f by (simp_all add: owner_def i_def)
  note ub = unlink_blocks_ok [OF d(6,1) own(1,2)]
  have a: "only_inode i ab a" "mode_of a i = 0" "geometry a"
    "\<And>j. used_block a j \<longleftrightarrow> used_block ab j \<and> (blk ab i \<noteq> 0 \<longrightarrow> j \<noteq> blk ab i)" "blocks_ok a"
    using release_inode_eq [OF d(1) own(3) ub(2)] ub(1) by (simp_all add: a_def w)
  have root: "root_dir a fs"
    using root_dir_inode [OF a(1) own(3) d(2)] .
  obtain m where m: "remove_entry ROOT_BLOCK (ROOT_BLOCK + dsize (dots @ take k fs)) (disk a) = Inr m"
    "root_dir (a\<lparr>disk := m\<rparr>) (take k fs @ drop (Suc k) fs)"
    "\<forall>b. b < ROOT_BLOCK \<or> ROOT_BLOCK + BLOCK_SIZE \<le> b \<longrightarrow> m b = disk a b"
    using root_dir_remove [OF root k(1)] by blast
  have low: "\<And>b. b < ROOT_BLOCK \<Longrightarrow> m b = disk a b"
    using m(3) by simp
  note fl = fields_root [OF low]
  have dist: "distinct (map snd fs)" "distinct (map fst fs)"
    using d(3) by (simp_all add: files_ok_def)
  have idx: "first_index (\<lambda>x. snd x = n) fs = Some k"
  proof (rule first_index_unique)
    show "snd (fs ! j) \<noteq> n" if "j < length fs" "j \<noteq> k" for j
      using nth_eq_iff_index_eq [OF dist(1), of j k] that k by simp
  qed (use k in simp_all)
  have e: "e_inode (disk ab) (ROOT_BLOCK + dsize (dots @ take k fs)) = ?w"
    using root_dir_entry [OF d(2), of "length dots + k"] k by (simp add: nth_append)
  have "skip_slashes n = n"
    using n by (cases n) (auto simp: file_name_def)
  moreover have "inode_blocks (sb ab) + 1 = 9"
    using d(1) by (simp add: geometry_def)
  ultimately have u: "abyssfs_unlink n ab = Inr (0, a\<lparr>disk := m\<rparr>)"
    using root_find_file [OF inv n] root_block_of(2) [OF inv] idx e m(1)
    by (simp add: abyssfs_unlink_def Let_def flip: a_def)
  let ?fs = "take k fs @ drop (Suc k) fs"
  have split: "fs = take k fs @ fs ! k # drop (Suc k) fs"
    using k(1) by (rule id_take_nth_drop)
  then have d': "distinct (map fst (take k fs @ fs ! k # drop (Suc k) fs))"
    "distinct (map snd (take k fs @ fs ! k # drop (Suc k) fs))"
    using dist by simp_all
  have "mode_of a (unat (fst x)) = mode_of ab (unat (fst x)) \<and> x \<in> set fs" if "x \<in> set ?fs" for x
  proof -
    have "fst x \<noteq> ?w"
      using d'(1) that by (auto simp: image_iff)
    then have "unat (fst x) \<noteq> i"
      by (simp add: i_def word_unat_eq_iff)
    then show ?thesis
      using only_inode_other(1) [OF a(1)] that by (auto dest: in_set_takeD in_set_dropD)
  qed
  then have "files_ok (a\<lparr>disk := m\<rparr>) ?fs"
    using d' files_okD [OF d(3)] fl(1) by (auto simp: files_ok_def)
  then have "abyss_inv (a\<lparr>disk := m\<rparr>) ?fs"
    using m(2) a d only_inode_other [OF a(1), of 1] own(4) fl [of 1] blocks_ok_root [OF low a(5)]
    by (simp add: abyss_inv_def)
  moreover have "mode_of (a\<lparr>disk := m\<rparr>) i = 0"
    using fl(1) own(3) a(2) by simp
  moreover have "used_block (a\<lparr>disk := m\<rparr>) j \<longleftrightarrow> used_block ab j \<and> (blk ab i \<noteq> 0 \<longrightarrow> j \<noteq> blk ab i)" for j
    using a(4) by (simp add: used_block_def)
  moreover have "mode_of (a\<lparr>disk := m\<rparr>) j = mode_of ab j" if "j < 512" "j \<noteq> i" for j
    using fl(1) [of j] only_inode_other(1) [OF a(1)] that by simp
  ultimately show ?thesis
    using u unfolding i_def by blast
qed

section \<open>The directory interface\<close>

definition root_cwd :: "char list option" where
  "root_cwd = Some (''/'' @ replicate 255 NUL)"

lemma at_root_cwd: "at_root root_cwd"
  by (simp add: at_root_def root_cwd_def cstring_def)

definition abyss_link :: "string \<Rightarrow> u64 \<times> abyss \<Rightarrow> (u64 \<times> abyss) option" where
  "abyss_link n s =
     (case abyssfs_create n root_cwd (fst s) (snd s) of
        Inr (Some _, h, ab) \<Rightarrow> Some (h, ab)
      | _ \<Rightarrow> None)"

definition abyss_remove :: "string \<Rightarrow> u64 \<times> abyss \<Rightarrow> (u64 \<times> abyss) option" where
  "abyss_remove n s =
     (case abyssfs_unlink n (snd s) of
        Inr (r, ab) \<Rightarrow> if r = 0 then Some (fst s, ab) else None
      | Inl _ \<Rightarrow> None)"

definition abyss_names :: "u64 \<times> abyss \<Rightarrow> string \<Rightarrow> u32 option" where
  "abyss_names s n = (if file_name n then abyss_look (snd s) n else None)"

definition abyss_room :: "string \<Rightarrow> u64 \<times> abyss \<Rightarrow> bool" where
  "abyss_room n s \<longleftrightarrow> (\<forall>fs. abyss_inv (snd s) fs \<longrightarrow> root_room fs n)"

lemma abyss_look_None:
  assumes "abyss_inv ab fs" and "file_name n"
  shows "abyss_look ab n = None \<longleftrightarrow> n \<notin> snd ` set fs"
  by (simp add: abyss_look_file [OF assms] map_of_eq_None_iff image_image)

lemma map_of_remove_nth:
  assumes "distinct (map snd fs)" and "k < length fs"
  shows "map_of (map prod.swap (take k fs @ drop (Suc k) fs)) = (map_of (map prod.swap fs))(snd (fs ! k) := None)"
proof -
  have split: "fs = take k fs @ fs ! k # drop (Suc k) fs"
    using assms(2) by (rule id_take_nth_drop)
  then have "distinct (map snd (take k fs @ fs ! k # drop (Suc k) fs))"
    using assms(1) by simp
  then have "map_of (map prod.swap (take k fs)) (snd (fs ! k)) = None"
    "map_of (map prod.swap (drop (Suc k) fs)) (snd (fs ! k)) = None"
    by (auto simp: map_of_eq_None_iff image_image)
  moreover have "map_of (map prod.swap fs) = map_of (map prod.swap (take k fs @ fs ! k # drop (Suc k) fs))"
    using split by metis
  ultimately show ?thesis
    by (simp del: append_take_drop_id) (auto simp: fun_eq_iff map_add_def split: option.splits)
qed

lemma abyss_names_eq: "abyss_inv (snd s) fs \<Longrightarrow> abyss_names s = map_of (map prod.swap fs)"
proof (rule ext)
  fix n
  assume inv: "abyss_inv (snd s) fs"
  have "map_of (map prod.swap fs) n = None" if "\<not> file_name n"
    using files_okD(1) [OF abyss_invD(3) [OF inv]] that by (force simp: map_of_eq_None_iff image_image)
  then show "abyss_names s n = map_of (map prod.swap fs) n"
    by (simp add: abyss_names_def abyss_look_file [OF inv])
qed

lemma abyss_link_some:
  assumes "\<exists>fs. abyss_inv (snd s) fs" and n: "file_name n" and "abyss_room n s"
    and none: "abyss_names s n = None" and l: "abyss_link n s = Some s'"
  shows "(\<exists>fs. abyss_inv (snd s') fs) \<and>
    abyss_names s' = (abyss_names s)(n \<mapsto> fst (alloc_inode (snd s)))"
proof -
  obtain fs where inv: "abyss_inv (snd s) fs" and room: "root_room fs n"
    using assms(1,3) by (auto simp: abyss_room_def)
  have m: "map_of (map prod.swap fs) n = None"
    using none by (simp add: abyss_names_eq [OF inv])
  then have n': "n \<notin> snd ` set fs"
    by (simp add: map_of_eq_None_iff image_image)
  obtain fl where c: "abyssfs_create n root_cwd (fst s) (snd s) = Inr (Some fl, fst s', snd s')"
    using l by (auto simp: abyss_link_def split: sum.splits option.splits)
  obtain w where w: "w = fst (alloc_inode (snd s))" "abyss_inv (snd s') (fs @ [(w, n)])"
    by (rule abyssfs_create_some [OF inv at_root_cwd n n' room c])
  show ?thesis
    using m w by (auto simp: abyss_names_eq [OF inv] abyss_names_eq [OF w(2)] map_add_def fun_eq_iff
        split: option.splits)
qed

lemma abyss_remove_cases:
  assumes inv: "abyss_inv (snd s) fs" and n: "file_name n"
  shows "case first_index (\<lambda>x. snd x = n) fs of
      None \<Rightarrow> abyss_remove n s = None \<and> abyss_names s n = None
    | Some k \<Rightarrow> \<exists>ab'. abyss_remove n s = Some (fst s, ab') \<and> abyss_inv ab' (take k fs @ drop (Suc k) fs) \<and>
        abyss_names (fst s, ab') = (abyss_names s)(n := None) \<and> abyss_names s n \<noteq> None"
proof (cases "first_index (\<lambda>x. snd x = n) fs")
  case None
  then have "n \<notin> snd ` set fs"
    by (auto simp: first_index_None)
  then show ?thesis
    using abyssfs_unlink_none [OF inv n] None
    by (simp add: abyss_remove_def abyss_names_eq [OF inv] map_of_eq_None_iff image_image)
next
  case (Some k)
  then have k: "k < length fs" "snd (fs ! k) = n"
    using first_index_SomeD by auto
  obtain ab' where u: "abyssfs_unlink n (snd s) = Inr (0, ab')" "abyss_inv ab' (take k fs @ drop (Suc k) fs)"
    using abyssfs_unlink_some [OF inv n k] by blast
  have "distinct (map snd fs)"
    using abyss_invD(3) [OF inv] by (simp add: files_ok_def)
  then have "abyss_names (fst s, ab') = (abyss_names s)(n := None)"
    using abyss_names_eq [of "(fst s, ab')"] u(2) map_of_remove_nth [of fs k] k
    by (simp add: abyss_names_eq [OF inv])
  moreover have "abyss_names s n \<noteq> None"
    using Some by (simp add: abyss_names_eq [OF inv] map_of_first_index)
  ultimately show ?thesis
    using u Some by (simp add: abyss_remove_def)
qed

interpretation abyss_root: directory abyss_names abyss_link abyss_remove "\<lambda>_ s. fst (alloc_inode (snd s))"
  abyss_room "\<lambda>s. \<exists>fs. abyss_inv (snd s) fs" file_name
proof (unfold_locales, goal_cases)
  case (1 s n s')
  then show ?case by (intro abyss_link_some)
next
  case (2 s n)
  then obtain fs where "abyss_inv (snd s) fs"
    by blast
  then show ?case
    using abyss_remove_cases [of s fs n] 2 by (auto split: option.splits)
next
  case (3 s n s')
  then obtain fs where "abyss_inv (snd s) fs"
    by blast
  then show ?case
    using abyss_remove_cases [of s fs n] 3 by (auto split: option.splits)
qed

section \<open>Contents\<close>

text \<open>The bytes that belong to an inode, and what an operation on another one may not touch.\<close>

definition contents :: "abyss \<Rightarrow> nat \<Rightarrow> char list" where
  "contents ab n = mem_slice (disk ab) (4096 * blk ab n) (size_of ab n)"

definition same_file :: "abyss \<Rightarrow> abyss \<Rightarrow> nat \<Rightarrow> bool" where
  "same_file ab ab' m \<longleftrightarrow> mode_of ab' m = mode_of ab m \<and> size_of ab' m = size_of ab m \<and> blk ab' m = blk ab m \<and>
     (blk ab m = 0 \<or> mem_slice (disk ab') (4096 * blk ab m) BLOCK_SIZE = mem_slice (disk ab) (4096 * blk ab m) BLOCK_SIZE)"

lemma same_file_trans: "same_file ab ab' m \<Longrightarrow> same_file ab' ab'' m \<Longrightarrow> same_file ab ab'' m"
  by (auto simp: same_file_def)

lemma same_file_inode:
  assumes "only_inode n ab ab'" and "n < 512" and "m \<noteq> n" and "blk ab m = 0 \<or> 9 \<le> blk ab m"
  shows "same_file ab ab' m"
proof -
  have "mem_slice (disk ab') (4096 * blk ab m) BLOCK_SIZE = mem_slice (disk ab) (4096 * blk ab m) BLOCK_SIZE"
    if "9 \<le> blk ab m"
    using that assms(1) inode_region [OF assms(2)] by (intro mem_slice_cong) (simp add: only_inode_def)
  then show ?thesis
    using only_inode_other [OF assms(1,3)] assms(4) by (auto simp: same_file_def)
qed

lemma inv_data:
  assumes inv: "abyss_inv ab fs" and m: "\<And>a. a < ROOT_BLOCK + BLOCK_SIZE \<Longrightarrow> m a = disk ab a"
  shows "abyss_inv (ab\<lparr>disk := m\<rparr>) fs"
proof -
  note d = abyss_invD [OF inv]
  have low: "\<And>a. a < ROOT_BLOCK \<Longrightarrow> m a = disk ab a"
    using m by simp
  note f = fields_root [OF low]
  have "root_dir (ab\<lparr>disk := m\<rparr>) fs"
    unfolding root_dir_def by (rule dir_ok_cong [OF d(2) [unfolded root_dir_def]]) (simp add: m)
  moreover have "files_ok (ab\<lparr>disk := m\<rparr>) fs"
    using d(3) f(1) by (auto simp: files_ok_def)
  ultimately show ?thesis
    using d f [of 1] blocks_ok_root [OF low d(6)] by (simp add: abyss_inv_def)
qed

text \<open>Giving a block to an inode that has none.\<close>

lemma give_block:
  fixes fb :: u32
  assumes inv: "abyss_inv ab fs" and n: "owner ab n" "n \<noteq> 1" "blk ab n = 0"
    and i: "9 \<le> i" "i < 64" "\<not> used_block ab i"
  defines "ab' \<equiv> set_blocks (inode_addr n) (of_nat i)
      (ab\<lparr>block_bitmap := block_bitmap ab OR 2 ^ i, sb := (sb ab)\<lparr>free_blocks := fb\<rparr>\<rparr>)"
  shows "abyss_inv ab' fs" "blk ab' n = i" "only_inode n ab ab'" "mode_of ab' n = mode_of ab n"
    "size_of ab' n = size_of ab n"
proof -
  note d = abyss_invD [OF inv]
  let ?a = "ab\<lparr>block_bitmap := block_bitmap ab OR 2 ^ i, sb := (sb ab)\<lparr>free_blocks := fb\<rparr>\<rparr>"
  have lt: "n < 512"
    using n(1) by (simp add: owner_def)
  show b: "blk ab' n = i"
    using i(2) by (simp add: ab'_def unat_of_nat)
  show oi: "only_inode n ab ab'"
    unfolding ab'_def by (rule only_inode_trans [OF only_inode_sets(5) only_inode_sets(3)])
  show mode: "mode_of ab' n = mode_of ab n" and "size_of ab' n = size_of ab n"
    unfolding ab'_def by simp_all (simp_all add: mode_of_def i_mode_def size_of_def i_size_def)
  have own: "owner ab' m = owner ab m" for m
    using only_inode_other(1) [OF oi] mode by (cases "m = n") (simp_all add: owner_def)
  have used: "used_block ab' k \<longleftrightarrow> used_block ab k \<or> k = i" for k
    using i(2) by (simp add: used_block_def ab'_def bit_set)
  have other: "blk ab' m = blk ab m" if "m \<noteq> n" for m
    using only_inode_other(3) [OF oi that] .
  have fresh: "blk ab m \<noteq> i" if "owner ab m" for m
    using blocks_okD(3) [OF d(6) that] i by (cases "blk ab m = 0") auto
  have "blocks_ok ab'"
    unfolding blocks_ok_def own used
  proof (intro conjI allI impI)
    fix m assume m: "owner ab m \<and> blk ab' m \<noteq> 0"
    show "9 \<le> blk ab' m" "blk ab' m < 64" "used_block ab (blk ab' m) \<or> blk ab' m = i"
      using blocks_okD [OF d(6)] m other [of m] b i by (cases "m = n"; force)+
  next
    fix m k assume m: "owner ab m \<and> owner ab k \<and> blk ab' m \<noteq> 0 \<and> blk ab' m = blk ab' k"
    show "m = k"
      using m b other fresh blocks_okD(4) [OF d(6)] by (cases "m = n"; cases "k = n"; metis)
  qed
  moreover have "geometry ab'"
    using d(1) by (simp add: ab'_def geometry_def)
  ultimately show "abyss_inv ab' fs"
    using inv_only_inode [OF inv oi lt _ n(2)] mode by simp
qed

lemma inv_set_size:
  assumes inv: "abyss_inv ab fs" and n: "owner ab n" "n \<noteq> 1"
  shows "abyss_inv (set_size (inode_addr n) v ab) fs"
proof -
  let ?a = "set_size (inode_addr n) v ab"
  note d = abyss_invD [OF inv]
  have oi: "only_inode n ab ?a" and lt: "n < 512"
    using n(1) by (simp_all add: only_inode_sets owner_def)
  have f: "mode_of ?a m = mode_of ab m" "blk ?a m = blk ab m" for m
    using only_inode_other [OF oi, of m] by (cases "m = n"; simp)+
  have "blocks_ok ?a"
    using d(6) unfolding blocks_ok_def owner_def f used_block_def set_fields_other .
  then show ?thesis
    using inv_only_inode [OF inv oi lt _ n(2)] d(1) f by simp
qed

text \<open>What \<open>abyssfs_write\<close> does: always from the start of the block, and adding to the size.\<close>

definition abyss_count :: "u64 \<Rightarrow> nat" where
  "abyss_count cnt = min (unat cnt) BLOCK_SIZE"

lemma store_block:
  assumes inv: "abyss_inv ab fs" and n: "owner ab n" "n \<noteq> 1" "blk ab n \<noteq> 0" and k: "k \<le> BLOCK_SIZE" "k \<le> length buf"
  defines "ab' \<equiv> ab\<lparr>disk := memcpy (disk ab) (4096 * blk ab n) (\<lambda>i. buf ! i) 0 k\<rparr>"
  shows "abyss_inv ab' fs" "\<And>m. m < 512 \<Longrightarrow> mode_of ab' m = mode_of ab m \<and> size_of ab' m = size_of ab m \<and> blk ab' m = blk ab m"
    "mem_slice (disk ab') (4096 * blk ab n) k = take k buf"
    "\<And>m. owner ab m \<Longrightarrow> m \<noteq> n \<Longrightarrow> same_file ab ab' m"
proof -
  note d = abyss_invD [OF inv]
  have b: "9 \<le> blk ab n" "blk ab n < 64"
    using blocks_okD [OF d(6) n(1,3)] by simp_all
  have "blk ab n \<noteq> 9"
    using blocks_okD(4) [OF d(6) n(1,3), of 1] d(4,5) n(2) by (auto simp: owner_def)
  then have ten: "10 \<le> blk ab n"
    using b by simp
  have m: "disk ab' a = (if 4096 * blk ab n \<le> a \<and> a < 4096 * blk ab n + k then buf ! (a - 4096 * blk ab n) else disk ab a)" for a
    by (simp add: ab'_def memcpy_eq)
  show "abyss_inv ab' fs"
    unfolding ab'_def by (rule inv_data [OF inv]) (use ten in \<open>simp add: memcpy_eq\<close>)
  show f: "mode_of ab' m = mode_of ab m \<and> size_of ab' m = size_of ab m \<and> blk ab' m = blk ab m" if "m < 512" for m
    using inode_region [OF that] ten by (intro conjI fields_cong) (simp_all add: m)
  show "mem_slice (disk ab') (4096 * blk ab n) k = take k buf"
    using k(2) by (intro nth_equalityI) (simp_all add: m)
  show "same_file ab ab' j" if j: "owner ab j" "j \<noteq> n" for j
  proof -
    have "blk ab j \<noteq> blk ab n"
      using blocks_okD(4) [OF d(6) n(1,3) j(1)] j(2) by auto
    then have "mem_slice (disk ab') (4096 * blk ab j) BLOCK_SIZE = mem_slice (disk ab) (4096 * blk ab j) BLOCK_SIZE"
      using k(1) by (intro mem_slice_cong) (auto simp: m neq_iff)
    then show ?thesis
      using f [of j] j(1) by (simp add: same_file_def owner_def)
  qed
qed

text \<open>A write to a file, seen as giving a block, storing and adding to the size.\<close>

lemma mult_block: "b < 64 \<Longrightarrow> unat (w :: u32) = b \<Longrightarrow> unat (w * 4096) = 4096 * b"
  by (simp add: unat_word_ariths)

lemma abyssfs_write_step:
  assumes inv: "abyss_inv ab fs" and fl: "abyss_inode_num fl = Inr (of_nat n)" and n: "owner ab n" "n \<noteq> 1"
    and b: "blk ab n \<noteq> 0" and k: "abyss_count cnt \<le> length buf"
  defines "k \<equiv> abyss_count cnt"
  defines "ab1 \<equiv> ab\<lparr>disk := memcpy (disk ab) (4096 * blk ab n) (\<lambda>i. buf ! i) 0 k\<rparr>"
  shows "abyssfs_write fl buf cnt ab =
    Inr (int k, if k = 0 then ab1 else set_size (inode_addr n) (i_size ab (inode_addr n) + of_nat k) ab1)"
proof -
  note d = abyss_invD [OF inv]
  have lt: "n < 512"
    using n(1) by (simp add: owner_def)
  have bl: "blk ab n < 64"
    using blocks_okD(2) [OF d(6) n(1) b] .
  define w where "w = (if cnt > 4096 then 4096 else cnt)"
  have w: "unat w = k"
    by (auto simp: w_def k_def abyss_count_def word_less_nat_alt)
  have k4: "k \<le> 4096"
    by (simp add: k_def abyss_count_def)
  have kb: "k \<le> length buf"
    using k by (simp add: k_def)
  have ss: "ssize w = int k"
    using w k4 by (subst ssize_small) simp_all
  have z: "i_blocks ab (inode_addr n) \<noteq> 0" "unat (i_blocks ab (inode_addr n) * 4096) = 4096 * blk ab n"
    using b mult_block [OF bl] by (auto simp: blk_def)
  have "write_to_blocks (inode_addr n) buf cnt ab = Inr (w, ab1)"
    using z k4 bl kb
    by (simp only: write_to_blocks_def Let_def of_nat_numeral flip: w_def) (simp add: w ab1_def)
  moreover have "i_size ab1 (inode_addr n) = i_size ab (inode_addr n)"
    using store_block(2) [OF inv n b, of k buf n] k4 kb lt
    by (simp add: ab1_def size_of_def word_unat_eq_iff)
  moreover have "(ucast w :: u32) = of_nat k" "0 < w \<longleftrightarrow> k \<noteq> 0"
    using w by (auto simp: unat_eq_0 word_gt_0 simp flip: w)
  ultimately show ?thesis
    using get_inode_addr [OF d(1) lt] ss by (simp add: abyssfs_write_def fl)
qed

lemma abyssfs_write_inv:
  assumes inv: "abyss_inv ab fs" and fl: "abyss_inode_num fl = Inr (of_nat n)" and n: "owner ab n" "n \<noteq> 1"
    and b: "blk ab n \<noteq> 0" and k: "abyss_count cnt \<le> length buf"
  obtains ab' where "abyssfs_write fl buf cnt ab = Inr (int (abyss_count cnt), ab')" "abyss_inv ab' fs"
    "blk ab' n = blk ab n" "mode_of ab' n = mode_of ab n"
    "size_of ab' n = (size_of ab n + abyss_count cnt) mod 2 ^ 32"
    "mem_slice (disk ab') (4096 * blk ab n) (abyss_count cnt) = take (abyss_count cnt) buf"
    "\<forall>m. owner ab m \<and> m \<noteq> n \<longrightarrow> same_file ab ab' m"
proof -
  let ?k = "abyss_count cnt"
  define ab1 where "ab1 = ab\<lparr>disk := memcpy (disk ab) (4096 * blk ab n) (\<lambda>i. buf ! i) 0 ?k\<rparr>"
  define ab' where "ab' = (if ?k = 0 then ab1 else set_size (inode_addr n) (i_size ab (inode_addr n) + of_nat ?k) ab1)"
  have lt: "n < 512"
    using n(1) by (simp add: owner_def)
  have k4: "?k \<le> BLOCK_SIZE"
    by (simp add: abyss_count_def)
  note st = store_block [OF inv n b k4 k, folded ab1_def]
  have own: "owner ab1 n"
    using st(2) [OF lt] n(1) by (simp add: owner_def)
  have oi: "only_inode n ab1 ab'"
    by (simp add: ab'_def only_inode_sets) (simp add: only_inode_def)
  have bk: "9 \<le> blk ab m" if "owner ab m" "blk ab m \<noteq> 0" for m
    using blocks_okD(1) [OF abyss_invD(6) [OF inv] that] .
  have "abyss_inv ab' fs"
    unfolding ab'_def using st(1) inv_set_size [OF st(1) own n(2)] by simp
  moreover have "blk ab' n = blk ab n" "mode_of ab' n = mode_of ab n"
    using st(2) [OF lt] by (simp_all add: ab'_def)
  moreover have "size_of ab' n = (size_of ab n + ?k) mod 2 ^ 32"
  proof (cases "?k = 0")
    case True
    then show ?thesis
      using st(2) [OF lt] unat_less_32 [of "i_size ab (inode_addr n)"] by (simp add: ab'_def size_of_def)
  next
    case False
    have "unat (of_nat ?k :: u32) = ?k"
      using k4 by (simp add: unat_of_nat)
    then show ?thesis
      using False by (simp add: ab'_def unat_word_ariths) (simp add: size_of_def)
  qed
  moreover have "mem_slice (disk ab') (4096 * blk ab n) ?k = take ?k buf"
  proof -
    have "mem_slice (disk ab') (4096 * blk ab n) ?k = mem_slice (disk ab1) (4096 * blk ab n) ?k"
      using oi inode_region [OF lt] bk [OF n(1) b] by (intro mem_slice_cong) (simp add: only_inode_def)
    then show ?thesis
      using st(3) by simp
  qed
  moreover have "same_file ab ab' m" if m: "owner ab m" "m \<noteq> n" for m
  proof -
    have "same_file ab1 ab' m"
      using st(2) [of m] m bk [OF m(1)] by (intro same_file_inode [OF oi lt m(2)]) (auto simp: owner_def)
    then show ?thesis
      using same_file_trans [OF st(4) [OF m]] by blast
  qed
  ultimately show thesis
    using that abyssfs_write_step [OF inv fl n b k, folded ab1_def] unfolding ab'_def by blast
qed

text \<open>The first write to a file is a write after giving it the lowest free block.\<close>

lemma abyssfs_write_first:
  assumes inv: "abyss_inv ab fs" and fl: "abyss_inode_num fl = Inr (of_nat n)" and n: "owner ab n" "n \<noteq> 1"
    and b: "blk ab n = 0" and free: "9 \<le> j" "j < 64" "\<not> used_block ab j"
  obtains ab1 where "abyssfs_write fl buf cnt ab = abyssfs_write fl buf cnt ab1" "abyss_inv ab1 fs"
    "9 \<le> blk ab1 n" "blk ab1 n < 64" "\<not> used_block ab (blk ab1 n)"
    "\<forall>i. 9 \<le> i \<and> i < blk ab1 n \<longrightarrow> used_block ab i"
    "only_inode n ab ab1" "mode_of ab1 n = mode_of ab n" "size_of ab1 n = size_of ab n"
proof -
  note d = abyss_invD [OF inv]
  have lt: "n < 512"
    using n(1) by (simp add: owner_def)
  obtain w ab0 where w: "alloc_block ab = (w, ab0)"
    by (cases "alloc_block ab")
  have w0: "w \<noteq> 0"
    using alloc_block_none [OF d(1)] free w by auto
  obtain i where i: "9 \<le> i" "i < 64" "w = of_nat i" "unat w = i" "\<not> used_block ab i"
    "\<forall>j. 9 \<le> j \<and> j < i \<longrightarrow> used_block ab j"
    "ab0 = ab\<lparr>block_bitmap := block_bitmap ab OR 2 ^ i, sb := (sb ab)\<lparr>free_blocks := free_blocks (sb ab) - 1\<rparr>\<rparr>"
    by (rule alloc_block_some [OF d(1) w w0])
  let ?ab1 = "set_blocks (inode_addr n) w ab0"
  note g = give_block [OF inv n b i(1,2,5), of "free_blocks (sb ab) - 1", folded i(7) i(3)]
  have z: "i_blocks ab (inode_addr n) = 0" "i_blocks ?ab1 (inode_addr n) = w"
    using b by (simp_all add: blk_def unat_eq_0)
  have "write_to_blocks (inode_addr n) buf cnt ab = write_to_blocks (inode_addr n) buf cnt ?ab1"
    using z w w0 by (simp add: write_to_blocks_def)
  then have "abyssfs_write fl buf cnt ab = abyssfs_write fl buf cnt ?ab1"
    using get_inode_addr [OF d(1) lt] get_inode_addr [OF abyss_invD(1) [OF g(1)] lt]
    by (simp add: abyssfs_write_def fl)
  then show thesis
    using that g i by simp
qed

lemma length_contents [simp]: "length (contents ab n) = size_of ab n"
  by (simp add: contents_def)

lemma abyssfs_read_eq:
  assumes g: "geometry ab" and fl: "abyss_inode_num fl = Inr (of_nat n)" and n: "n < 512"
    and b: "blk ab n < 64" and sz: "size_of ab n \<le> BLOCK_SIZE"
    and nowrap: "unat (f_pos fl) + unat cnt < 2 ^ 64"
  defines "bs \<equiv> take (unat cnt) (drop (unat (f_pos fl)) (contents ab n))"
  shows "abyssfs_read fl cnt ab = Inr (int (length bs), bs, fl\<lparr>f_pos := f_pos fl + of_nat (length bs)\<rparr>)"
proof -
  define size where "size = (ucast (i_size ab (inode_addr n)) :: u64)"
  have us: "unat size = size_of ab n"
    by (simp add: size_def size_of_def unat_ucast_up)
  have addr: "unat (i_blocks ab (inode_addr n) * 4096) = 4096 * blk ab n"
    using mult_block [OF b] by (simp add: blk_def)
  show ?thesis
  proof (cases "f_pos fl \<ge> size")
    case True
    then have "bs = []"
      using us by (simp add: bs_def word_le_nat_alt)
    then show ?thesis
      using True get_inode_addr [OF g n] by (simp add: abyssfs_read_def fl Let_def flip: size_def)
  next
    case False
    define k where "k = (if f_pos fl + cnt > size then size - f_pos fl else cnt)"
    have lt: "unat (f_pos fl) < size_of ab n"
      using False us by (simp add: word_le_nat_alt)
    have k: "unat k = min (unat cnt) (size_of ab n - unat (f_pos fl))"
      using lt us unat_plus_64 [OF nowrap] unat_sub [of "f_pos fl" size]
      by (auto simp: k_def word_less_nat_alt word_le_nat_alt)
    have "ssize k = int (unat k)"
      using k sz by (intro ssize_small) simp
    moreover have "length bs = unat k"
      using k by (simp add: bs_def)
    moreover have "bs = mem_slice (disk ab) (4096 * blk ab n + unat (f_pos fl)) (unat k)"
    proof (rule nth_equalityI)
      fix i assume "i < length bs"
      then have "unat (f_pos fl) + i < size_of ab n" "i < unat k"
        using k by (auto simp: bs_def)
      then show "bs ! i = mem_slice (disk ab) (4096 * blk ab n + unat (f_pos fl)) (unat k) ! i"
        using k by (simp add: bs_def contents_def add.assoc)
    qed (use k in \<open>simp add: bs_def\<close>)
    moreover have "4096 * blk ab n + unat (f_pos fl) + unat k \<le> DISK_SIZE"
      using k lt sz b by simp
    ultimately show ?thesis
      using False get_inode_addr [OF g n] addr
      by (simp add: abyssfs_read_def fl Let_def flip: size_def k_def)
  qed
qed

section \<open>Initialisation\<close>

lemma write_dots_ok:
  assumes "get8 m (b + 261) = 0"
  shows "dir_ok (write_dots m b ino) b [(ino, ''.'')] (1, ''..'')"
    and "\<And>a. a < b \<or> b + 17 \<le> a \<Longrightarrow> write_dots m b ino a = m a"
proof -
  have r: "entry_size 1 = 8"
    by (simp add: entry_size_def round_up_def)
  have u: "(4088 :: u8) = 248"
    by simp
  let ?m1 = "write_entry m b ino 1 8 ''.''"
  have w: "write_dots m b ino = write_entry ?m1 (b + 8) 1 2 248 ''..''"
    by (simp add: write_dots_def r u)
  have n: "name_ok ''.''" "name_ok ''..''"
    by (simp_all add: name_ok_def)
  have e: "esz ''.'' = 8" "esz ''..'' = 12"
    by (simp_all add: esz_eq)
  show other: "write_dots m b ino a = m a" if "a < b \<or> b + 17 \<le> a" for a
    using that unfolding w by (elim disjE) (simp_all add: write_entry_other)
  have one: "entry_at ?m1 b (ino, ''.'')" "rec_at ?m1 b = 8"
    using write_entry_at [OF n(1), of m b ino 8] by simp_all
  have same: "write_dots m b ino a = ?m1 a" if "a < b + 8" for a
    unfolding w using that by (simp add: write_entry_other)
  have "entry_at (write_dots m b ino) b (ino, ''.'')"
    by (rule entry_at_cong [OF one(1)]) (simp add: e same)
  moreover have "rec_at (write_dots m b ino) b = 8"
    using rec_at_cong [of "write_dots m b ino" b ?m1] one(2) by (simp add: same)
  moreover have "entry_at (write_dots m b ino) (b + 8) (1, ''..'')" "rec_at (write_dots m b ino) (b + 8) = 248"
    unfolding w using write_entry_at [OF n(2), of ?m1 "b + 8" 1 248] by simp_all
  moreover have "rec_at (write_dots m b ino) (b + 256) = 0"
    using assms other [of "b + 261"] by (simp add: rec_at_def e_rec_len_def get8_def add.commute)
  ultimately show "dir_ok (write_dots m b ino) b [(ino, ''.'')] (1, ''..'')"
    by (simp add: dir_ok_def Let_def e add.commute [of b 256])
qed

lemma fold_clear_inodes:
  assumes "geometry ab" and "\<forall>a < DISK_SIZE. disk ab a = NUL" and "\<forall>i \<in> set is. i < 512"
  shows "\<exists>m. fold clear_inode is ab = ab\<lparr>disk := m\<rparr> \<and> (\<forall>a < DISK_SIZE. m a = NUL)"
  using assms
proof (induction "is" arbitrary: ab)
  case Nil
  then show ?case by (intro exI [of _ "disk ab"]) simp
next
  case (Cons i "is")
  let ?a = "ab\<lparr>disk := memset (disk ab) (inode_addr i) 0 64\<rparr>"
  have "clear_inode i ab = ?a"
    using Cons.prems by (simp add: clear_inode_def get_inode_addr)
  moreover have "geometry ?a" "\<forall>a < DISK_SIZE. disk ?a a = NUL" "\<forall>i \<in> set is. i < 512"
    using Cons.prems by (simp_all add: memset_byte)
  then obtain m where "fold clear_inode is ?a = ?a\<lparr>disk := m\<rparr>" "\<forall>a < DISK_SIZE. m a = NUL"
    using Cons.IH [of ?a] by blast
  ultimately show ?case
    by (intro exI [of _ m]) simp
qed

text \<open>The root inode and its directory in an image of zeros.\<close>

lemma init_root_ok:
  assumes g: "geometry ab" and z: "\<forall>a < DISK_SIZE. disk ab a = NUL"
  obtains m where "init_root ab = ab\<lparr>disk := m\<rparr>" "root_dir (ab\<lparr>disk := m\<rparr>) []"
    "mode_of (ab\<lparr>disk := m\<rparr>) 1 = 0x4000" "blk (ab\<lparr>disk := m\<rparr>) 1 = 9"
    "\<forall>n < 512. n \<noteq> 1 \<longrightarrow> mode_of (ab\<lparr>disk := m\<rparr>) n = 0 \<and> blk (ab\<lparr>disk := m\<rparr>) n = 0 \<and> size_of (ab\<lparr>disk := m\<rparr>) n = 0"
    "\<forall>a < DISK_SIZE. 40960 \<le> a \<longrightarrow> m a = NUL"
proof -
  define a4 where "a4 = set_blocks (inode_addr 1) 9 (set_size (inode_addr 1) 4096 (set_mode (inode_addr 1) 0x4000 ab))"
  have g4: "geometry a4"
    using g by (simp add: a4_def)
  have oi: "only_inode 1 ab a4"
    unfolding a4_def
    by (rule only_inode_trans [OF only_inode_trans [OF only_inode_sets(1) only_inode_sets(2)] only_inode_sets(3)])
  define m where "m = write_dots (disk a4) ROOT_BLOCK 1"
  have a4m: "a4\<lparr>disk := m\<rparr> = ab\<lparr>disk := m\<rparr>"
    by (simp add: a4_def set_mode_def set_size_def set_blocks_def)
  have root: "get_inode ab 1 = Some (inode_addr 1)" "get_block a4 9 = Some ROOT_BLOCK" "inode_blocks (sb ab) = 8"
    using get_inode_1 [OF g] get_block_geometry [OF g4, of 9] g by (simp_all add: geometry_def)
  have "i_blocks a4 (inode_addr 1) = 9"
    by (simp add: a4_def)
  then have init: "init_root ab = ab\<lparr>disk := m\<rparr>"
  proof -
    have "inode_blocks (sb ab) + 1 = 9"
      using root(3) by simp
    then have "init_root ab = (case get_block a4 (i_blocks a4 (inode_addr 1)) of None \<Rightarrow> a4
        | Some b \<Rightarrow> a4\<lparr>disk := write_dots (disk a4) b 1\<rparr>)"
      by (simp only: init_root_def root(1) option.case Let_def a4_def of_nat_numeral)
    then show ?thesis
      using root(2) a4m \<open>i_blocks a4 (inode_addr 1) = 9\<close> by (simp add: m_def)
  qed
  have high: "disk a4 a = NUL" if "ROOT_BLOCK \<le> a" "a < DISK_SIZE" for a
    using oi z that by (simp add: only_inode_def inode_addr_def)
  have "get8 (disk a4) (ROOT_BLOCK + 261) = 0"
    using high by (simp add: get8_def)
  note dots = write_dots_ok [OF this, where ino = 1, folded m_def]
  have low: "m a = disk a4 a" if "a < ROOT_BLOCK" for a
    using dots(2) that by blast
  have f: "mode_of (ab\<lparr>disk := m\<rparr>) n = mode_of a4 n" "size_of (ab\<lparr>disk := m\<rparr>) n = size_of a4 n"
    "blk (ab\<lparr>disk := m\<rparr>) n = blk a4 n" if "n < 512" for n
    using fields_root [OF low that] a4m by simp_all
  have zero: "mode_of ab n = 0 \<and> blk ab n = 0 \<and> size_of ab n = 0" if "n < 512" for n
  proof -
    have "get32 (disk ab) (inode_addr n + k) = 0" if "k \<le> 8" for k
      using z inode_region [OF \<open>n < 512\<close>] that by (intro get32_zero) simp
    from this [of 0] this [of 4] this [of 8] show ?thesis
      by (simp add: mode_of_def blk_def size_of_def i_mode_def i_blocks_def i_size_def)
  qed
  have "root_dir (ab\<lparr>disk := m\<rparr>) []"
    by (rule root_dirI [of _ "[(1, ''.'')]" "(1, ''..'')"]) (simp_all add: dots_def dots(1))
  moreover have "mode_of a4 1 = 0x4000" "blk a4 1 = 9"
    by (simp_all add: a4_def)
  ultimately show thesis
    using that init f zero only_inode_other [OF oi] dots(2) high by simp
qed

text \<open>The image after \<open>abyssfs_init\<close>, whatever the heap held before.\<close>

lemma abyssfs_init_inv:
  assumes "\<not> abyssfs_initialized ab" and "kalloc 262144 h = (Some p, h')"
  obtains ab' where "abyssfs_init h ab = (h', ab')" "abyss_inv ab' []" "abyssfs_initialized ab'"
    "free_blocks (sb ab') = 55" "\<forall>i < 64. used_block ab' i \<longleftrightarrow> i \<le> 9"
    "\<forall>n < 512. n \<noteq> 1 \<longrightarrow> mode_of ab' n = 0 \<and> blk ab' n = 0 \<and> size_of ab' n = 0"
    "\<forall>a < DISK_SIZE. 40960 \<le> a \<longrightarrow> disk ab' a = NUL"
proof -
  define ab1 where "ab1 = init_super p ab"
  have g1: "geometry ab1" and z1: "\<forall>a < DISK_SIZE. disk ab1 a = NUL" and f1: "free_blocks (sb ab1) = 55"
    by (simp_all add: ab1_def init_super_def geometry_def memset_byte)
  obtain m where m: "fold clear_inode [0..<8] ab1 = ab1\<lparr>disk := m\<rparr>" "\<forall>a < DISK_SIZE. m a = NUL"
    using fold_clear_inodes [OF g1 z1, of "[0..<8]"] by auto
  define bm :: u64 where "bm = mask 9"
  define ab2 where "ab2 = ab1\<lparr>disk := m, block_bitmap := bm\<rparr>"
  have bit: "init_bitmap (ab1\<lparr>disk := m\<rparr>) = ab2"
  proof -
    have "fold (\<lambda>i w. w OR push_bit i 1) [0..<9] (0 :: u64) = mask 9"
      by (simp add: eval_nat_numeral mask_eq_exp_minus_1)
    then show ?thesis
      using g1 by (simp add: init_bitmap_def ab2_def bm_def geometry_def)
  qed
  have g2: "geometry ab2" and z2: "\<forall>a < DISK_SIZE. disk ab2 a = NUL"
    using g1 m(2) by (simp_all add: ab2_def)
  obtain m' where r: "init_root ab2 = ab2\<lparr>disk := m'\<rparr>" "root_dir (ab2\<lparr>disk := m'\<rparr>) []"
    "mode_of (ab2\<lparr>disk := m'\<rparr>) 1 = 0x4000" "blk (ab2\<lparr>disk := m'\<rparr>) 1 = 9"
    "\<forall>n < 512. n \<noteq> 1 \<longrightarrow> mode_of (ab2\<lparr>disk := m'\<rparr>) n = 0 \<and> blk (ab2\<lparr>disk := m'\<rparr>) n = 0 \<and>
       size_of (ab2\<lparr>disk := m'\<rparr>) n = 0"
    "\<forall>a < DISK_SIZE. 40960 \<le> a \<longrightarrow> m' a = NUL"
    by (rule init_root_ok [OF g2 z2])
  define ab' where "ab' = ab2\<lparr>disk := m', block_bitmap := bm OR push_bit 9 1, abyssfs_initialized := True\<rparr>"
  have same: "mode_of ab' n = mode_of (ab2\<lparr>disk := m'\<rparr>) n" "blk ab' n = blk (ab2\<lparr>disk := m'\<rparr>) n"
    "size_of ab' n = size_of (ab2\<lparr>disk := m'\<rparr>) n" "root_dir ab' [] = root_dir (ab2\<lparr>disk := m'\<rparr>) []" for n
    by (simp_all add: ab'_def mode_of_def blk_def size_of_def i_mode_def i_blocks_def i_size_def root_dir_def)
  have sb: "inode_blocks (sb ab1) = 8" "inode_blocks (sb ab2) = 8" "block_bitmap ab2 = bm" "sb ab2 = sb ab1"
    using g1 by (simp_all add: geometry_def ab2_def)
  have init: "abyssfs_init h ab = (h', ab')"
    using assms m(1) bit r(1) sb
    by (simp add: abyssfs_init_def Let_def ab'_def flip: ab1_def del: fold_simps upt_rec_numeral)
  have used: "\<forall>i < 64. used_block ab' i \<longleftrightarrow> i \<le> 9"
  proof -
    have "bm OR push_bit 9 1 = mask 10"
      by (simp add: bm_def mask_eq_exp_minus_1)
    then show ?thesis
      by (auto simp: used_block_def ab'_def bit_mask_iff)
  qed
  have own: "n = 0 \<or> n = 1" if "owner ab' n" for n
    using that same r(5) by (auto simp: owner_def)
  have "blk ab' 0 = 0" "blk ab' 1 = 9"
    using same r(4,5) by simp_all
  then have "blocks_ok ab'"
    using own used unfolding blocks_ok_def by (metis le_refl numeral_less_iff semiring_norm(76,78,81) zero_neq_numeral)
  moreover have "geometry ab'"
    using g2 by (simp add: ab'_def geometry_def)
  ultimately have "abyss_inv ab' []"
    using r same by (simp add: abyss_inv_def files_ok_def)
  then show thesis
    using that [of ab'] init used same r(5,6) f1 sb(4) by (simp add: ab'_def)
qed

end
