(* ===== verification/Abyss_Theorems.thy ===== *)
theory Abyss_Theorems
  imports Abyss_Spec
begin

text \<open>
  The operations of \<open>abyssfs.c\<close> on an initialised file system: directories, the states that any
  sequence of operations reaches, and the properties, each with a concrete run from the initial
  image.
\<close>

section \<open>Making a directory\<close>

lemma inv_set_mode:
  assumes inv: "abyss_inv ab fs" and n: "owner ab n" "n \<noteq> 0" "n \<noteq> 1" and v: "v \<noteq> 0"
  shows "abyss_inv (set_mode (inode_addr n) v ab) fs"
proof -
  let ?a = "set_mode (inode_addr n) v ab"
  note d = abyss_invD [OF inv]
  have oi: "only_inode n ab ?a" and lt: "n < 512"
    using n(1) by (simp_all add: only_inode_sets owner_def)
  have own: "owner ?a m = owner ab m" and bl: "blk ?a m = blk ab m" for m
    using only_inode_other [OF oi, of m] n v by (cases "m = n"; simp add: owner_def)+
  have "blocks_ok ?a"
    using d(6) unfolding blocks_ok_def own bl used_block_def set_fields_other .
  then show ?thesis
    using inv_only_inode [OF inv oi lt _ n(3)] d(1) v by simp
qed

lemma root_owner: "abyss_inv ab fs \<Longrightarrow> owner ab 1"
  using abyss_invD(4) [of ab fs] by (simp add: owner_def)

lemma used_root: "abyss_inv ab fs \<Longrightarrow> used_block ab 9"
  using blocks_okD(3) [OF abyss_invD(6) root_owner, of ab fs] abyss_invD(5) [of ab fs] by simp

lemma write_entry_cong: "m a = m' a \<Longrightarrow> write_entry m e i nl rl n a = write_entry m' e i nl rl n a"
  by (simp add: write_entry_def Let_def memcpy_eq put8_def put32_def)

lemma write_dots_cong: "m a = m' a \<Longrightarrow> write_dots m b i a = write_dots m' b i a"
  unfolding write_dots_def Let_def by (intro write_entry_cong)

lemma write_dots_other:
  assumes "a < b \<or> b + 17 \<le> a"
  shows "write_dots m b ino a = m a"
proof -
  have r: "entry_size 1 = 8"
    by (simp add: entry_size_def round_up_def)
  show ?thesis
    using assms unfolding write_dots_def r Let_def by (elim disjE) (simp_all add: write_entry_other)
qed

text \<open>Both kinds of failure of \<open>abyssfs_mkdir\<close>, and what it leaves when it succeeds.\<close>

lemma abyssfs_mkdir_cases:
  assumes inv: "abyss_inv ab fs" and cwd: "at_root cwd"
    and n: "file_name n" "n \<notin> snd ` set fs" "root_room fs n"
  obtains (no_inode) "abyssfs_mkdir n cwd ab = Inr (-1, ab)" "\<forall>j. 1 \<le> j \<and> j < 512 \<longrightarrow> mode_of ab j \<noteq> 0"
  | (no_block) w where "abyssfs_mkdir n cwd ab = Inr (-1, fresh_inode w ab)" "abyss_inv (fresh_inode w ab) fs"
      "\<forall>i. 9 \<le> i \<and> i < 64 \<longrightarrow> used_block ab i"
  | (made) w i ab' where "abyssfs_mkdir n cwd ab = Inr (0, ab')" "abyss_inv ab' (fs @ [(w, n)])"
      "1 < unat w" "unat w < 512" "mode_of ab (unat w) = 0" "mode_of ab' (unat w) = 0x41FF"
      "10 \<le> i" "i < 64" "\<not> used_block ab i" "blk ab' (unat w) = i"
      "\<And>a. 4096 * i \<le> a \<Longrightarrow> a < 4096 * i + BLOCK_SIZE \<Longrightarrow> disk ab' a = write_dots (disk ab) (4096 * i) w a"
      "\<And>j. j < 512 \<Longrightarrow> j \<noteq> unat w \<Longrightarrow> mode_of ab' j = mode_of ab j"
proof -
  note d = abyss_invD [OF inv]
  obtain w ab1 where w: "alloc_inode ab = (w, ab1)"
    by (cases "alloc_inode ab")
  show thesis
  proof (cases "w = 0")
    case True
    then have "ab1 = ab" "List.find (\<lambda>i. mode_of ab i = 0) [1..<512] = None"
      using w alloc_inode_eq [OF d(1)]
      by (auto simp: unat_eq_0 [symmetric] unat_of_nat find_upt_Some split: option.splits)
    then show thesis
      using True w no_inode unfolding find_upt_None by (simp add: abyssfs_mkdir_def)
  next
    case False
    obtain k where k: "1 \<le> k" "k < 512" "w = of_nat k" "unat w = k" "mode_of ab k = 0" "ab1 = fresh_inode k ab"
      by (rule alloc_inode_some [OF d(1) w False]) blast
    note f = fresh_inode_inv [OF inv k(1,2,5), folded k(6)]
    note ff = fresh_inode_fields [of k ab, folded k(6)]
    note d1 = abyss_invD [OF f(1)]
    have gi: "get_inode ab1 w = Some (inode_addr k)"
      using get_inode_unat [OF d1(1), of w] k by simp
    have own: "owner ab1 k" "k \<noteq> 1" "k \<noteq> 0"
      using ff(1) k f(2) by (simp_all add: owner_def)
    obtain b ab2 where b: "alloc_block ab1 = (b, ab2)"
      by (cases "alloc_block ab1")
    show thesis
    proof (cases "b = 0")
      case True
      then have "ab2 = ab1"
        using b True alloc_block_full [OF d1(1)] by simp
      moreover have "\<forall>i. 9 \<le> i \<and> i < 64 \<longrightarrow> used_block ab i"
        using alloc_block_none [OF d1(1)] b True ff(7) by (simp add: used_block_def)
      ultimately show thesis
        using False True w gi b f(1) no_block [of k] k(6) by (simp add: abyssfs_mkdir_def)
    next
      case b0: False
      obtain i where i: "9 \<le> i" "i < 64" "b = of_nat i" "unat b = i" "\<not> used_block ab1 i"
        "ab2 = ab1\<lparr>block_bitmap := block_bitmap ab1 OR 2 ^ i, sb := (sb ab1)\<lparr>free_blocks := free_blocks (sb ab1) - 1\<rparr>\<rparr>"
        by (rule alloc_block_some [OF d1(1) b b0]) blast
      have "i \<noteq> 9"
        using used_root [OF f(1)] i(5) by auto
      then have ten: "10 \<le> i"
        using i(1) by simp
      define a3 where "a3 = set_blocks (inode_addr k) b ab2"
      note g = give_block [OF f(1) own(1,2) ff(3) i(1,2,5), of "free_blocks (sb ab1) - 1", folded i(6) i(3), folded a3_def]
      define a4 where "a4 = set_size (inode_addr k) 4096 a3"
      have own3: "owner a3 k"
        using own g(4) by (simp add: owner_def)
      have inv4: "abyss_inv a4 fs"
        unfolding a4_def by (rule inv_set_size [OF g(1) own3 own(2)])
      have m4: "i_mode a4 (inode_addr k) = 0x1FF"
        using g(4) ff(1) by (simp add: a4_def mode_of_def)
      define a5 where "a5 = set_mode (inode_addr k) 0x41FF a4"
      have own4: "owner a4 k"
        using own3 by (simp add: owner_def a4_def)
      have inv5: "abyss_inv a5 fs"
        unfolding a5_def by (rule inv_set_mode [OF inv4 own4 own(3,2)]) simp
      have oi5: "only_inode k ab a5"
        unfolding a5_def a4_def
        by (rule only_inode_trans [OF only_inode_trans [OF only_inode_trans [OF ff(4) g(3)] only_inode_sets(2)]
              only_inode_sets(1)])
      have f5: "mode_of a5 k = 0x41FF" "blk a5 k = i"
        using g(2) by (simp_all add: a5_def a4_def)
      define m where "m = write_dots (disk a5) (4096 * i) w"
      have mlow: "m a = disk a5 a" if "a < 4096 * i" for a
        using that by (simp add: m_def write_dots_other)
      have inv6: "abyss_inv (a5\<lparr>disk := m\<rparr>) fs"
        by (rule inv_data [OF inv5]) (use mlow ten in simp)
      have f6: "mode_of (a5\<lparr>disk := m\<rparr>) k = 0x41FF" "blk (a5\<lparr>disk := m\<rparr>) k = i"
      proof -
        have "\<And>a. a < ROOT_BLOCK \<Longrightarrow> m a = disk a5 a"
          using mlow ten by simp
        from fields_root [OF this k(2)] show "mode_of (a5\<lparr>disk := m\<rparr>) k = 0x41FF" "blk (a5\<lparr>disk := m\<rparr>) k = i"
          using f5 by simp_all
      qed
      have base: "abyss_basename (abyss_basename (skip_slashes n)) = n"
      proof -
        have "rindex n (CHR ''/'') = None"
          using n(1) by (simp add: file_name_def rindex_None_iff)
        then show ?thesis
          using basename_skip_slashes [OF n(1)] by (simp add: abyss_basename_def)
      qed
      have "1 < unat w" "unat w < 512" "mode_of (a5\<lparr>disk := m\<rparr>) (unat w) \<noteq> 0" "w \<notin> fst ` set fs"
        using k f f6 by simp_all
      from create_file_inv [OF inv6 cwd base n this] obtain ab' where
        c: "create_file (abyss_basename (skip_slashes n)) w cwd (a5\<lparr>disk := m\<rparr>) = Inr (0, ab')"
          "abyss_inv ab' (fs @ [(w, n)])" "only_root (a5\<lparr>disk := m\<rparr>) ab'"
        by blast
      obtain m' where m': "ab' = a5\<lparr>disk := m'\<rparr>"
        "\<And>a. a < ROOT_BLOCK \<or> ROOT_BLOCK + BLOCK_SIZE \<le> a \<Longrightarrow> m' a = m a"
        using c(3) by (auto simp: only_root_def)
      have f7: "mode_of ab' k = 0x41FF" "blk ab' k = i"
        using fields_root [of m' "a5\<lparr>disk := m\<rparr>" k] m'(2) f6 k(2) by (simp_all add: m'(1))
      have others: "mode_of ab' j = mode_of ab j" if "j < 512" "j \<noteq> k" for j
        using fields_root(1) [of m' a5 j] m'(2) mlow ten only_inode_other(1) [OF oi5] that by (simp add: m'(1))
      have bytes: "disk ab' a = write_dots (disk ab) (4096 * i) w a"
        if "4096 * i \<le> a" "a < 4096 * i + BLOCK_SIZE" for a
      proof -
        have "inode_addr k + 64 \<le> a"
          using that(1) ten inode_region [OF k(2)] by simp
        then have "disk a5 a = disk ab a"
          using oi5 by (simp add: only_inode_def)
        then have "m a = write_dots (disk ab) (4096 * i) w a"
          unfolding m_def by (rule write_dots_cong)
        then show ?thesis
          using m'(2) [of a] that ten by (simp add: m'(1))
      qed
      have gb: "get_block a5 b = Some (4096 * i)"
        using get_block_geometry [OF abyss_invD(1) [OF inv5], of b] i by simp
      have mk: "abyssfs_mkdir n cwd ab = Inr (0, ab')"
      proof -
        have a5': "set_mode (inode_addr k) (i_mode a4 (inode_addr k) OR 0x4000) a4 = a5"
          by (simp add: m4 a5_def)
        have "abyssfs_mkdir n cwd ab =
          bind_res (create_file (abyss_basename (skip_slashes n)) w cwd (a5\<lparr>disk := m\<rparr>))
            (\<lambda>(r, ab5). Inr (if r < 0 then -1 else 0, ab5))"
          unfolding m_def
          by (simp only: abyssfs_mkdir_def w prod.case False if_False gi option.case b b0 Let_def
              of_nat_numeral a5' gb flip: a3_def a4_def)
        then show ?thesis
          using c(1) by simp
      qed
      have "\<not> used_block ab i"
        using i(5) ff(7) by (simp add: used_block_def)
      then show thesis
        using made [OF mk c(2)] k f(2) f7 ten i(2) bytes others by simp
    qed
  qed
qed

section \<open>Paths in the root directory\<close>

lemma tokens_single: "s \<noteq> [] \<Longrightarrow> D \<inter> set s = {} \<Longrightarrow> tokens D s = [s]"
proof -
  assume s: "s \<noteq> []" "D \<inter> set s = {}"
  then obtain a t where "s = a # t" "a \<notin> D" "D \<inter> set t = {}"
    by (cases s) auto
  moreover from this have "takeWhile (\<lambda>c. c \<notin> D) t = t" "dropWhile (\<lambda>c. c \<notin> D) t = []"
    by (auto simp: takeWhile_eq_all_conv)
  ultimately show ?thesis
    by (simp only: tokens_word tokens_Nil not_False_eq_True)
qed

lemma get_inode_by_path_root:
  assumes inv: "abyss_inv ab fs" and x: "(w, n) \<in> set fs"
  shows "get_inode_by_path n ab = Inr (Some (inode_addr (unat w)))"
proof -
  note d = abyss_invD [OF inv]
  have n: "file_name n" "unat w < 512"
    using files_okD [OF d(3) x] by simp_all
  have "skip_slashes n = n"
    using n(1) by (cases n) (auto simp: file_name_def)
  moreover have "tokens {CHR ''/''} n = [n]"
    using n(1) by (intro tokens_single) (auto simp: file_name_def)
  moreover have "take 255 n = n" "n \<noteq> []"
    using n(1) by (simp_all add: file_name_def name_ok_def)
  moreover have "path_walk ab (get_inode ab 1) [n] = Inr (Some (inode_addr (unat w)))"
  proof -
    have "distinct (map snd fs)"
      using d(3) by (simp add: files_ok_def)
    then have "map_of (map prod.swap fs) n = Some w"
      using x by (intro map_of_is_SomeI) (auto simp: comp_def)
    then have "abyss_look ab n = Some w"
      using abyss_look_file [OF inv n(1)] by simp
    then obtain e where "dir_find (disk ab) ROOT_BLOCK n = Inr (Some e)" "e_inode (disk ab) e = w"
      by (auto simp: abyss_look_def split: sum.splits option.splits)
    then show ?thesis
      using get_inode_1 [OF d(1)] root_block_of [OF inv] get_inode_unat [OF d(1) n(2)] by simp
  qed
  ultimately show ?thesis
    by (simp add: get_inode_by_path_def Let_def)
qed

lemma read_dir_root:
  assumes inv: "abyss_inv ab fs" and "skip_slashes path = []"
  shows "abyssfs_read_dir path cnt ab = Inr (0, take cnt (map abyss_dirent (dots @ fs)))"
proof -
  obtain xs y where es: "dots @ fs = xs @ [y]" and ok: "dir_ok (disk ab) ROOT_BLOCK xs y"
    by (rule root_dir_split [OF abyss_invD(2) [OF inv]])
  have "inode_blocks (sb ab) + 1 = 9"
    using abyss_invD(1) [OF inv] by (simp add: geometry_def)
  then show ?thesis
    using dir_copy_ok [OF ok, of cnt, folded take_map] root_block_of(2) [OF inv] assms(2)
    by (simp add: abyssfs_read_dir_def es)
qed

text \<open>The list of entries is determined by the image.\<close>

lemma abyss_inv_unique: "abyss_inv ab fs \<Longrightarrow> abyss_inv ab gs \<Longrightarrow> fs = gs"
proof -
  assume a: "abyss_inv ab fs" "abyss_inv ab gs"
  have inj: "inj abyss_dirent"
  proof (rule injI)
    fix x y assume "abyss_dirent x = abyss_dirent y"
    then have "unat (ucast (fst x) :: u64) = unat (ucast (fst y) :: u64)" "snd x = snd y"
      by (simp_all add: abyss_dirent_def)
    then show "x = y"
      by (simp add: unat_ucast_up prod_eq_iff word_unat_eq_iff)
  qed
  let ?n = "2 + length fs + length gs"
  have "map abyss_dirent (dots @ fs) = map abyss_dirent (dots @ gs)"
    using read_dir_root [OF a(1), of "[]" ?n] read_dir_root [OF a(2), of "[]" ?n]
    by (simp add: dots_def)
  then show ?thesis
    using inj by (simp add: inj_map_eq_map)
qed

lemma abyss_room_iff: "abyss_inv ab fs \<Longrightarrow> abyss_room n (h, ab) \<longleftrightarrow> root_room fs n"
  using abyss_inv_unique by (auto simp: abyss_room_def)

section \<open>States that the operations reach\<close>

text \<open>
  The file system after any sequence of operations in the directory /, with names that are fit for a
  record, not in use and for which the directory block has room, and writes through handles of inodes
  in use (or of inode 0, which opened files stand for).
\<close>

inductive abyss_reach :: "u64 \<times> abyss \<Rightarrow> bool" where
  op_init: "\<not> abyssfs_initialized ab0 \<Longrightarrow> kalloc 262144 h0 = (Some p, h) \<Longrightarrow> abyssfs_init h0 ab0 = (h, ab) \<Longrightarrow>
    abyss_reach (h, ab)"
| op_create: "abyss_reach (h, ab) \<Longrightarrow> file_name n \<Longrightarrow> abyss_names (h, ab) n = None \<Longrightarrow> abyss_room n (h, ab) \<Longrightarrow>
    abyssfs_create n root_cwd h ab = Inr (r, h', ab') \<Longrightarrow> abyss_reach (h', ab')"
| op_mkdir: "abyss_reach (h, ab) \<Longrightarrow> file_name n \<Longrightarrow> abyss_names (h, ab) n = None \<Longrightarrow> abyss_room n (h, ab) \<Longrightarrow>
    abyssfs_mkdir n root_cwd ab = Inr (r1, ab') \<Longrightarrow> abyss_reach (h, ab')"
| op_unlink: "abyss_reach (h, ab) \<Longrightarrow> file_name n \<Longrightarrow> abyssfs_unlink n ab = Inr (r1, ab') \<Longrightarrow> abyss_reach (h, ab')"
| op_write: "abyss_reach (h, ab) \<Longrightarrow> abyss_inode_num fl = Inr (of_nat k) \<Longrightarrow> owner ab k \<Longrightarrow> k \<noteq> 1 \<Longrightarrow>
    abyss_count cnt \<le> length buf \<Longrightarrow> abyssfs_write fl buf cnt ab = Inr (r1, ab') \<Longrightarrow> abyss_reach (h, ab')"

lemma abyssfs_create_inv:
  assumes inv: "abyss_inv ab fs" and cwd: "at_root cwd"
    and n: "file_name n" "n \<notin> snd ` set fs" "root_room fs n"
    and c: "abyssfs_create n cwd h ab = Inr (r, h', ab')"
  shows "\<exists>fs'. abyss_inv ab' fs'"
proof -
  note d = abyss_invD [OF inv]
  obtain w ab1 where w: "alloc_inode ab = (w, ab1)"
    by (cases "alloc_inode ab")
  show ?thesis
  proof (cases "w = 0")
    case True
    then have "ab1 = ab"
      using w alloc_inode_eq [OF d(1)]
      by (auto simp: unat_eq_0 [symmetric] unat_of_nat find_upt_Some split: option.splits)
    then show ?thesis
      using True w c inv by (auto simp: abyssfs_create_def)
  next
    case False
    obtain i where i: "1 \<le> i" "i < 512" "w = of_nat i" "unat w = i" "mode_of ab i = 0" "ab1 = fresh_inode i ab"
      by (rule alloc_inode_some [OF d(1) w False])
    note f = fresh_inode_inv [OF inv i(1,2,5)]
    obtain ab2 where ab2: "create_file (skip_slashes n) w cwd ab1 = Inr (0, ab2)" "abyss_inv ab2 (fs @ [(w, n)])"
      using create_file_inv [OF f(1) cwd basename_skip_slashes [OF n(1)] n, of w] i f
        fresh_inode_fields(1) [of i ab] by auto
    have "get_inode ab1 w \<noteq> None"
      using get_inode_unat [of ab1 w] i d(1) fresh_inode_fields(5) [of i ab] by simp
    then have "ab' = ab2"
      using c w False ab2(1) by (auto simp: abyssfs_create_def split: prod.splits option.splits)
    then show ?thesis
      using ab2(2) by blast
  qed
qed

lemma abyssfs_write_keeps:
  assumes inv: "abyss_inv ab fs" and fl: "abyss_inode_num fl = Inr (of_nat n)" and n: "owner ab n" "n \<noteq> 1"
    and k: "abyss_count cnt \<le> length buf" and w: "abyssfs_write fl buf cnt ab = Inr (r, ab')"
  shows "abyss_inv ab' fs"
proof (cases "blk ab n = 0")
  case False
  obtain ab2 where "abyssfs_write fl buf cnt ab = Inr (int (abyss_count cnt), ab2)" "abyss_inv ab2 fs"
    by (rule abyssfs_write_inv [OF inv fl n False k])
  then show ?thesis
    using w by simp
next
  case True
  note d = abyss_invD [OF inv]
  have lt: "n < 512"
    using n(1) by (simp add: owner_def)
  show ?thesis
  proof (cases "\<exists>j. 9 \<le> j \<and> j < 64 \<and> \<not> used_block ab j")
    case False
    then have "alloc_block ab = (0, ab)"
      using alloc_block_none [OF d(1)] alloc_block_full [OF d(1)] by blast
    then have "write_to_blocks (inode_addr n) buf cnt ab = Inr (0, ab)"
      using True by (simp add: write_to_blocks_def blk_def unat_eq_0)
    then show ?thesis
      using w get_inode_addr [OF d(1) lt] inv by (simp add: abyssfs_write_def fl)
  next
    case free: True
    then obtain j where "9 \<le> j" "j < 64" "\<not> used_block ab j"
      by blast
    from abyssfs_write_first [OF inv fl n True this] obtain ab1 where
      ab1: "abyssfs_write fl buf cnt ab = abyssfs_write fl buf cnt ab1" "abyss_inv ab1 fs" "9 \<le> blk ab1 n"
        "mode_of ab1 n = mode_of ab n"
      by metis
    have "owner ab1 n" "blk ab1 n \<noteq> 0"
      using n(1) ab1 by (simp_all add: owner_def)
    from abyssfs_write_inv [OF ab1(2) fl this(1) n(2) this(2) k] obtain ab2 where
      "abyssfs_write fl buf cnt ab1 = Inr (int (abyss_count cnt), ab2)" "abyss_inv ab2 fs"
      by metis
    then show ?thesis
      using w ab1(1) by simp
  qed
qed

lemma abyss_reach_inv: "abyss_reach s \<Longrightarrow> \<exists>fs. abyss_inv (snd s) fs"
proof (induction rule: abyss_reach.induct)
  case (op_init ab0 h0 p h ab)
  then show ?case
    using abyssfs_init_inv [OF op_init(1,2)] by (metis prod.inject snd_conv)
next
  case (op_create h ab n r h' ab')
  then obtain fs where inv: "abyss_inv ab fs"
    by auto
  then have "n \<notin> snd ` set fs" "root_room fs n"
    using op_create abyss_names_eq [of "(h, ab)" fs] by (auto simp: abyss_room_def map_of_eq_None_iff image_image)
  then show ?case
    using abyssfs_create_inv [OF inv at_root_cwd] op_create by simp
next
  case (op_mkdir h ab n r1 ab')
  then obtain fs where inv: "abyss_inv ab fs"
    by auto
  then have n: "n \<notin> snd ` set fs" "root_room fs n"
    using op_mkdir abyss_names_eq [of "(h, ab)" fs] by (auto simp: abyss_room_def map_of_eq_None_iff image_image)
  show ?case
    by (rule abyssfs_mkdir_cases [OF inv at_root_cwd op_mkdir(2) n]) (use op_mkdir(5) inv in auto)
next
  case (op_unlink h ab n r1 ab')
  then obtain fs where inv: "abyss_inv ab fs"
    by auto
  show ?case
  proof (cases "n \<in> snd ` set fs")
    case True
    then obtain k where "k < length fs" "snd (fs ! k) = n"
      by (metis imageE in_set_conv_nth)
    then show ?thesis
      using abyssfs_unlink_some [OF inv op_unlink(2)] op_unlink(3) by auto
  next
    case False
    then show ?thesis
      using abyssfs_unlink_none [OF inv op_unlink(2)] op_unlink(3) inv by auto
  qed
next
  case (op_write h ab fl k cnt buf r1 ab')
  then show ?case
    using abyssfs_write_keeps by (metis snd_conv)
qed

section \<open>Properties\<close>

text \<open>
  Property C8. Whatever the heap held, the first \<open>abyssfs_init\<close> builds a consistent image with an
  empty root directory, which lists as the two dot entries; a second one changes nothing.
\<close>

theorem abyssfs_init_correct:
  assumes "\<not> abyssfs_initialized ab" and "kalloc 262144 h = (Some p, h')"
  shows "\<exists>ab'. abyssfs_init h ab = (h', ab') \<and> abyss_inv ab' [] \<and>
    abyssfs_read_dir ''/'' 32 ab' = Inr (0, [\<lparr>d_inode = 1, d_name = ''.''\<rparr>, \<lparr>d_inode = 1, d_name = ''..''\<rparr>]) \<and>
    abyssfs_init h' ab' = (h', ab')"
proof -
  obtain ab' where i: "abyssfs_init h ab = (h', ab')" "abyss_inv ab' []" "abyssfs_initialized ab'"
    by (rule abyssfs_init_inv [OF assms])
  moreover have "abyssfs_init h' ab' = (h', ab')"
    using i(3) by (simp add: abyssfs_init_def)
  moreover have "abyssfs_read_dir ''/'' 32 ab' = Inr (0, [\<lparr>d_inode = 1, d_name = ''.''\<rparr>, \<lparr>d_inode = 1, d_name = ''..''\<rparr>])"
    using read_dir_root [OF i(2), of "''/''" 32] by (simp add: dots_def abyss_dirent_def)
  ultimately show ?thesis
    by blast
qed

lemma abyssfs_create_succeeds:
  assumes inv: "abyss_inv ab fs" and cwd: "at_root cwd"
    and n: "file_name n" "n \<notin> snd ` set fs" "root_room fs n"
    and free: "1 \<le> j" "j < 512" "mode_of ab j = 0" and k: "kalloc sizeof_vfs_file h = (Some p, h')"
  obtains fl ab' where "abyssfs_create n cwd h ab = Inr (Some fl, h', ab')"
proof -
  note d = abyss_invD [OF inv]
  obtain w ab1 where w: "alloc_inode ab = (w, ab1)"
    by (cases "alloc_inode ab")
  have w0: "w \<noteq> 0"
  proof
    assume "w = 0"
    then have "List.find (\<lambda>i. mode_of ab i = 0) [1..<512] = None"
      using w alloc_inode_eq [OF d(1)]
      by (auto simp: unat_eq_0 [symmetric] unat_of_nat find_upt_Some split: option.splits)
    then show False
      using free unfolding find_upt_None by blast
  qed
  obtain i where i: "1 \<le> i" "i < 512" "w = of_nat i" "unat w = i" "mode_of ab i = 0" "ab1 = fresh_inode i ab"
    by (rule alloc_inode_some [OF d(1) w w0])
  note f = fresh_inode_inv [OF inv i(1,2,5)]
  obtain ab2 where ab2: "create_file (skip_slashes n) w cwd ab1 = Inr (0, ab2)"
    using create_file_inv [OF f(1) cwd basename_skip_slashes [OF n(1)] n, of w] i f
      fresh_inode_fields(1) [of i ab] by auto
  have "get_inode ab1 w \<noteq> None"
    using get_inode_unat [of ab1 w] i d(1) fresh_inode_fields(5) [of i ab] by simp
  then show thesis
    using that w w0 ab2 k by (auto simp: abyssfs_create_def)
qed

text \<open>
  Property C5. Creating a fresh name in / succeeds while there is an inode, room in the directory block
  and heap for the handle; the handle stands for the lowest free inode, empty and without a block. The
  new name is the only change of the names; unlinking it succeeds and gives the old names back, and a
  second unlink of it fails.
\<close>

theorem abyss_create_then_unlink:
  assumes inv: "abyss_inv ab fs" and n: "file_name n" "n \<notin> snd ` set fs" "root_room fs n"
    and free: "1 \<le> j" "j < 512" "mode_of ab j = 0" and k: "kalloc sizeof_vfs_file h = (Some p, h')"
  shows "\<exists>w ab' ab''. abyssfs_create n root_cwd h ab = Inr (Some (new_abyss_file w []), h', ab') \<and>
    mode_of ab (unat w) = 0 \<and> (\<forall>i. 1 \<le> i \<and> i < unat w \<longrightarrow> mode_of ab i \<noteq> 0) \<and>
    mode_of ab' (unat w) = 0x1FF \<and> size_of ab' (unat w) = 0 \<and> blk ab' (unat w) = 0 \<and>
    abyss_inv ab' (fs @ [(w, n)]) \<and>
    abyssfs_unlink n ab' = Inr (0, ab'') \<and> abyss_names (h', ab'') = abyss_names (h, ab) \<and>
    abyssfs_unlink n ab'' = Inr (-1, ab'')"
proof -
  obtain fl ab' where c: "abyssfs_create n root_cwd h ab = Inr (Some fl, h', ab')"
    by (rule abyssfs_create_succeeds [OF inv at_root_cwd n free k])
  obtain w where w: "unat w < 512" "mode_of ab (unat w) = 0"
    "\<forall>j. 1 \<le> j \<and> j < unat w \<longrightarrow> mode_of ab j \<noteq> 0" "abyss_inv ab' (fs @ [(w, n)])"
    "only_root (fresh_inode (unat w) ab) ab'" "fl = new_abyss_file w []"
    by (rule abyssfs_create_some [OF inv at_root_cwd n c])
  obtain m where m: "ab' = (fresh_inode (unat w) ab)\<lparr>disk := m\<rparr>"
    "\<And>a. a < ROOT_BLOCK \<Longrightarrow> m a = disk (fresh_inode (unat w) ab) a"
    using w(5) by (auto simp: only_root_def)
  have f: "mode_of ab' (unat w) = 0x1FF" "size_of ab' (unat w) = 0" "blk ab' (unat w) = 0"
    using fields_root [OF m(2) w(1)] fresh_inode_fields(1-3) [of "unat w" ab] by (simp_all add: m(1))
  have inv1: "\<exists>fs. abyss_inv (snd (h, ab)) fs" and room: "abyss_room n (h, ab)"
    using inv n(3) by (auto simp: abyss_room_iff)
  have none: "abyss_names (h, ab) n = None"
    using n(2) abyss_names_eq [of "(h, ab)" fs] inv by (simp add: map_of_eq_None_iff image_image)
  have link: "abyss_link n (h, ab) = Some (h', ab')"
    using c by (simp add: abyss_link_def)
  obtain s where s: "abyss_remove n (h', ab') = Some s" "abyss_names s = abyss_names (h, ab)"
    "\<exists>fs. abyss_inv (snd s) fs"
    using abyss_root.link_then_unlink [OF inv1 n(1) room none link] by blast
  then have u: "abyssfs_unlink n ab' = Inr (0, snd s)" "s = (h', snd s)"
    by (auto simp: abyss_remove_def split: sum.splits if_splits)
  have "abyss_remove n s = None"
    by (rule abyss_root.unlink_twice [OF _ n(1) s(1)]) (use w(4) in auto)
  moreover obtain gs where gs: "abyss_inv (snd s) gs"
    using s(3) by blast
  moreover have "n \<notin> snd ` set gs"
  proof -
    have "map_of (map prod.swap gs) n = None"
      using s(2) none abyss_names_eq [OF gs] by simp
    then show ?thesis
      by (simp add: map_of_eq_None_iff image_image)
  qed
  ultimately have "abyssfs_unlink n (snd s) = Inr (-1, snd s)"
    using abyssfs_unlink_none [OF gs n(1)] by simp
  then show ?thesis
    using c w f u s(2) by metis
qed

text \<open>
  Property C6. The first write to an empty file takes the lowest free block and stores the bytes (at
  most 4096); a read from the start then returns exactly them, whatever more is asked for. The names,
  and the mode, size and bytes of every other inode in use, are as before.
\<close>

theorem abyss_write_then_read:
  assumes inv: "abyss_inv ab fs" and fl: "abyss_inode_num fl = Inr (of_nat n)" "f_pos fl = 0"
    and n: "owner ab n" "n \<noteq> 1" "blk ab n = 0" "size_of ab n = 0"
    and free: "9 \<le> j" "j < 64" "\<not> used_block ab j" and k: "abyss_count cnt \<le> length buf"
  shows "\<exists>ab'. abyssfs_write fl buf cnt ab = Inr (int (abyss_count cnt), ab') \<and> abyss_inv ab' fs \<and>
    abyssfs_read fl cnt ab' =
      Inr (int (abyss_count cnt), take (abyss_count cnt) buf, fl\<lparr>f_pos := of_nat (abyss_count cnt)\<rparr>) \<and>
    contents ab' n = take (abyss_count cnt) buf \<and> 9 \<le> blk ab' n \<and>
    \<not> used_block ab (blk ab' n) \<and> (\<forall>i. 9 \<le> i \<and> i < blk ab' n \<longrightarrow> used_block ab i) \<and>
    (\<forall>m. owner ab m \<and> m \<noteq> n \<longrightarrow> same_file ab ab' m)"
proof -
  let ?k = "abyss_count cnt"
  have lt: "n < 512"
    using n(1) by (simp add: owner_def)
  obtain ab1 where ab1: "abyssfs_write fl buf cnt ab = abyssfs_write fl buf cnt ab1" "abyss_inv ab1 fs"
    "9 \<le> blk ab1 n" "blk ab1 n < 64" "\<not> used_block ab (blk ab1 n)"
    "\<forall>i. 9 \<le> i \<and> i < blk ab1 n \<longrightarrow> used_block ab i"
    "only_inode n ab ab1" "mode_of ab1 n = mode_of ab n" "size_of ab1 n = size_of ab n"
    by (rule abyssfs_write_first [OF inv fl(1) n(1-3) free])
  have own: "owner ab1 n" "blk ab1 n \<noteq> 0"
    using n(1) ab1(3,8) by (simp_all add: owner_def)
  obtain ab' where w: "abyssfs_write fl buf cnt ab1 = Inr (int ?k, ab')" "abyss_inv ab' fs"
    "blk ab' n = blk ab1 n" "size_of ab' n = (size_of ab1 n + ?k) mod 2 ^ 32"
    "mem_slice (disk ab') (4096 * blk ab1 n) ?k = take ?k buf"
    "\<forall>m. owner ab1 m \<and> m \<noteq> n \<longrightarrow> same_file ab1 ab' m"
    by (rule abyssfs_write_inv [OF ab1(2) fl(1) own(1) n(2) own(2) k])
  have k4: "?k \<le> 4096" "?k \<le> unat cnt" "unat cnt < 2 ^ 64"
    using unsigned_less [of cnt] by (simp_all add: abyss_count_def)
  have sz: "size_of ab' n = ?k"
    using w(4) ab1(9) n(4) k4 by simp
  have cont: "contents ab' n = take ?k buf"
    using w(3,5) sz by (simp add: contents_def)
  have "abyssfs_read fl cnt ab' = Inr (int ?k, take ?k buf, fl\<lparr>f_pos := of_nat ?k\<rparr>)"
    using abyssfs_read_eq [OF abyss_invD(1) [OF w(2)] fl(1) lt, of cnt] w(3) ab1(4) sz k4 cont fl(2) k
    by (simp add: min_def)
  moreover have "same_file ab ab' m" if m: "owner ab m" "m \<noteq> n" for m
  proof -
    have "blk ab m = 0 \<or> 9 \<le> blk ab m"
      using blocks_okD(1) [OF abyss_invD(6) [OF inv] m(1)] by blast
    then have "same_file ab ab1 m"
      by (rule same_file_inode [OF ab1(7) lt m(2)])
    moreover have "owner ab1 m"
      using m only_inode_other(1) [OF ab1(7) m(2)] by (simp add: owner_def)
    ultimately show ?thesis
      using w(6) m(2) same_file_trans by blast
  qed
  ultimately show ?thesis
    using w ab1 cont by auto
qed

text \<open>
  A later write ignores the position of the handle: it overwrites the block from its
  start, and the size grows by the number of bytes all the same.
\<close>

theorem abyss_second_write_overwrites:
  assumes inv: "abyss_inv ab fs" and fl: "abyss_inode_num fl = Inr (of_nat n)"
    and n: "owner ab n" "n \<noteq> 1" "blk ab n \<noteq> 0" and k: "abyss_count cnt \<le> length buf"
    and sz: "size_of ab n + abyss_count cnt < 2 ^ 32"
  shows "\<exists>ab'. abyssfs_write fl buf cnt ab = Inr (int (abyss_count cnt), ab') \<and> abyss_inv ab' fs \<and>
    length (contents ab' n) = length (contents ab n) + abyss_count cnt \<and>
    take (abyss_count cnt) (contents ab' n) = take (abyss_count cnt) buf"
proof -
  obtain ab' where w: "abyssfs_write fl buf cnt ab = Inr (int (abyss_count cnt), ab')" "abyss_inv ab' fs"
    "blk ab' n = blk ab n" "size_of ab' n = (size_of ab n + abyss_count cnt) mod 2 ^ 32"
    "mem_slice (disk ab') (4096 * blk ab n) (abyss_count cnt) = take (abyss_count cnt) buf"
    by (rule abyssfs_write_inv [OF inv fl n k])
  have s: "size_of ab' n = size_of ab n + abyss_count cnt"
    using w(4) sz by simp
  then have "contents ab' n = mem_slice (disk ab') (4096 * blk ab n) (abyss_count cnt + size_of ab n)"
    using w(3) by (simp add: contents_def add.commute)
  then have "take (abyss_count cnt) (contents ab' n) = take (abyss_count cnt) buf"
    using w(5) k by (simp add: mem_slice_append)
  then show ?thesis
    using w s by simp
qed


text \<open>
  \<open>abyssfs_read_dir\<close> of / returns success and the entries of the directory in order, the
  two dot entries first, cut off at the size of the caller's array.
\<close>

theorem abyss_read_dir_lists:
  assumes "abyss_inv ab fs" and "skip_slashes path = []"
  shows "abyssfs_read_dir path cnt ab =
    Inr (0, take cnt (\<lparr>d_inode = 1, d_name = ''.''\<rparr> # \<lparr>d_inode = 1, d_name = ''..''\<rparr> #
      map (\<lambda>(i, n). \<lparr>d_inode = ucast i, d_name = n\<rparr>) fs))"
proof -
  have "abyss_dirent = (\<lambda>(i, n). \<lparr>d_inode = ucast i, d_name = n\<rparr>)"
    by (auto simp: abyss_dirent_def fun_eq_iff)
  moreover have "abyss_dirent (1, ''.'') = \<lparr>d_inode = 1, d_name = ''.''\<rparr>"
    "abyss_dirent (1, ''..'') = \<lparr>d_inode = 1, d_name = ''..''\<rparr>"
    by (simp_all add: abyss_dirent_def)
  ultimately show ?thesis
    using read_dir_root [OF assms, of cnt] by (simp add: dots_def del: take_Cons' take_Suc_Cons)
qed


text \<open>
  While there are an inode and a block, making a directory in / succeeds: its name then
  leads to an inode of mode directory that lists as itself and its parent, if the free blocks held no
  stale records (the code does not clear a block).
\<close>

theorem abyss_mkdir_then_list:
  assumes inv: "abyss_inv ab fs" and n: "file_name n" "n \<notin> snd ` set fs" "root_room fs n"
    and inode: "1 \<le> j" "j < 512" "mode_of ab j = 0" and block: "9 \<le> b" "b < 64" "\<not> used_block ab b"
    and clean: "\<forall>i. 10 \<le> i \<and> i < 64 \<and> \<not> used_block ab i \<longrightarrow> get8 (disk ab) (4096 * i + 261) = 0"
  shows "\<exists>w ab'. abyssfs_mkdir n root_cwd ab = Inr (0, ab') \<and> abyss_inv ab' (fs @ [(w, n)]) \<and>
       mode_of ab' (unat w) AND 0x4000 \<noteq> 0 \<and>
       get_inode_by_path n ab' = Inr (Some (inode_addr (unat w))) \<and>
       abyssfs_read_dir n 32 ab' = Inr (0, [\<lparr>d_inode = ucast w, d_name = ''.''\<rparr>, \<lparr>d_inode = 1, d_name = ''..''\<rparr>])"
proof (rule abyssfs_mkdir_cases [OF inv at_root_cwd n], goal_cases)
  case 1
  then show ?case using inode by blast
next
  case (2 w)
  then show ?case using block by blast
next
  case m: (3 w i ab')
  note d = abyss_invD [OF m(2)]
  have path: "get_inode_by_path n ab' = Inr (Some (inode_addr (unat w)))"
    by (rule get_inode_by_path_root [OF m(2)]) simp
  have "get8 (disk ab) (4096 * i + 261) = 0"
    using clean m(7,8,9) by blast
  from write_dots_ok(1) [OF this, of w] have "dir_ok (disk ab') (4096 * i) [(w, ''.'')] (1, ''..'')"
    by (rule dir_ok_cong) (rule m(11))
  then have "dir_copy (disk ab') (4096 * i) 32 = Inr (map abyss_dirent [(w, ''.''), (1, ''..'')])"
    using dir_copy_ok [of "disk ab'" "4096 * i" "[(w, ''.'')]" "(1, ''..'')" 32] m(8) by simp
  moreover have "get_block ab' (i_blocks ab' (inode_addr (unat w))) = Some (4096 * i)"
    using get_block_geometry [OF d(1)] m(8,10) by (simp add: blk_def)
  moreover have "skip_slashes n = n" "n \<noteq> []"
    using n(1) by (cases n; auto simp: file_name_def)+
  ultimately have "abyssfs_read_dir n 32 ab' = Inr (0, [\<lparr>d_inode = ucast w, d_name = ''.''\<rparr>, \<lparr>d_inode = 1, d_name = ''..''\<rparr>])"
    using path by (simp add: abyssfs_read_dir_def Let_def abyss_dirent_def)
  moreover have "mode_of ab' (unat w) AND 0x4000 \<noteq> 0"
    by (simp add: m(6))
  ultimately show ?case
    using m(1,2) path by blast
qed

text \<open>
  \<open>abyssfs_unlink\<close> compares whole paths with the names in /: a path with an inner slash
  names no file, and such a file cannot be removed.
\<close>

theorem abyss_nested_unlink_fails:
  assumes inv: "abyss_inv ab fs" and "CHR ''/'' \<in> set (skip_slashes path)" and "cstr path"
  shows "abyssfs_unlink path ab = Inr (-1, ab)"
proof -
  let ?p = "skip_slashes path"
  have c: "cstr ?p"
    using assms(3) by (auto dest: set_dropWhileD)
  have "CHR ''/'' \<notin> set (snd x)" if "x \<in> set (dots @ fs)" for x
  proof (cases "x \<in> set fs")
    case True
    then show ?thesis
      using files_okD(1) [OF abyss_invD(3) [OF inv] True] by (simp add: file_name_def)
  qed (use that in \<open>auto simp: dots_def\<close>)
  then have "snd x \<noteq> ?p" if "x \<in> set (dots @ fs)" for x
    using that assms(2) by metis
  then have "first_index (\<lambda>x. snd x = ?p) (dots @ fs) = None"
    by (simp add: first_index_None)
  moreover have "inode_blocks (sb ab) + 1 = 9"
    using abyss_invD(1) [OF inv] by (simp add: geometry_def)
  ultimately show ?thesis
    using root_dir_find [OF abyss_invD(2) [OF inv] c] root_block_of(2) [OF inv] by (simp add: abyssfs_unlink_def)
qed

text \<open>
  The count of free blocks is one too high from the start: the root directory's block is
  marked as used without being subtracted.
\<close>

theorem abyss_free_count_off_by_one:
  assumes "\<not> abyssfs_initialized ab" and "kalloc 262144 h = (Some p, h')" and "abyssfs_init h ab = (h', ab')"
  shows "unat (free_blocks (sb ab')) = card {i. i < 64 \<and> \<not> used_block ab' i} + 1"
proof -
  obtain ab1 where i: "abyssfs_init h ab = (h', ab1)" "free_blocks (sb ab1) = 55"
    "\<forall>i < 64. used_block ab1 i \<longleftrightarrow> i \<le> 9"
    by (rule abyssfs_init_inv [OF assms(1,2)])
  then have "{i. i < 64 \<and> \<not> used_block ab1 i} = {10..<64}"
    by auto
  then show ?thesis
    using i assms(3) by simp
qed

section \<open>Concrete runs\<close>

definition ex_abyss :: abyss where
  "ex_abyss = snd (abyssfs_init 0 zero_abyss)"

definition ex_open :: vfs_file where
  "ex_open = new_abyss_file 0 ''/a''"

lemma ex_kalloc: "kalloc 262144 0 = (Some 0, 262144)" "\<not> abyssfs_initialized zero_abyss"
  "kalloc 304 262144 = (Some 262144, 262448)"
  by (simp_all add: kalloc_def zero_abyss_def)

lemma ex_abyss_facts:
  "abyssfs_init 0 zero_abyss = (262144, ex_abyss)" "abyss_inv ex_abyss []"
  "\<forall>i < 64. used_block ex_abyss i \<longleftrightarrow> i \<le> 9"
  "\<forall>n < 512. n \<noteq> 1 \<longrightarrow> mode_of ex_abyss n = 0 \<and> blk ex_abyss n = 0 \<and> size_of ex_abyss n = 0"
  "\<forall>a < DISK_SIZE. 40960 \<le> a \<longrightarrow> disk ex_abyss a = NUL"
proof -
  obtain ab' where i: "abyssfs_init 0 zero_abyss = (262144, ab')" "abyss_inv ab' []"
    "\<forall>i < 64. used_block ab' i \<longleftrightarrow> i \<le> 9"
    "\<forall>n < 512. n \<noteq> 1 \<longrightarrow> mode_of ab' n = 0 \<and> blk ab' n = 0 \<and> size_of ab' n = 0"
    "\<forall>a < DISK_SIZE. 40960 \<le> a \<longrightarrow> disk ab' a = NUL"
    by (rule abyssfs_init_inv [OF ex_kalloc(2,1)])
  moreover from i(1) have "ex_abyss = ab'"
    by (simp add: ex_abyss_def)
  ultimately show "abyssfs_init 0 zero_abyss = (262144, ex_abyss)" "abyss_inv ex_abyss []"
    "\<forall>i < 64. used_block ex_abyss i \<longleftrightarrow> i \<le> 9"
    "\<forall>n < 512. n \<noteq> 1 \<longrightarrow> mode_of ex_abyss n = 0 \<and> blk ex_abyss n = 0 \<and> size_of ex_abyss n = 0"
    "\<forall>a < DISK_SIZE. 40960 \<le> a \<longrightarrow> disk ex_abyss a = NUL"
    by simp_all
qed

lemma ex_name: "file_name ''a''" "''a'' \<notin> snd ` set []" "root_room [] ''a''"
  by (simp_all add: file_name_def name_ok_def root_room_def dots_def esz_eq)

lemma ex_open_facts:
  "abyss_inode_num ex_open = Inr (of_nat 0)" "f_pos ex_open = 0" "owner ex_abyss 0" "blk ex_abyss 0 = 0"
  "size_of ex_abyss 0 = 0"
  using ex_abyss_facts(4) by (simp_all add: ex_open_def new_abyss_file_def abyss_inode_num_def owner_def)

theorem abyssfs_init_correct_witness:
  "\<exists>ab'. abyssfs_init 0 zero_abyss = (262144, ab') \<and> abyss_inv ab' []"
  using abyssfs_init_correct [OF ex_kalloc(2,1)] by blast

theorem abyss_create_then_unlink_witness:
  "\<exists>w ab' ab''. abyssfs_create ''a'' root_cwd 262144 ex_abyss = Inr (Some (new_abyss_file w []), 262448, ab') \<and>
    abyss_inv ab' [(w, ''a'')] \<and> abyssfs_unlink ''a'' ab' = Inr (0, ab'') \<and>
    abyss_names (262448, ab'') = abyss_names (262144, ex_abyss)"
proof -
  have "mode_of ex_abyss 2 = 0"
    using ex_abyss_facts(4) by simp
  then show ?thesis
    using abyss_create_then_unlink [OF ex_abyss_facts(2) ex_name, of 2 262144 262144 262448] ex_kalloc(3)
    by auto
qed

theorem abyss_write_then_read_witness:
  "\<exists>ab'. abyssfs_write ex_open ''hi'' 2 ex_abyss = Inr (2, ab') \<and>
    abyssfs_read ex_open 2 ab' = Inr (2, ''hi'', ex_open\<lparr>f_pos := 2\<rparr>)"
  using abyss_write_then_read [OF ex_abyss_facts(2) ex_open_facts(1-3) _ ex_open_facts(4,5), of 10 2 "''hi''"]
    ex_abyss_facts(3) by (auto simp: abyss_count_def)

lemma ex_written:
  obtains ab where "abyssfs_write ex_open ''hi'' 2 ex_abyss = Inr (2, ab)" "abyss_inv ab []" "blk ab 0 \<noteq> 0"
    "size_of ab 0 = 2"
proof -
  obtain ab1 where ab1: "abyssfs_write ex_open ''hi'' 2 ex_abyss = abyssfs_write ex_open ''hi'' 2 ab1"
    "abyss_inv ab1 []" "9 \<le> blk ab1 0" "size_of ab1 0 = size_of ex_abyss 0"
    by (rule abyssfs_write_first [OF ex_abyss_facts(2) ex_open_facts(1,3) _ ex_open_facts(4), of 10])
      (use ex_abyss_facts(3) in auto)
  have "owner ab1 0" "blk ab1 0 \<noteq> 0"
    using ab1(3) by (simp_all add: owner_def)
  from abyssfs_write_inv [OF ab1(2) ex_open_facts(1) this(1) _ this(2), of 2 "''hi''"]
  obtain ab where "abyssfs_write ex_open ''hi'' 2 ab1 = Inr (int (abyss_count 2), ab)" "abyss_inv ab []"
    "blk ab 0 = blk ab1 0" "size_of ab 0 = (size_of ab1 0 + abyss_count 2) mod 2 ^ 32"
    by (auto simp: abyss_count_def)
  then show thesis
    using that ab1 ex_open_facts(5) by (simp add: abyss_count_def)
qed

theorem abyss_second_write_overwrites_witness:
  "\<exists>ab ab'. abyssfs_write ex_open ''hi'' 2 ex_abyss = Inr (2, ab) \<and> abyssfs_write ex_open ''x'' 1 ab = Inr (1, ab') \<and>
    length (contents ab' 0) = 3 \<and> take 1 (contents ab' 0) = ''x''"
proof -
  obtain ab where ab: "abyssfs_write ex_open ''hi'' 2 ex_abyss = Inr (2, ab)" "abyss_inv ab []" "blk ab 0 \<noteq> 0"
    "size_of ab 0 = 2"
    by (rule ex_written)
  have "owner ab 0"
    by (simp add: owner_def)
  then show ?thesis
    using abyss_second_write_overwrites [OF ab(2) ex_open_facts(1) _ _ ab(3), of 1 "''x''"] ab(1,4)
    by (auto simp: abyss_count_def)
qed


theorem abyss_read_dir_lists_witness:
  "abyssfs_read_dir ''/'' 32 ex_abyss = Inr (0, [\<lparr>d_inode = 1, d_name = ''.''\<rparr>, \<lparr>d_inode = 1, d_name = ''..''\<rparr>])"
  using abyss_read_dir_lists [OF ex_abyss_facts(2), of "''/''" 32] by simp


theorem abyss_mkdir_then_list_witness:
  "\<exists>(w :: u32) ab'. abyssfs_mkdir ''a'' root_cwd ex_abyss = Inr (0, ab') \<and> mode_of ab' (unat w) AND 0x4000 \<noteq> 0 \<and>
    abyssfs_read_dir ''a'' 32 ab' = Inr (0, [\<lparr>d_inode = ucast w, d_name = ''.''\<rparr>, \<lparr>d_inode = 1, d_name = ''..''\<rparr>])"
proof -
  have "\<forall>i. 10 \<le> i \<and> i < 64 \<and> \<not> used_block ex_abyss i \<longrightarrow> get8 (disk ex_abyss) (4096 * i + 261) = 0"
    using ex_abyss_facts(5) by (simp add: get8_def)
  moreover have "mode_of ex_abyss 2 = 0" "\<not> used_block ex_abyss 10"
    using ex_abyss_facts(3,4) by simp_all
  ultimately obtain w :: u32 and ab' where "abyssfs_mkdir ''a'' root_cwd ex_abyss = Inr (0, ab')"
    "mode_of ab' (unat w) AND 0x4000 \<noteq> 0"
    "abyssfs_read_dir ''a'' 32 ab' = Inr (0, [\<lparr>d_inode = ucast w, d_name = ''.''\<rparr>, \<lparr>d_inode = 1, d_name = ''..''\<rparr>])"
    using abyss_mkdir_then_list [OF ex_abyss_facts(2) ex_name, of 2 10] by auto
  then show ?thesis
    by (intro exI [of _ w] exI [of _ ab']) simp
qed

theorem abyss_nested_unlink_fails_witness: "abyssfs_unlink ''/d/f'' ex_abyss = Inr (-1, ex_abyss)"
  by (rule abyss_nested_unlink_fails [OF ex_abyss_facts(2)]) simp_all

theorem abyss_free_count_off_by_one_witness:
  "unat (free_blocks (sb ex_abyss)) = card {i. i < 64 \<and> \<not> used_block ex_abyss i} + 1"
  by (rule abyss_free_count_off_by_one [OF ex_kalloc(2,1) ex_abyss_facts(1)])

end
