(* ===== verification/Vfs_Spec.thy ===== *)
theory Vfs_Spec
  imports Vfs Ramfs_Spec Scheduler Abyss_Theorems
begin

text \<open>
  Correctness of \<open>vfs.c\<close>: which mount a path belongs to, how descriptors are given out, that a file
  of /tmp is read back as it was written through the system calls, and what \<open>vfs_init\<close> builds.
\<close>

section \<open>Mounts\<close>

abbreviation mount_step :: "string \<Rightarrow> mount_point \<Rightarrow> mount_point option \<times> nat \<Rightarrow> mount_point option \<times> nat" where
  "mount_step path m acc \<equiv> (case acc of (best, best_len) \<Rightarrow>
     if prefix (mp_path m) path \<and> length (mp_path m) > best_len
     then (Some m, length (mp_path m)) else (best, best_len))"

lemma find_mount_fold:
  "(\<forall>m. b = Some m \<longrightarrow> prefix (mp_path m) path \<and> l = length (mp_path m)) \<Longrightarrow> (b = None \<longrightarrow> l = 0) \<Longrightarrow>
    fold (mount_step path) ms (b, l) = (b', l') \<Longrightarrow>
    l \<le> l' \<and> (\<forall>m \<in> set ms. prefix (mp_path m) path \<longrightarrow> length (mp_path m) \<le> l') \<and>
    (b' = None \<longrightarrow> l' = 0 \<and> b = None) \<and>
    (\<forall>m. b' = Some m \<longrightarrow> (m \<in> set ms \<or> b = Some m) \<and> prefix (mp_path m) path \<and> l' = length (mp_path m))"
proof (induction ms arbitrary: b l)
  case (Cons m ms)
  obtain b1 l1 where s: "mount_step path m (b, l) = (b1, l1)"
    by (cases "mount_step path m (b, l)")
  have s1: "\<forall>m. b1 = Some m \<longrightarrow> prefix (mp_path m) path \<and> l1 = length (mp_path m)" "b1 = None \<longrightarrow> l1 = 0"
    "l \<le> l1" "prefix (mp_path m) path \<longrightarrow> length (mp_path m) \<le> l1" "b1 = b \<or> b1 = Some m"
    using s Cons.prems(1,2) by (auto split: if_splits)
  have "fold (mount_step path) ms (b1, l1) = (b', l')"
    using Cons.prems(3) s by simp
  from Cons.IH [OF s1(1,2) this] show ?case
    using s1 by auto
qed auto

lemma find_mount_longest:
  assumes "path \<noteq> []" "path \<noteq> ''/''"
  shows "case find_mount path ks of
      None \<Rightarrow> \<forall>m \<in> set (mount_points ks). prefix (mp_path m) path \<longrightarrow> mp_path m = []
    | Some m \<Rightarrow> m \<in> set (mount_points ks) \<and> prefix (mp_path m) path \<and>
        (\<forall>k \<in> set (mount_points ks). prefix (mp_path k) path \<longrightarrow> length (mp_path k) \<le> length (mp_path m))"
proof -
  obtain b l where f: "fold (mount_step path) (mount_points ks) (None, 0) = (b, l)"
    by (cases "fold (mount_step path) (mount_points ks) (None, 0)")
  have "find_mount path ks = b"
    using assms f by (simp add: find_mount_def)
  then show ?thesis
    using find_mount_fold [OF _ _ f] by (cases b) auto
qed

text \<open>The mounts that \<open>vfs_init\<close> makes.\<close>

definition booted_mounts :: "kstate \<Rightarrow> bool" where
  "booted_mounts ks \<longleftrightarrow>
     map (\<lambda>m. (mp_path m, mp_fs m)) (mount_points ks) = [(''/'', Abyssfs_Type), (''/tmp'', Ramfs_Type)]"

lemma find_mount_booted:
  assumes "booted_mounts ks" and "prefix ''/'' path"
  shows "map_option mp_fs (find_mount path ks) =
    Some (if prefix ''/tmp'' path then Ramfs_Type else Abyssfs_Type)"
proof -
  obtain m1 m2 where m: "mount_points ks = [m1, m2]" "mp_path m1 = ''/''" "mp_fs m1 = Abyssfs_Type"
    "mp_path m2 = ''/tmp''" "mp_fs m2 = Ramfs_Type"
    using assms(1) by (auto simp: booted_mounts_def map_eq_Cons_conv)
  show ?thesis
    using assms(2) by (auto simp: find_mount_def m)
qed

section \<open>Descriptors\<close>

lemma get_set_file [simp]:
  "length (fd_table ks) = MAX_FD \<Longrightarrow> 0 \<le> fd \<Longrightarrow> fd < 32 \<Longrightarrow> get_file fd (set_file fd f ks) = f"
  by (simp add: get_file_def set_file_def)

lemma alloc_fd_some:
  assumes "next_fd ks < MAX_FD" and "length (fd_table ks) = MAX_FD"
  shows "fst (alloc_fd f ks) = int (next_fd ks)" "get_file (int (next_fd ks)) (snd (alloc_fd f ks)) = Some f"
    "next_fd (snd (alloc_fd f ks)) = next_fd ks + 1" "length (fd_table (snd (alloc_fd f ks))) = MAX_FD"
    "fd \<noteq> int (next_fd ks) \<Longrightarrow> get_file fd (snd (alloc_fd f ks)) = get_file fd ks"
  using assms by (auto simp: alloc_fd_def get_file_def)

lemma alloc_fd_other [simp]:
  "k_heap (snd (alloc_fd f ks)) = k_heap ks" "k_ramfs (snd (alloc_fd f ks)) = k_ramfs ks"
  "k_abyss (snd (alloc_fd f ks)) = k_abyss ks" "k_pt (snd (alloc_fd f ks)) = k_pt ks"
  "mount_points (snd (alloc_fd f ks)) = mount_points ks"
  by (simp_all add: alloc_fd_def)

lemma set_file_other [simp]:
  "k_heap (set_file fd f ks) = k_heap ks" "k_ramfs (set_file fd f ks) = k_ramfs ks"
  "k_abyss (set_file fd f ks) = k_abyss ks" "k_pt (set_file fd f ks) = k_pt ks"
  "next_fd (set_file fd f ks) = next_fd ks" "length (fd_table (set_file fd f ks)) = length (fd_table ks)"
  by (simp_all add: set_file_def)

section \<open>A file of /tmp through the system calls\<close>

lemma absolute_path_abs: "prefix ''/'' path \<Longrightarrow> length path < 256 \<Longrightarrow> absolute_path path ks = Inr path"
  by (cases path) (auto simp: absolute_path_def)

lemma ramfs_create_new:
  assumes "prefix ''/tmp/'' p" and "length p < MAX_PATH" and "first_index (\<lambda>f. \<not> rf_used f) files = Some i"
    and "kalloc sizeof_vfs_file h = (Some a, h')"
  shows "ramfs_create p h files =
    Inr (Some \<lparr>f_ops = Ramfs_Fops, f_path = [], f_private = Ramfs_Slot i, f_pos = 0\<rparr>, h',
         files[i := new_ramfs_file p (files ! i)])"
  using assms by (simp add: ramfs_create_def new_ramfs_file_def Let_def)

text \<open>The handles that creating and opening give out.\<close>

definition tmp_handle :: "string \<Rightarrow> nat \<Rightarrow> vfs_file" where
  "tmp_handle p i = \<lparr>f_ops = Ramfs_Fops, f_path = p, f_private = Ramfs_Slot i, f_pos = 0\<rparr>"

lemma tmp_handle_simps [simp]:
  "f_ops (tmp_handle p i) = Ramfs_Fops" "f_pos (tmp_handle p i) = 0" "ramfs_handle (tmp_handle p i) i \<longleftrightarrow> i < MAX_FILES"
  by (simp_all add: tmp_handle_def ramfs_handle_def)

lemma vfs_create_tmp_eq:
  assumes "prefix ''/tmp/'' p" and "length p < MAX_PATH" and "first_index (\<lambda>f. \<not> rf_used f) (k_ramfs ks) = Some i"
    and "kalloc sizeof_vfs_file (k_heap ks) = (Some a, h')"
  shows "vfs_create p ks = Inr (alloc_fd (tmp_handle [] i)
    (ks\<lparr>k_heap := h', k_ramfs := (k_ramfs ks)[i := new_ramfs_file p (k_ramfs ks ! i)]\<rparr>))"
proof -
  have "prefix ''/'' p"
    using assms(1) by (auto elim!: prefixE)
  then show ?thesis
    using assms(1,2) ramfs_create_new [OF assms(1-4)]
    by (simp add: vfs_create_def absolute_path_abs fs_create_def tmp_handle_def)
qed

lemma vfs_create_tmp:
  assumes "prefix ''/tmp/'' p" and "length p < MAX_PATH" and "first_index (\<lambda>f. \<not> rf_used f) (k_ramfs ks) = Some i"
    and "kalloc sizeof_vfs_file (k_heap ks) = (Some a, h')" and "next_fd ks < MAX_FD" and "length (fd_table ks) = MAX_FD"
  obtains ks' where "vfs_create p ks = Inr (int (next_fd ks), ks')" "k_heap ks' = h'"
    "k_ramfs ks' = (k_ramfs ks)[i := new_ramfs_file p (k_ramfs ks ! i)]"
    "get_file (int (next_fd ks)) ks' = Some (tmp_handle [] i)"
    "next_fd ks' = next_fd ks + 1" "length (fd_table ks') = MAX_FD" "k_pt ks' = k_pt ks"
proof -
  let ?ks1 = "ks\<lparr>k_heap := h', k_ramfs := (k_ramfs ks)[i := new_ramfs_file p (k_ramfs ks ! i)]\<rparr>"
  show thesis
    using that [of "snd (alloc_fd (tmp_handle [] i) ?ks1)"] vfs_create_tmp_eq [OF assms(1-4)] assms(5,6)
      alloc_fd_some [where ks = ?ks1 and f = "tmp_handle [] i"] by (simp add: prod_eq_iff)
qed

lemma vfs_open_tmp_eq:
  assumes "prefix ''/tmp/'' p" and "length p < MAX_PATH" and "ramfs_index (k_ramfs ks) p = Some i"
    and "kalloc sizeof_vfs_file (k_heap ks) = (Some a, h')" and "current_ns ks = Some []"
  shows "vfs_open p ks = Inr (alloc_fd (tmp_handle p i) (ks\<lparr>k_heap := h'\<rparr>))"
proof -
  have "resolve_path p ks = Inr p"
    using assms(2,5) by (simp add: resolve_path_def)
  moreover have "ramfs_open p (k_heap ks) (k_ramfs ks) = (Some (tmp_handle p i), h')"
    using assms(2,3,4) by (simp add: ramfs_open_def ramfs_index_def tmp_handle_def)
  ultimately show ?thesis
    using assms(1) by (simp add: vfs_open_def fs_open_def)
qed

lemma vfs_open_tmp:
  assumes "prefix ''/tmp/'' p" and "length p < MAX_PATH" and "ramfs_index (k_ramfs ks) p = Some i"
    and "kalloc sizeof_vfs_file (k_heap ks) = (Some a, h')" and "next_fd ks < MAX_FD" and "length (fd_table ks) = MAX_FD"
    and "current_ns ks = Some []"
  obtains ks' where "vfs_open p ks = Inr (int (next_fd ks), ks')" "k_ramfs ks' = k_ramfs ks"
    "get_file (int (next_fd ks)) ks' = Some (tmp_handle p i)" "length (fd_table ks') = MAX_FD"
proof -
  show thesis
    using that [of "snd (alloc_fd (tmp_handle p i) (ks\<lparr>k_heap := h'\<rparr>))"] vfs_open_tmp_eq [OF assms(1-4,7)] assms(5,6)
      alloc_fd_some [where ks = "ks\<lparr>k_heap := h'\<rparr>" and f = "tmp_handle p i"] by (simp add: prod_eq_iff)
qed

lemma vfs_write_tmp:
  assumes "get_file fd ks = Some fl" and "f_ops fl = Ramfs_Fops"
    and "ramfs_write fl buf cnt (k_ramfs ks) = Inr (r, fl', files)"
  shows "vfs_write fd buf cnt ks = Inr (r, set_file fd (Some fl') (ks\<lparr>k_ramfs := files\<rparr>))"
  using assms by (simp add: vfs_write_def)

lemma vfs_read_tmp:
  assumes "get_file fd ks = Some fl" and "f_ops fl = Ramfs_Fops"
    and "ramfs_read fl cnt (k_ramfs ks) = Inr (r, bs, fl')"
  shows "vfs_read fd cnt ks = Inr (r, bs, set_file fd (Some fl') ks)"
  using assms by (simp add: vfs_read_def)

lemma ramfs_index_same:
  assumes "length files' = length files" and "\<forall>j. j \<noteq> i \<longrightarrow> files' ! j = files ! j"
    and "rf_used (files' ! i) = rf_used (files ! i)" "rf_path (files' ! i) = rf_path (files ! i)"
  shows "ramfs_index files' p = ramfs_index files p"
  unfolding ramfs_index_def using assms by (intro first_index_cong) metis+

section \<open>Properties\<close>

text \<open>
  The mount of a path is the one with the longest matching prefix; after the boot a path
  from / belongs to the RAM file system exactly if it starts with the letters /tmp, also when they do
  not end at a slash, and to AbyssFS otherwise.
\<close>

theorem find_mount_correct:
  assumes "path \<noteq> []" and "path \<noteq> ''/''" and "find_mount path ks = Some m"
  shows "m \<in> set (mount_points ks) \<and> prefix (mp_path m) path \<and>
    (\<forall>k \<in> set (mount_points ks). prefix (mp_path k) path \<longrightarrow> length (mp_path k) \<le> length (mp_path m)) \<and>
    (booted_mounts ks \<and> prefix ''/'' path \<longrightarrow> mp_fs m = (if prefix ''/tmp'' path then Ramfs_Type else Abyssfs_Type))"
  using find_mount_longest [OF assms(1,2), of ks] assms(3) find_mount_booted [of ks path] by auto

text \<open>
  Property C10. A file created with \<open>vfs_create\<close> in /tmp, written through its descriptor and opened
  again by its path is read back byte for byte, as far as it fits 4096 bytes; the two calls give the
  next two descriptors.
\<close>

theorem vfs_tmp_roundtrip:
  assumes ok: "ramfs_ok (k_ramfs ks)" and p: "prefix ''/tmp/'' p" "cstr p" "length p < MAX_PATH"
    and none: "ramfs_look (k_ramfs ks) p = None" and slot: "first_index (\<lambda>f. \<not> rf_used f) (k_ramfs ks) = Some i"
    and heap: "kalloc sizeof_vfs_file (k_heap ks) = (Some a, h1)" "kalloc sizeof_vfs_file h1 = (Some a', h2)"
    and fds: "next_fd ks + 1 < MAX_FD" "length (fd_table ks) = MAX_FD" and ns: "current_ns ks = Some []"
    and buf: "min (unat cnt) MAX_CONTENT \<le> length buf"
  shows "\<exists>ks1 ks2 ks3 ks4. vfs_create p ks = Inr (int (next_fd ks), ks1) \<and>
    vfs_write (int (next_fd ks)) buf cnt ks1 = Inr (int (min (unat cnt) MAX_CONTENT), ks2) \<and>
    vfs_open p ks2 = Inr (int (next_fd ks) + 1, ks3) \<and>
    vfs_read (int (next_fd ks) + 1) cnt ks3 =
      Inr (int (min (unat cnt) MAX_CONTENT), take (min (unat cnt) MAX_CONTENT) buf, ks4)"
proof -
  let ?fd = "int (next_fd ks)" and ?k = "min (unat cnt) MAX_CONTENT"
  let ?fl = "tmp_handle [] i"
  let ?fs1 = "(k_ramfs ks)[i := new_ramfs_file p (k_ramfs ks ! i)]"
  have i: "i < length (k_ramfs ks)" "i < MAX_FILES" "\<not> rf_used (k_ramfs ks ! i)"
    using first_index_SomeD [OF slot] ramfs_ok_length [OF ok] by simp_all
  obtain ks1 where c: "vfs_create p ks = Inr (?fd, ks1)" "k_heap ks1 = h1" "k_ramfs ks1 = ?fs1"
    "get_file ?fd ks1 = Some ?fl" "next_fd ks1 = next_fd ks + 1" "length (fd_table ks1) = MAX_FD" "k_pt ks1 = k_pt ks"
    by (rule vfs_create_tmp [OF p(1,3) slot heap(1) _ fds(2)]) (use fds in auto)
  have ok1: "ramfs_ok ?fs1"
    using p by (intro ramfs_ok_update [OF ok]) (simp_all add: new_ramfs_file_def)
  have idx1: "ramfs_index ?fs1 p = Some i"
    unfolding ramfs_index_def
  proof (rule first_index_unique)
    show "\<not> (rf_used (?fs1 ! j) \<and> rf_path (?fs1 ! j) = p)" if "j < length ?fs1" "j \<noteq> i" for j
      using none that by (auto simp: ramfs_look_def ramfs_index_def first_index_None)
  qed (use i in \<open>simp_all add: new_ramfs_file_def\<close>)
  have h: "ramfs_handle ?fl i"
    using i by simp
  have wr: "ramfs_written ?fl cnt = ?k"
    by (simp add: ramfs_written_def)
  have d1: "rf_data (?fs1 ! i) = []"
    using i by (simp add: rf_data_def new_ramfs_file_def mem_slice_def)
  have cnt: "unat cnt < 2 ^ 64"
    using unsigned_less [of cnt] by simp
  obtain files where w: "ramfs_write ?fl buf cnt ?fs1 = Inr (int ?k, ?fl\<lparr>f_pos := of_nat ?k\<rparr>, files)" "ramfs_ok files"
    "\<forall>j. j \<noteq> i \<longrightarrow> files ! j = ?fs1 ! j" "rf_used (files ! i) = rf_used (?fs1 ! i)"
    "rf_path (files ! i) = rf_path (?fs1 ! i)" "rf_data (files ! i) = take ?k buf"
    by (rule ramfs_write_eq [OF ok1 h, of cnt buf]) (use cnt buf wr d1 in auto)
  let ?ks2 = "set_file ?fd (Some (?fl\<lparr>f_pos := of_nat ?k\<rparr>)) (ks1\<lparr>k_ramfs := files\<rparr>)"
  have wrote: "vfs_write ?fd buf cnt ks1 = Inr (int ?k, ?ks2)"
    using vfs_write_tmp [OF c(4) _ w(1) [folded c(3)]] by simp
  have "ramfs_index files p = Some i"
    using ramfs_index_same [OF _ w(3-5)] idx1 ramfs_ok_length [OF w(2)] ramfs_ok_length [OF ok1] by simp
  then obtain ks3 where o: "vfs_open p ?ks2 = Inr (int (next_fd ks) + 1, ks3)" "k_ramfs ks3 = files"
    "get_file (int (next_fd ks) + 1) ks3 = Some (tmp_handle p i)"
    using vfs_open_tmp [OF p(1,3), of ?ks2 i a' h2] c fds heap(2) ns
    by (auto simp: current_ns_def add.commute)
  let ?fl' = "tmp_handle p i"
  have "ramfs_handle ?fl' i"
    using i by simp
  note rd = ramfs_read_eq [OF w(2) this, of cnt]
  have "take (unat cnt) (drop (unat (f_pos ?fl')) (rf_data (files ! i))) = take ?k buf" "length (take ?k buf) = ?k"
    using w(6) buf by simp_all
  then have "ramfs_read ?fl' cnt files = Inr (int ?k, take ?k buf, ?fl'\<lparr>f_pos := of_nat ?k\<rparr>)"
    using rd cnt by (simp del: length_take)
  from vfs_read_tmp [OF o(3) _ this [folded o(2)]] show ?thesis
    using c(1) wrote o(1) by auto
qed

text \<open>
  Descriptors are never given out again: when 32 have been, opening fails whatever was
  closed before, although the entry of a closed descriptor is empty.
\<close>

theorem vfs_descriptors_exhausted:
  assumes "MAX_FD \<le> next_fd ks" and "vfs_close fd ks = (r, ks')" and "vfs_open path ks' = Inr (r', ks'')"
  shows "r' = -1 \<and> MAX_FD \<le> next_fd ks''"
proof -
  have "next_fd ks' = next_fd ks"
    using assms(2) by (auto simp: vfs_close_def split: option.splits)
  moreover have fo: "next_fd ks1 = next_fd ks'" if "fs_open fs p ks' = (f, ks1)" for fs p f ks1
    using that by (auto simp: fs_open_def split: filesystem_type.splits prod.splits)
  obtain p where "resolve_path path ks' = Inr p"
    using assms(3) by (auto simp: vfs_open_def res_Inr_iffs)
  moreover obtain f ks1 where f: "fs_open (if prefix ''/tmp/'' p then Ramfs_Type else Abyssfs_Type) p ks' = (f, ks1)"
    by (cases "fs_open (if prefix ''/tmp/'' p then Ramfs_Type else Abyssfs_Type) p ks'")
  ultimately show ?thesis
    using assms(1,3) fo [OF f] by (cases f) (simp_all add: vfs_open_def Let_def alloc_fd_def)
qed

section \<open>Concrete runs\<close>

definition ex_kstate :: kstate where
  "ex_kstate = \<lparr>k_heap = 0, k_ramfs = ramfs_init [], k_abyss = zero_abyss, registered_fs = [],
     mount_points = [\<lparr>mp_path = ''/'', mp_fs = Abyssfs_Type, mp_sb = \<lparr>s_magic = ABYSSFS_MAGIC, s_type = ''abyssfs''\<rparr>\<rparr>,
       \<lparr>mp_path = ''/tmp'', mp_fs = Ramfs_Type, mp_sb = \<lparr>s_magic = RAMFS_MAGIC, s_type = ''ramfs''\<rparr>\<rparr>],
     fd_table = replicate 32 None, next_fd = 0, k_pt = ex_boot\<rparr>"

lemma ex_kstate_facts [simp]:
  "k_heap ex_kstate = 0" "k_ramfs ex_kstate = ramfs_init []" "next_fd ex_kstate = 0"
  "length (fd_table ex_kstate) = 32" "current_ns ex_kstate = Some []" "booted_mounts ex_kstate"
  by (simp_all add: ex_kstate_def current_ns_def booted_mounts_def ex_boot_def init_process_def
      boot_ptable_def zero_process_def Let_def upd_proc_def)

theorem find_mount_correct_witness:
  "\<exists>m. find_mount ''/tmpfile'' ex_kstate = Some m \<and> mp_fs m = Ramfs_Type"
proof -
  obtain m where m: "find_mount ''/tmpfile'' ex_kstate = Some m"
    using find_mount_booted [of ex_kstate "''/tmpfile''"] by auto
  show ?thesis
    using find_mount_correct [OF _ _ m] m by auto
qed

theorem vfs_tmp_roundtrip_witness:
  "\<exists>ks1 ks2 ks3 ks4. vfs_create ''/tmp/a'' ex_kstate = Inr (0, ks1) \<and>
    vfs_write 0 ''hi!'' 3 ks1 = Inr (3, ks2) \<and> vfs_open ''/tmp/a'' ks2 = Inr (1, ks3) \<and>
    vfs_read 1 3 ks3 = Inr (3, ''hi!'', ks4)"
proof -
  have slot: "first_index (\<lambda>f. \<not> rf_used f) (k_ramfs ex_kstate) = Some 0"
    by (simp add: ramfs_init_numeral zero_ramfs_file_def)
  have k1: "kalloc sizeof_vfs_file (k_heap ex_kstate) = (Some 0, 304)"
    by (simp add: kalloc_def)
  have k2: "kalloc sizeof_vfs_file 304 = (Some 304, 608)"
    by (simp add: kalloc_def)
  show ?thesis
    using vfs_tmp_roundtrip [where p = "''/tmp/a''" and cnt = 3 and buf = "''hi!''", OF _ _ _ _ _ slot k1 k2]
      ramfs_init_ok by simp
qed

theorem vfs_descriptors_exhausted_witness:
  "\<exists>ks' ks''. vfs_close 0 (ex_kstate\<lparr>next_fd := 32\<rparr>) = (-1, ks') \<and>
    vfs_open ''/a'' ks' = Inr (-1, ks'') \<and> 32 \<le> next_fd ks''"
proof -
  let ?ks = "ex_kstate\<lparr>next_fd := 32\<rparr>"
  have c: "vfs_close 0 ?ks = (-1, ?ks)"
    by (simp add: vfs_close_def get_file_def ex_kstate_def)
  have "resolve_path ''/a'' ?ks = Inr ''/a''"
    using ex_kstate_facts(5) unfolding resolve_path_def
    by (simp add: current_ns_def del: ex_kstate_facts(5)) auto
  then obtain x where "vfs_open ''/a'' ?ks = Inr x"
    by (cases "fs_open Abyssfs_Type ''/a'' ?ks", cases "fst (fs_open Abyssfs_Type ''/a'' ?ks)")
      (auto simp: vfs_open_def Let_def)
  then have o: "vfs_open ''/a'' ?ks = Inr (fst x, snd x)"
    by simp
  show ?thesis
    using vfs_descriptors_exhausted [OF _ c o] o c by auto
qed

end
