(* ===== verification/Namespace.thy ===== *)
theory Namespace
  imports Vfs_Spec
begin

text \<open>
  \<open>namespace.c\<close>: the bindings of a process. \<open>bind(old, new)\<close> puts a binding in front of the list
  of the current process, \<open>unbind(new)\<close> takes the first one for a path out. The interface
  \<open>path_bindings\<close> is what the resolution of paths relies on; both directions in which \<open>vfs.c\<close> reads
  a binding are instances.
\<close>

section \<open>The code\<close>

abbreviation (input) MREPL :: int where "MREPL \<equiv> 16"
abbreviation (input) sizeof_namespace :: u64 where "sizeof_namespace \<equiv> 32"

definition create_namespace :: "string \<Rightarrow> string \<Rightarrow> int \<Rightarrow> u64 \<Rightarrow> ns_entry option \<times> u64" where
  "create_namespace old new flags heap_pos =
     (case kalloc sizeof_namespace heap_pos of
        (None, h) \<Rightarrow> (None, h)
      | (Some _, h) \<Rightarrow>
          (case kalloc (of_nat (length old) + 1) h of (op, h1) \<Rightarrow>
           case kalloc (of_nat (length new) + 1) h1 of (np, h2) \<Rightarrow>
             (if op = None \<or> np = None then None
              else Some \<lparr>old_path = old, new_path = new, ns_flags = flags\<rparr>, h2)))"

definition init_process_namespace :: "process \<Rightarrow> process" where
  "init_process_namespace p = p\<lparr>ns_mounts := []\<rparr>"

text \<open>
  Both directories are read into one entry to see that they exist; the count that the first call
  leaves is the size of the second.
\<close>

definition bind :: "string \<Rightarrow> string \<Rightarrow> int \<Rightarrow> kstate \<Rightarrow> (int \<times> kstate) res" where
  "bind old new flags ks =
     bind_res (vfs_read_dir old 1 ks) (\<lambda>(r1, es, ks1).
     if r1 < 0 then Inr (-1, ks1)
     else bind_res (vfs_read_dir new (length es) ks1) (\<lambda>(r2, _, ks2).
       if r2 < 0 then Inr (-1, ks2)
       else case create_namespace old new flags (k_heap ks2) of
              (None, h) \<Rightarrow> Inr (-1, ks2\<lparr>k_heap := h\<rparr>)
            | (Some ns, h) \<Rightarrow>
                (case current_process (k_pt ks2) of
                   None \<Rightarrow> Inr (0, ks2\<lparr>k_heap := h\<rparr>)
                 | Some cur \<Rightarrow>
                     Inr (0, ks2\<lparr>k_heap := h,
                       k_pt := upd_proc cur (\<lambda>p. p\<lparr>ns_mounts := ns # ns_mounts p\<rparr>) (k_pt ks2)\<rparr>))))"

definition mount :: "string \<Rightarrow> string \<Rightarrow> int \<Rightarrow> string \<Rightarrow> int" where
  "mount srv old flags spec = 0"

text \<open>The loop of \<open>unbind\<close>: the list without its first entry for the path, if there is one.\<close>

fun unbind_loop :: "string \<Rightarrow> ns_entry list \<Rightarrow> ns_entry list option" where
  "unbind_loop path [] = None"
| "unbind_loop path (e # es) =
     (if new_path e = path then Some es else map_option ((#) e) (unbind_loop path es))"

definition unbind :: "string option \<Rightarrow> kstate \<Rightarrow> (int \<times> kstate) res" where
  "unbind path ks =
     (case current_process (k_pt ks) of
        None \<Rightarrow> Inr (-1, ks)
      | Some cur \<Rightarrow>
          bind_res (of_option Null_Deref path) (\<lambda>p.
            case unbind_loop p (ns_mounts (procs (k_pt ks) cur)) of
              None \<Rightarrow> Inr (-1, ks)
            | Some es \<Rightarrow> Inr (0, ks\<lparr>k_pt := upd_proc cur (\<lambda>q. q\<lparr>ns_mounts := es\<rparr>) (k_pt ks)\<rparr>)))"

section \<open>The interface\<close>

text \<open>
  Stacked bindings of a source path to a target path: a new binding hides older ones for every path
  that starts with its key, and taking the newest binding of a target away uncovers the older ones.
\<close>

locale path_bindings =
  fixes add :: "string \<Rightarrow> string \<Rightarrow> 'n \<Rightarrow> 'n"
    and remove :: "string \<Rightarrow> 'n \<Rightarrow> 'n option"
    and lookup :: "'n \<Rightarrow> string \<Rightarrow> (string \<times> string) option"
    and key :: "string \<Rightarrow> string \<Rightarrow> string"
    and img :: "string \<Rightarrow> string \<Rightarrow> string"
  assumes lookup_add: "lookup (add old new n) p =
      (if prefix (key old new) p then Some (img old new, drop (length (key old new)) p) else lookup n p)"
    and remove_add: "remove new' (add old new n) =
      (if new' = new then Some n else map_option (add old new) (remove new' n))"
begin

definition add_all :: "(string \<times> string) list \<Rightarrow> 'n \<Rightarrow> 'n" where
  "add_all bs n = fold (\<lambda>(old, new). add old new) bs n"

fun remove_all :: "string list \<Rightarrow> 'n \<Rightarrow> 'n option" where
  "remove_all [] n = Some n"
| "remove_all (p # ps) n = Option.bind (remove p n) (remove_all ps)"

lemma lookup_bound: "lookup (add old new n) (key old new @ r) = Some (img old new, r)"
  by (simp add: lookup_add)

lemma lookup_other: "\<not> prefix (key old new) p \<Longrightarrow> lookup (add old new n) p = lookup n p"
  by (simp add: lookup_add)

text \<open>Bindings that are taken away in the reverse order leave no trace.\<close>

lemma remove_added: "remove_all (rev (map snd bs)) (add_all bs n) = Some n"
proof (induction bs rule: rev_induct)
  case (snoc b bs)
  obtain old new where b: "b = (old, new)"
    by (cases b)
  have "add_all (bs @ [b]) n = add old new (add_all bs n)"
    by (simp add: add_all_def b)
  then show ?case
    using snoc by (simp add: b remove_add)
qed (simp add: add_all_def)

text \<open>Bindings with other targets do not matter for the removal of one.\<close>

lemma remove_under:
  "new \<notin> snd ` set bs \<Longrightarrow> remove new (add_all bs (add old new n)) = Some (add_all bs n)"
proof (induction bs rule: rev_induct)
  case (snoc b bs)
  then show ?case
    by (cases b) (auto simp: add_all_def remove_add)
qed (simp add: add_all_def remove_add)

end

section \<open>The two readings of a binding\<close>

text \<open>
  \<open>resolve_namespace_path\<close> replaces the target by the source, \<open>resolve_path\<close> the source by the
  target: what the first matching entry contributes, and the rest of the path.
\<close>

definition new_to_old :: "ns_entry list \<Rightarrow> string \<Rightarrow> (string \<times> string) option" where
  "new_to_old ns path =
     map_option (\<lambda>e. (old_path e, drop (length (new_path e)) path)) (List.find (\<lambda>e. prefix (new_path e) path) ns)"

definition old_to_new :: "ns_entry list \<Rightarrow> string \<Rightarrow> (string \<times> string) option" where
  "old_to_new ns path =
     map_option (\<lambda>e. (new_path e, drop (length (old_path e)) path)) (List.find (\<lambda>e. prefix (old_path e) path) ns)"

definition ns_add :: "int \<Rightarrow> string \<Rightarrow> string \<Rightarrow> ns_entry list \<Rightarrow> ns_entry list" where
  "ns_add flags old new = (#) \<lparr>old_path = old, new_path = new, ns_flags = flags\<rparr>"

interpretation ns_fwd: path_bindings "ns_add flags" unbind_loop new_to_old "\<lambda>old new. new" "\<lambda>old new. old"
  for flags
  by unfold_locales (auto simp: ns_add_def new_to_old_def)

interpretation ns_bwd: path_bindings "ns_add flags" unbind_loop old_to_new "\<lambda>old new. old" "\<lambda>old new. new"
  for flags
  by unfold_locales (auto simp: ns_add_def old_to_new_def)

text \<open>The resolution routines in terms of the readings.\<close>

text \<open>Joining the image with the rest, as \<open>resolve_namespace_path\<close> does.\<close>

definition join_rest :: "string \<Rightarrow> string \<Rightarrow> string" where
  "join_rest r rest =
     (if rest = [] then r else if hd rest \<noteq> CHR ''/'' \<and> last r \<noteq> CHR ''/'' then r @ ''/'' @ rest else r @ rest)"

lemma resolve_path_eq:
  assumes "current_ns ks = Some ns"
  shows "resolve_path path ks = str_copy VFS_MAX_PATH
    (case old_to_new ns path of None \<Rightarrow> path | Some (r, rest) \<Rightarrow> r @ rest)"
  using assms by (auto simp: resolve_path_def old_to_new_def str_copy_def str_cat_def split: option.splits)

lemma resolve_namespace_path_none:
  "current_ns ks = Some ns \<Longrightarrow> new_to_old ns path = None \<Longrightarrow> resolve_namespace_path path ks = Inr (path, ks)"
  by (auto simp: resolve_namespace_path_def new_to_old_def split: option.splits)

lemma resolve_namespace_path_some:
  assumes "current_ns ks = Some ns" and "new_to_old ns path = Some (r, rest)"
    and "kalloc 256 (k_heap ks) = (Some a, h)" and "r \<noteq> []" and "length (join_rest r rest) < VFS_MAX_PATH"
  shows "resolve_namespace_path path ks = Inr (join_rest r rest, ks\<lparr>k_heap := h\<rparr>)"
proof -
  obtain e where e: "List.find (\<lambda>e. prefix (new_path e) path) ns = Some e"
    "r = old_path e" "rest = drop (length (new_path e)) path"
    using assms(2) by (auto simp: new_to_old_def)
  show ?thesis
    using assms(1,3-5) by (auto simp: resolve_namespace_path_def e(1) join_rest_def simp flip: e(2,3))
qed

section \<open>What the operations change\<close>

text \<open>A listing takes heap for the resolved path, and changes nothing else.\<close>

definition same_but_heap :: "kstate \<Rightarrow> kstate \<Rightarrow> bool" where
  "same_but_heap ks ks' \<longleftrightarrow> ks' = ks\<lparr>k_heap := k_heap ks'\<rparr>"

lemma same_but_heap_refl [simp]: "same_but_heap ks ks" "same_but_heap ks (ks\<lparr>k_heap := h\<rparr>)"
  by (simp_all add: same_but_heap_def)

lemma same_but_heap_trans: "same_but_heap ks ks1 \<Longrightarrow> same_but_heap ks1 ks2 \<Longrightarrow> same_but_heap ks ks2"
  unfolding same_but_heap_def by (metis kstate.surjective kstate.update_convs(1) kstate.select_convs(1))

lemma find_mount_cong: "mount_points ks' = mount_points ks \<Longrightarrow> find_mount p ks' = find_mount p ks"
  by (simp add: find_mount_def)

lemma fs_read_dir_cong:
  "k_ramfs ks' = k_ramfs ks \<Longrightarrow> k_abyss ks' = k_abyss ks \<Longrightarrow> fs_read_dir fs p n ks' = fs_read_dir fs p n ks"
  by (simp add: fs_read_dir_def split: filesystem_type.split)

lemma same_but_heapD:
  assumes "same_but_heap ks ks'"
  shows "k_ramfs ks' = k_ramfs ks" "k_abyss ks' = k_abyss ks" "mount_points ks' = mount_points ks"
    "fd_table ks' = fd_table ks" "next_fd ks' = next_fd ks" "k_pt ks' = k_pt ks"
    "current_ns ks' = current_ns ks" "find_mount p ks' = find_mount p ks"
    "fs_read_dir fs p n ks' = fs_read_dir fs p n ks"
proof -
  have "ks' = ks\<lparr>k_heap := k_heap ks'\<rparr>"
    using assms by (simp add: same_but_heap_def)
  then obtain h where h: "ks' = ks\<lparr>k_heap := h\<rparr>" ..
  then show "find_mount p ks' = find_mount p ks" "fs_read_dir fs p n ks' = fs_read_dir fs p n ks"
    by (auto intro!: find_mount_cong fs_read_dir_cong)
  from h show "k_ramfs ks' = k_ramfs ks" "k_abyss ks' = k_abyss ks" "mount_points ks' = mount_points ks"
    "fd_table ks' = fd_table ks" "next_fd ks' = next_fd ks" "k_pt ks' = k_pt ks"
    "current_ns ks' = current_ns ks"
    by (simp_all add: current_ns_def)
qed

lemma resolve_namespace_path_heap:
  "resolve_namespace_path path ks = Inr (p, ks') \<Longrightarrow> same_but_heap ks ks'"
  by (auto simp: resolve_namespace_path_def res_Inr_iffs Let_def split: option.splits prod.splits if_splits)

lemma vfs_read_dir_heap: "vfs_read_dir path n ks = Inr (r, es, ks') \<Longrightarrow> same_but_heap ks ks'"
  by (auto simp: vfs_read_dir_def res_Inr_iffs dest!: resolve_namespace_path_heap split: option.splits)

lemma bind_ok:
  assumes "bind old new flags ks = Inr (0, ks')" and "current_process (k_pt ks) = Some cur"
  obtains ks1 where "same_but_heap ks ks1"
    "ks' = ks1\<lparr>k_pt := upd_proc cur (\<lambda>p. p\<lparr>ns_mounts := ns_add flags old new (ns_mounts p)\<rparr>) (k_pt ks1)\<rparr>"
proof -
  obtain r1 es ks1 where 1: "vfs_read_dir old 1 ks = Inr (r1, es, ks1)"
    using assms(1) by (auto simp: bind_def res_Inr_iffs)
  then obtain r2 es2 ks2 where 2: "\<not> r1 < 0" "vfs_read_dir new (length es) ks1 = Inr (r2, es2, ks2)" "\<not> r2 < 0"
    using assms(1) by (auto simp: bind_def res_Inr_iffs split: if_splits)
  note s = same_but_heap_trans [OF vfs_read_dir_heap [OF 1] vfs_read_dir_heap [OF 2(2)]]
  have cur: "current_process (k_pt ks2) = Some cur"
    using assms(2) same_but_heapD(6) [OF s] by simp
  obtain ns h where ns: "create_namespace old new flags (k_heap ks2) = (Some ns, h)"
    using assms(1) 1 2 by (cases "create_namespace old new flags (k_heap ks2)", cases "fst (create_namespace old new flags (k_heap ks2))")
      (auto simp: bind_def)
  then have e: "ns = \<lparr>old_path = old, new_path = new, ns_flags = flags\<rparr>"
    by (auto simp: create_namespace_def split: prod.splits option.splits if_splits)
  have s': "same_but_heap ks (ks2\<lparr>k_heap := h\<rparr>)"
    by (rule same_but_heap_trans [OF s]) simp
  show thesis
    by (rule that [OF s']) (use assms(1) 1 2 ns cur e in \<open>simp add: bind_def ns_add_def\<close>)
qed

lemma bind_current:
  assumes "bind old new flags ks = Inr (0, ks')" and "current_ns ks = Some ns"
  shows "current_ns ks' = Some (ns_add flags old new ns)"
    "find_mount p ks' = find_mount p ks" "fs_read_dir fs p n ks' = fs_read_dir fs p n ks"
proof -
  obtain cur where cur: "current_process (k_pt ks) = Some cur" "ns = ns_mounts (procs (k_pt ks) cur)"
    using assms(2) by (auto simp: current_ns_def)
  obtain ks1 where ks1: "same_but_heap ks ks1"
    "ks' = ks1\<lparr>k_pt := upd_proc cur (\<lambda>p. p\<lparr>ns_mounts := ns_add flags old new (ns_mounts p)\<rparr>) (k_pt ks1)\<rparr>"
    by (rule bind_ok [OF assms(1) cur(1)])
  show "current_ns ks' = Some (ns_add flags old new ns)"
    using cur same_but_heapD(6) [OF ks1(1)] by (simp add: ks1(2) current_ns_def upd_proc_def)
  show "find_mount p ks' = find_mount p ks" "fs_read_dir fs p n ks' = fs_read_dir fs p n ks"
    using same_but_heapD(1-3) [OF ks1(1)] by (auto simp: ks1(2) intro!: find_mount_cong fs_read_dir_cong)
qed

section \<open>Sequences of bindings\<close>

fun bind_run :: "(string \<times> string) list \<Rightarrow> kstate \<Rightarrow> kstate option" where
  "bind_run [] ks = Some ks"
| "bind_run ((old, new) # bs) ks =
     (case bind old new MREPL ks of Inr (r, ks') \<Rightarrow> if r = 0 then bind_run bs ks' else None | Inl _ \<Rightarrow> None)"

fun unbind_run :: "string list \<Rightarrow> kstate \<Rightarrow> kstate option" where
  "unbind_run [] ks = Some ks"
| "unbind_run (p # ps) ks =
     (case unbind (Some p) ks of Inr (r, ks') \<Rightarrow> if r = 0 then unbind_run ps ks' else None | Inl _ \<Rightarrow> None)"

definition set_ns :: "pref \<Rightarrow> ns_entry list \<Rightarrow> ptable \<Rightarrow> ptable" where
  "set_ns cur ns pt = upd_proc cur (\<lambda>p. p\<lparr>ns_mounts := ns\<rparr>) pt"

lemma set_ns_simps [simp]:
  "set_ns cur ns' (set_ns cur ns pt) = set_ns cur ns' pt"
  "current_process (set_ns cur ns pt) = current_process pt"
  "ns_mounts (procs (set_ns cur ns pt) cur) = ns"
  "set_ns cur (ns_mounts (procs pt cur)) pt = pt"
  by (simp_all add: set_ns_def upd_proc_def)

lemma bind_run_ns:
  "bind_run bs ks = Some ks' \<Longrightarrow> current_process (k_pt ks) = Some cur \<Longrightarrow>
    k_pt ks' = set_ns cur (ns_fwd.add_all MREPL bs (ns_mounts (procs (k_pt ks) cur))) (k_pt ks)"
proof (induction bs arbitrary: ks)
  case (Cons b bs)
  obtain old new where b: "b = (old, new)"
    by (cases b)
  obtain ks1 where 1: "bind old new MREPL ks = Inr (0, ks1)" "bind_run bs ks1 = Some ks'"
    using Cons.prems(1) by (auto simp: b split: sum.splits if_splits)
  obtain ks0 where "same_but_heap ks ks0"
    "ks1 = ks0\<lparr>k_pt := upd_proc cur (\<lambda>p. p\<lparr>ns_mounts := ns_add MREPL old new (ns_mounts p)\<rparr>) (k_pt ks0)\<rparr>"
    by (rule bind_ok [OF 1(1) Cons.prems(2)])
  then have pt: "k_pt ks1 = set_ns cur (ns_add MREPL old new (ns_mounts (procs (k_pt ks) cur))) (k_pt ks)"
    using same_but_heapD(6) [of ks ks0] by (simp add: set_ns_def upd_proc_def)
  show ?case
    using Cons.IH [OF 1(2)] Cons.prems(2) by (simp add: pt b ns_fwd.add_all_def)
qed (simp add: ns_fwd.add_all_def)

lemma unbind_run_ns:
  "current_process (k_pt ks) = Some cur \<Longrightarrow>
    ns_fwd.remove_all ps (ns_mounts (procs (k_pt ks) cur)) = Some ns \<Longrightarrow>
    unbind_run ps ks = Some (ks\<lparr>k_pt := set_ns cur ns (k_pt ks)\<rparr>)"
proof (induction ps arbitrary: ks)
  case (Cons p ps)
  obtain ns1 where 1: "unbind_loop p (ns_mounts (procs (k_pt ks) cur)) = Some ns1"
    "ns_fwd.remove_all ps ns1 = Some ns"
    using Cons.prems(2) by (auto simp: bind_eq_Some_conv)
  have "unbind (Some p) ks = Inr (0, ks\<lparr>k_pt := set_ns cur ns1 (k_pt ks)\<rparr>)"
    using Cons.prems(1) 1(1) by (simp add: unbind_def set_ns_def)
  then show ?case
    using Cons.IH [of "ks\<lparr>k_pt := set_ns cur ns1 (k_pt ks)\<rparr>"] Cons.prems(1) 1(2) by simp
qed auto

section \<open>Properties\<close>



text \<open>
  Property C22. Bindings are stacked: unbinding the targets of a sequence of successful bindings in
  the reverse order succeeds and gives the process table back as it was, older bindings of the same
  targets included.
\<close>

theorem unbind_restores:
  assumes "bind_run bs ks = Some ks'" and "current_process (k_pt ks) = Some cur"
  shows "\<exists>ks''. unbind_run (rev (map snd bs)) ks' = Some ks'' \<and> k_pt ks'' = k_pt ks \<and>
    k_ramfs ks'' = k_ramfs ks' \<and> k_abyss ks'' = k_abyss ks' \<and> fd_table ks'' = fd_table ks'"
proof -
  note pt = bind_run_ns [OF assms]
  then have cur: "current_process (k_pt ks') = Some cur"
    using assms(2) by simp
  have "ns_fwd.remove_all (rev (map snd bs)) (ns_mounts (procs (k_pt ks') cur)) = Some (ns_mounts (procs (k_pt ks) cur))"
    by (simp add: pt ns_fwd.remove_added)
  from unbind_run_ns [OF cur this] show ?thesis
    by (simp add: pt)
qed

section \<open>Concrete runs\<close>

text \<open>Process 1 binds /tmp to /tmp/a and then to /tmp/b, both of which the RAM file system lists.\<close>

lemma ex_resolve: "current_ns ks = Some [] \<Longrightarrow> resolve_namespace_path p ks = Inr (p, ks)"
  by (simp add: resolve_namespace_path_def)

lemma ex_read_tmp:
  assumes "mount_points ks = mount_points ex_kstate" and "prefix ''/tmp'' p"
    and "resolve_namespace_path q ks = Inr (p, ks1)" and "same_but_heap ks ks1"
  shows "\<exists>es. vfs_read_dir q 1 ks = Inr (0, es, ks1) \<and> length es = 1"
proof -
  have "prefix ''/'' p"
    using assms(2) by (auto elim!: prefixE)
  then obtain m where m: "find_mount p ks1 = Some m" "mp_fs m = Ramfs_Type"
    using find_mount_booted [of ex_kstate p] assms(1,2) find_mount_cong [of ks1 ex_kstate p]
      same_but_heapD(3) [OF assms(4)] by auto
  obtain es where "ramfs_read_dir p 1 (k_ramfs ks1) = (0, es)" "length es = 1"
    by (cases "k_ramfs ks1") (simp_all add: ramfs_read_dir_def Let_def)
  then show ?thesis
    using m assms(3) by (simp add: vfs_read_dir_def fs_read_dir_def)
qed

lemma ex_bind:
  "\<exists>ks'. bind ''/tmp'' ''/tmp/a'' MREPL ex_kstate = Inr (0, ks') \<and> k_heap ks' = 44"
proof -
  have c: "current_process (k_pt ex_kstate) = Some (Slot 0)"
    by (simp add: ex_kstate_def)
  obtain es es' where "vfs_read_dir ''/tmp'' 1 ex_kstate = Inr (0, es, ex_kstate)" "length es = 1"
    "vfs_read_dir ''/tmp/a'' 1 ex_kstate = Inr (0, es', ex_kstate)"
    using ex_read_tmp [of ex_kstate "''/tmp''" "''/tmp''" ex_kstate]
      ex_read_tmp [of ex_kstate "''/tmp/a''" "''/tmp/a''" ex_kstate] by (auto simp: ex_resolve)
  then show ?thesis
    by (simp add: bind_def create_namespace_def kalloc_def c)
qed



theorem unbind_restores_witness:
  "\<exists>ks' ks''. bind_run [(''/tmp'', ''/tmp/a'')] ex_kstate = Some ks' \<and>
    unbind_run [''/tmp/a''] ks' = Some ks'' \<and> k_pt ks'' = ex_boot"
proof -
  obtain ks' where b: "bind_run [(''/tmp'', ''/tmp/a'')] ex_kstate = Some ks'"
    using ex_bind by auto
  have c: "current_process (k_pt ex_kstate) = Some (Slot 0)"
    by (simp add: ex_kstate_def)
  show ?thesis
    using unbind_restores [OF b c] b by (auto simp: ex_kstate_def)
qed

end
