(* ===== verification/Messages.thy ===== *)
theory Messages
  imports Namespace
begin

unbundle bit_operations_syntax

text \<open>
  The dispatcher of \<open>message.c\<close> and the loading of programs in \<open>process.c\<close>: every request of a
  process to the kernel is a \<open>struct Message\<close> given to \<open>send_message\<close>, which calls the file system,
  the process operations or the name space. A request that has to wait gives up the processor in the
  middle; what is left of it is \<open>wait_resumed\<close>.
\<close>

section \<open>\<open>send_message\<close>\<close>

text \<open>A request is answered with a result, or its sender sleeps in \<open>MSG_WAIT\<close>.\<close>

datatype reply = Reply int message | Waiting pref message

text \<open>The 256 bytes of \<open>MSG_READ\<close> go to \<open>msg->data\<close>, whatever \<open>msg->size\<close> says.\<close>

definition send_read :: "message \<Rightarrow> kstate \<Rightarrow> (int \<times> message \<times> kstate) res" where
  "send_read msg ks =
     bind_res (vfs_read (mfd msg) 256 ks) (\<lambda>(n, bytes, ks1).
       if n > 0 then
         bind_res (of_option Null_Deref (mdata msg)) (\<lambda>buf.
         bind_res (guard_res (length bytes \<le> length buf) Out_Of_Bounds) (\<lambda>_.
           Inr (n, msg\<lparr>mdata := Some (bytes @ drop (length bytes) buf), msize := of_int n\<rparr>, ks1)))
       else Inr (n, msg, ks1))"

text \<open>The scan for a zombie child, before the sender sleeps and after it runs again.\<close>

definition wait_scan :: "pref \<Rightarrow> message \<Rightarrow> ptable \<Rightarrow> (int \<times> message) option res" where
  "wait_scan cur msg pt =
     map_res (map_option (\<lambda>q. (0, msg\<lparr>mstatus := exit_status (procs pt q)\<rparr>)))
       (list_find pt (zombie_child_of (pid (procs pt cur))))"

definition wait_resumed :: "pref \<Rightarrow> message \<Rightarrow> ptable \<Rightarrow> (int \<times> message) res" where
  "wait_resumed cur msg pt =
     map_res (\<lambda>r. case r of Some x \<Rightarrow> x | None \<Rightarrow> (-1, msg)) (wait_scan cur msg pt)"

definition send_wait :: "message \<Rightarrow> ptable \<Rightarrow> (reply \<times> ptable) res" where
  "send_wait msg pt =
     bind_res (of_option Null_Deref (current_process pt)) (\<lambda>cur.
     bind_res (wait_scan cur msg pt) (\<lambda>r.
     case r of
       Some (v, m) \<Rightarrow> Inr (Reply v m, pt)
     | None \<Rightarrow>
         map_res (\<lambda>pt'. (Waiting cur msg, pt'))
           (schedule (upd_proc cur (\<lambda>p. p\<lparr>pstate := PROC_BLOCKED\<rparr>) pt))))"

definition send_message :: "u64 \<Rightarrow> message \<Rightarrow> kstate \<Rightarrow> (reply \<times> kstate) res" where
  "send_message process_stacks msg ks =
     (if mtype msg = MSG_OPEN then
        bind_res (of_option Null_Deref (mpath msg)) (\<lambda>path.
          map_res (\<lambda>(fd, ks1). (Reply fd (msg\<lparr>mfd := fd\<rparr>), ks1)) (vfs_open path ks))
      else if mtype msg = MSG_READ then
        map_res (\<lambda>(n, m, ks1). (Reply n m, ks1)) (send_read msg ks)
      else if mtype msg = MSG_FORK then
        map_res (\<lambda>(new, pt). (Reply 0 (msg\<lparr>mpid := pid (procs pt new)\<rparr>), ks\<lparr>k_pt := pt\<rparr>))
          (create_process process_stacks (k_pt ks))
      else if mtype msg = MSG_EXEC then
        map_res (\<lambda>(r, pt). (Reply r msg, ks\<lparr>k_pt := pt\<rparr>)) (handle_exec_message msg (k_pt ks))
      else if mtype msg = MSG_WAIT then
        map_res (\<lambda>(r, pt). (r, ks\<lparr>k_pt := pt\<rparr>)) (send_wait msg (k_pt ks))
      else if mtype msg = MSG_PIPE then Inr (Reply 0 msg, ks)
      else if mtype msg = MSG_READ_DIR then
        map_res (\<lambda>(r, m, ks1). (Reply r m, ks1)) (handle_read_dir_message msg ks)
      else if mtype msg = MSG_UNBIND then
        map_res (\<lambda>(r, ks1). (Reply r msg, ks1)) (unbind (mpath msg) ks)
      else Inr (Reply (-1) msg, ks))"

definition handle_message :: "u64 \<Rightarrow> message \<Rightarrow> kstate \<Rightarrow> (reply \<times> kstate) res" where
  "handle_message process_stacks msg ks =
     (if mtype msg \<in> {MSG_OPEN, MSG_READ, MSG_FORK, MSG_EXEC, MSG_WAIT, MSG_PIPE}
      then send_message process_stacks msg ks
      else Inr (Reply (-1) msg, ks))"

section \<open>Loading a program\<close>

text \<open>
  \<open>load_program\<close> reads from the descriptor \<open>msg.status\<close>, which nothing has set. The memory at
  \<open>proc->ctx.pc\<close> is an argument and a result (\<open>mem\<close>); the null pointer has none.
\<close>

definition load_program :: "u64 \<Rightarrow> pref \<Rightarrow> string \<Rightarrow> char list \<Rightarrow> kstate \<Rightarrow>
    (int \<times> char list \<times> kstate) res" where
  "load_program process_stacks proc path code ks =
     (let msg = zero_message\<lparr>mtype := MSG_OPEN, mpath := Some path, mflags := 0\<rparr> in
      bind_res (send_message process_stacks msg ks) (\<lambda>(rep, ks1).
      case rep of Waiting _ _ \<Rightarrow> Inr (-1, code, ks1)
      | Reply r m \<Rightarrow>
          if r < 0 then Inr (-1, code, ks1)
          else
            let pc = ctx_pc (ctx (procs (k_pt ks1) proc));
                msg1 = m\<lparr>mtype := MSG_READ, mfd := mstatus m, msize := 4096,
                         mdata := (if pc = 0 then None else Some code)\<rparr> in
            bind_res (send_message process_stacks msg1 ks1) (\<lambda>(rep1, ks2).
            case rep1 of Waiting _ _ \<Rightarrow> Inr (-1, code, ks2)
            | Reply r1 m1 \<Rightarrow>
                let code' = (case mdata m1 of None \<Rightarrow> code | Some c \<Rightarrow> c) in
                if r1 < 0 then Inr (-1, code', ks2)
                else map_res (\<lambda>(_, ks3). (0, code', ks3))
                       (send_message process_stacks (m1\<lparr>mtype := MSG_CLOSE\<rparr>) ks2))))"

definition exec_process :: "u64 \<Rightarrow> string \<Rightarrow> char list \<Rightarrow> kstate \<Rightarrow> (int \<times> char list \<times> kstate) res" where
  "exec_process process_stacks path code ks =
     bind_res (of_option Null_Deref (current_process (k_pt ks))) (\<lambda>cur.
     map_res (\<lambda>(r, code', ks1).
         if r < 0 then (-1, code', ks1)
         else (0, code', ks1\<lparr>k_pt := upd_proc cur
                (\<lambda>p. p\<lparr>psp := process_stacks + of_nat (process_count (k_pt ks1)) * PROCESS_STACK_SIZE,
                       ctx := (ctx p)\<lparr>ctx_pc := PROCESS_LOAD_ADDR\<rparr>\<rparr>) (k_pt ks1)\<rparr>))
       (load_program process_stacks cur path code ks))"

definition get_pid :: "pref \<Rightarrow> ptable \<Rightarrow> int" where
  "get_pid p pt = pid (procs pt p)"

section \<open>Waiting\<close>

text \<open>The one zombie child there is is found.\<close>

lemma find_only:
  "distinct ps \<Longrightarrow> c \<in> set ps \<Longrightarrow> (\<And>p. p \<in> set ps \<Longrightarrow> P p \<longleftrightarrow> p = c) \<Longrightarrow> List.find P ps = Some c"
  by (induction ps) auto

lemma exit_makes_child:
  assumes inv: "sched_inv h ps pt" and cur: "current_process pt = Some cur" "cur \<in> set ps"
    and q: "parent_of ps cur pt = Some q" and none: "\<forall>p \<in> set ps. \<not> zombie_child_of (pid (procs pt q)) (procs pt p)"
    and e: "exit_process status pt = Inr pt'"
  shows "list_find pt' (zombie_child_of (pid (procs pt' q))) = Inr (Some cur)" "exit_status (procs pt' cur) = status"
proof -
  let ?pt1 = "exit_state status cur (Some q) pt"
  note qn = parent_of_neq [OF inv cur(2) q]
  have inv1: "sched_inv h ps ?pt1"
    using exit_state_inv [OF inv cur(2,1), of status] q by simp
  have c1: "current_process ?pt1 = Some cur"
    using cur(1) by (simp add: exit_state_def Let_def)
  have "schedule ?pt1 = Inr pt'"
    using exit_process_eq [OF inv cur(1)] e q by simp
  then obtain nx where nx: "nx \<noteq> cur" "pt' = switch_state cur nx ?pt1"
    using c1 by (auto elim: schedule_Inr [OF inv1])
  have inv': "sched_inv h ps pt'"
    by (rule exit_inv [OF inv e])
  have same: "pid (procs pt' p) = pid (procs pt p)" "parent_pid (procs pt' p) = parent_pid (procs pt p)" for p
    by (simp_all add: nx(2) switch_state_def exit_state_def Let_def)
  have z: "pstate (procs pt' p) = PROC_ZOMBIE \<longleftrightarrow> (p = cur \<or> p \<noteq> nx \<and> p \<noteq> q \<and> pstate (procs pt p) = PROC_ZOMBIE) \<or>
      (p = q \<and> p \<noteq> nx \<and> pstate (procs pt q) = PROC_ZOMBIE)" for p
    using nx(1) qn(2) by (auto simp: nx(2) switch_state_def switched_def exit_state_def Let_def)
  have "zombie_child_of (pid (procs pt' q)) (procs pt' p) \<longleftrightarrow> p = cur" if "p \<in> set ps" for p
    using none that qn(3) z [of p] by (auto simp: zombie_child_of_def same)
  then show "list_find pt' (zombie_child_of (pid (procs pt' q))) = Inr (Some cur)"
    unfolding sched_inv_find [OF inv'] using find_only [of ps cur] cur(2) inv by (simp add: sched_inv_def)
  show "exit_status (procs pt' cur) = status"
    using qn(2) by (simp add: nx(2) switch_state_def exit_state_def Let_def)
qed

section \<open>Properties\<close>

text \<open>
  Opening a file of /tmp by a message and reading the descriptor of the answer by a
  second one returns the first 256 bytes of its content, or all of it if there are fewer; the rest of
  the sender's buffer is untouched.
\<close>

theorem message_open_read:
  assumes ok: "ramfs_ok (k_ramfs ks)" and p: "prefix ''/tmp/'' p" "length p < MAX_PATH"
    and i: "ramfs_index (k_ramfs ks) p = Some i" and heap: "kalloc sizeof_vfs_file (k_heap ks) = (Some a, h)"
    and fds: "next_fd ks < MAX_FD" "length (fd_table ks) = MAX_FD" and ns: "current_ns ks = Some []"
    and buf: "mdata msg = Some buf" "256 \<le> length buf"
  defines "d \<equiv> take 256 (rf_data (k_ramfs ks ! i))"
  shows "\<exists>m1 ks1 m2 ks2.
    send_message process_stacks (msg\<lparr>mtype := MSG_OPEN, mpath := Some p\<rparr>) ks = Inr (Reply (int (next_fd ks)) m1, ks1) \<and>
    send_message process_stacks (m1\<lparr>mtype := MSG_READ\<rparr>) ks1 = Inr (Reply (int (length d)) m2, ks2) \<and>
    mdata m2 = Some (d @ drop (length d) buf) \<and> k_ramfs ks2 = k_ramfs ks"
proof -
  let ?fl = "tmp_handle p i"
  let ?fd = "int (next_fd ks)"
  obtain ks1 where o: "vfs_open p ks = Inr (?fd, ks1)" "k_ramfs ks1 = k_ramfs ks"
    "get_file ?fd ks1 = Some ?fl" "length (fd_table ks1) = MAX_FD"
    by (rule vfs_open_tmp [OF p i heap fds ns])
  have "ramfs_handle ?fl i"
    using ramfs_index_SomeD [OF i] ramfs_ok_length [OF ok] by simp
  from ramfs_read_eq [OF ok this, of 256]
  obtain fl' where "ramfs_read ?fl 256 (k_ramfs ks1) = Inr (int (length d), d, fl')"
    by (simp add: d_def o(2) del: length_take)
  from vfs_read_tmp [OF o(3) _ this] have r: "vfs_read ?fd 256 ks1 = Inr (int (length d), d, set_file ?fd (Some fl') ks1)"
    by simp
  have "length d \<le> length buf"
    using buf(2) by (simp add: d_def)
  then show ?thesis
    using o(1) r buf(1) o(2) by (auto simp: send_message_def send_read_def)
qed


text \<open>
  \<open>MSG_WAIT\<close> does not collect the child it reports: nothing changes, so that the next
  \<open>MSG_WAIT\<close> reports the same child again, and the answer does not say which child it is.
\<close>

theorem wait_message_does_not_collect:
  assumes "mtype msg = MSG_WAIT" and "current_process (k_pt ks) = Some cur"
    and "list_find (k_pt ks) (zombie_child_of (pid (procs (k_pt ks) cur))) = Inr (Some q)"
  shows "\<exists>msg'. send_message process_stacks msg ks = Inr (Reply 0 msg', ks) \<and>
    mstatus msg' = exit_status (procs (k_pt ks) q) \<and> mpid msg' = mpid msg \<and>
    send_message process_stacks msg' ks = Inr (Reply 0 msg', ks)"
  using assms by (simp add: send_message_def send_wait_def wait_scan_def)

text \<open>
  \<open>load_program\<close> opens the program and then reads another file: the code comes from
  descriptor 0, whatever path was given and whatever descriptor the answer named; the opened
  descriptor stays open, since there is no \<open>MSG_CLOSE\<close>.
\<close>

theorem load_program_reads_descriptor_zero:
  assumes "load_program process_stacks proc path code ks = Inr (0, code', ks')"
  shows "\<exists>fd ks1 n bytes. vfs_open path ks = Inr (fd, ks1) \<and> 0 \<le> fd \<and>
    vfs_read 0 256 ks1 = Inr (n, bytes, ks') \<and> 0 \<le> n \<and>
    code' = (if n > 0 then bytes @ drop (length bytes) code else code)"
proof -
  obtain fd ks1 where o: "vfs_open path ks = Inr (fd, ks1)"
    using assms by (auto simp: load_program_def send_message_def Let_def res_Inr_iffs)
  then have fd: "0 \<le> fd"
    using assms by (auto simp: load_program_def send_message_def zero_message_def split: if_splits)
  obtain n bytes ks2 where r: "vfs_read 0 256 ks1 = Inr (n, bytes, ks2)"
    using assms o fd by (auto simp: load_program_def send_message_def send_read_def zero_message_def Let_def res_Inr_iffs)
  show ?thesis
    using assms o fd r
    by (cases "ctx_pc (ctx (procs (k_pt ks1) proc)) = 0")
      (auto simp: load_program_def send_message_def send_read_def zero_message_def Let_def res_Inr_iffs split: if_splits)
qed

text \<open>
  Property C38. \<open>MSG_READ\<close> does not look at \<open>msg->size\<close>: from a file of /tmp that holds more than the sender's
  buffer, up to 256 bytes are copied past the end of the buffer, whatever size the message gives.
\<close>

theorem message_read_overflows:
  assumes ok: "ramfs_ok (k_ramfs ks)" and fl: "get_file (mfd msg) ks = Some fl" "f_ops fl = Ramfs_Fops" "ramfs_handle fl i"
    and pos: "unat (f_pos fl) + 256 \<le> length (rf_data (k_ramfs ks ! i))" and buf: "mdata msg = Some buf" "length buf < 256"
  shows "send_message process_stacks (msg\<lparr>mtype := MSG_READ, msize := n\<rparr>) ks = Inl Out_Of_Bounds"
proof -
  let ?d = "take 256 (drop (unat (f_pos fl)) (rf_data (k_ramfs ks ! i)))"
  have "length (rf_data (k_ramfs ks ! i)) \<le> MAX_CONTENT"
    using ramfs_ok_nth(3) [OF ok, of i] fl(3) by (simp add: ramfs_handle_def)
  then have "unat (f_pos fl) + unat (256 :: u64) < 2 ^ 64"
    using pos by simp
  from ramfs_read_eq [OF ok fl(3) this] obtain fl' where
    "ramfs_read fl 256 (k_ramfs ks) = Inr (int (length ?d), ?d, fl')"
    by (simp del: length_take)
  from vfs_read_tmp [OF fl(1,2) this]
  have "vfs_read (mfd msg) 256 ks = Inr (256, ?d, set_file (mfd msg) (Some fl') ks)"
    using pos by simp
  moreover have "length ?d = 256"
    using pos by simp
  ultimately show ?thesis
    using buf by (simp add: send_message_def send_read_def)
qed

section \<open>Concrete runs\<close>

definition ex_opened :: kstate where
  "ex_opened = ex_kstate\<lparr>k_ramfs := ex_ramfs\<rparr>"

lemma ex_opened_facts:
  "k_ramfs ex_opened = ex_ramfs" "k_heap ex_opened = 0" "next_fd ex_opened = 0" "length (fd_table ex_opened) = 32"
  "current_ns ex_opened = Some []" "ramfs_index ex_ramfs ''/tmp/a'' = Some 0" "rf_data (ex_ramfs ! 0) = []"
proof -
  show "current_ns ex_opened = Some []"
    using ex_kstate_facts(5) by (simp add: ex_opened_def current_ns_def del: ex_kstate_facts(5))
qed (simp_all add: ex_opened_def ex_ramfs_def ramfs_index_def ramfs_init_numeral new_ramfs_file_def rf_data_def mem_slice_def)

text \<open>A file of 300 bytes, read into a buffer of 64.\<close>

theorem message_read_overflows_witness:
  "\<exists>ks. send_message 0 (zero_message\<lparr>mdata := Some (replicate 64 NUL), mtype := MSG_READ, msize := 64\<rparr>) ks = Inl Out_Of_Bounds"
proof -
  let ?fs = "(ramfs_init [])[0 := (new_ramfs_file ''/tmp/a'' zero_ramfs_file)\<lparr>rf_size := 300\<rparr>]"
  let ?ks = "ex_opened\<lparr>k_ramfs := ?fs, fd_table := (fd_table ex_opened)[0 := Some (tmp_handle [] 0)]\<rparr>"
  have ok: "ramfs_ok ?fs"
    by (intro ramfs_ok_update ramfs_init_ok(1)) (simp_all add: new_ramfs_file_def)
  have get: "get_file 0 ?ks = Some (tmp_handle [] 0)"
    using ex_opened_facts(4) by (simp add: get_file_def)
  have "length (rf_data (?fs ! 0)) = 300"
    by (simp add: ramfs_init_def)
  then show ?thesis
    using message_read_overflows [where ks = ?ks and fl = "tmp_handle [] 0" and i = 0 and n = 64 and process_stacks = 0
        and msg = "zero_message\<lparr>mdata := Some (replicate 64 NUL)\<rparr>" and buf = "replicate 64 NUL"] ok get
    by (intro exI [of _ ?ks]) (simp add: zero_message_def)
qed

theorem message_open_read_witness:
  "\<exists>m1 ks1 m2 ks2.
    send_message 0 (zero_message\<lparr>mdata := Some (replicate 256 NUL), mtype := MSG_OPEN, mpath := Some ''/tmp/a''\<rparr>)
      ex_opened = Inr (Reply 0 m1, ks1) \<and>
    send_message 0 (m1\<lparr>mtype := MSG_READ\<rparr>) ks1 = Inr (Reply 0 m2, ks2)"
proof -
  have k: "kalloc sizeof_vfs_file (k_heap ex_opened) = (Some 0, 304)"
    by (simp add: kalloc_def ex_opened_facts)
  show ?thesis
    using message_open_read [where ks = ex_opened and p = "''/tmp/a''" and i = 0 and a = 0 and h = 304
        and msg = "zero_message\<lparr>mdata := Some (replicate 256 NUL)\<rparr>" and buf = "replicate 256 NUL" and process_stacks = 0]
      k ex_opened_facts ex_ramfs_ok by auto
qed


theorem wait_message_does_not_collect_witness:
  "\<exists>msg'. send_message 0 (zero_message\<lparr>mtype := MSG_WAIT\<rparr>) (ex_kstate\<lparr>k_pt := ex_exited\<rparr>) =
      Inr (Reply 0 msg', ex_kstate\<lparr>k_pt := ex_exited\<rparr>) \<and> mstatus msg' = 42"
proof -
  have "list_find ex_exited (zombie_child_of 1) = Inr (Some (Slot (Suc 0)))"
    by (simp add: sched_inv_find [OF ex_exited_inv] zombie_child_of_def)
  then show ?thesis
    using wait_message_does_not_collect [of "zero_message\<lparr>mtype := MSG_WAIT\<rparr>" "ex_kstate\<lparr>k_pt := ex_exited\<rparr>" "Slot 0"
        "Slot (Suc 0)" 0] by auto
qed

text \<open>Opening the empty file /tmp/a while descriptor 0 is free: the program is not read at all.\<close>

lemma ex_load: "\<exists>ks'. load_program 0 (Slot 0) ''/tmp/a'' ''code'' ex_opened = Inr (0, ''code'', ks')"
proof -
  have k: "kalloc sizeof_vfs_file (k_heap ex_opened) = (Some 0, 304)"
    by (simp add: kalloc_def ex_opened_facts)
  let ?fl = "tmp_handle ''/tmp/a'' 0"
  obtain ks1 where o: "vfs_open ''/tmp/a'' ex_opened = Inr (0, ks1)" "k_ramfs ks1 = ex_ramfs"
    "get_file 0 ks1 = Some ?fl"
    using vfs_open_tmp [OF _ _ _ k, of "''/tmp/a''" 0] ex_opened_facts by auto
  have "ramfs_read ?fl 256 ex_ramfs = Inr (0, [], ?fl)"
    using ramfs_read_eq [OF ex_ramfs_ok, of ?fl 0 256] ex_opened_facts(7) by (simp add: tmp_handle_def ramfs_handle_def)
  from vfs_read_tmp [OF o(3) _ this [folded o(2)]] have "vfs_read 0 256 ks1 = Inr (0, [], set_file 0 (Some ?fl) ks1)"
    by simp
  then show ?thesis
    using o(1) by (auto simp: load_program_def send_message_def send_read_def zero_message_def Let_def split: option.split)
qed

theorem load_program_reads_descriptor_zero_witness:
  "\<exists>fd ks1 n bytes ks'. vfs_open ''/tmp/a'' ex_opened = Inr (fd, ks1) \<and> vfs_read 0 256 ks1 = Inr (n, bytes, ks')"
proof -
  obtain ks' where "load_program 0 (Slot 0) ''/tmp/a'' ''code'' ex_opened = Inr (0, ''code'', ks')"
    using ex_load by blast
  from load_program_reads_descriptor_zero [OF this] show ?thesis
    by blast
qed

end
