(* ===== verification/Uart.thy ===== *)
theory Uart
  imports CString
begin

unbundle bit_operations_syntax

text \<open>
  \<open>uart.c\<close> and \<open>uart_debug.c\<close>: the PL011 driver. The device is a parameter, a function from the trace of
  register accesses so far and a register to the value that reading it gives; the driver extends the
  trace. A polling loop need not end (None), and ends on a device that drains.
\<close>

section \<open>Registers\<close>

datatype mmio_event = Read u64 u32 | Write u64 u32

type_synonym mmio_trace = "mmio_event list"
type_synonym device = "mmio_trace \<Rightarrow> u64 \<Rightarrow> u32"

text \<open>The addresses of the build for QEMU.\<close>

abbreviation (input) UART_DR :: u64 where "UART_DR \<equiv> 0x09000000"
abbreviation (input) UART_FR :: u64 where "UART_FR \<equiv> 0x09000018"
abbreviation (input) UART_IBRD :: u64 where "UART_IBRD \<equiv> 0x09000024"
abbreviation (input) UART_FBRD :: u64 where "UART_FBRD \<equiv> 0x09000028"
abbreviation (input) UART_LCRH :: u64 where "UART_LCRH \<equiv> 0x0900002C"
abbreviation (input) UART_CR :: u64 where "UART_CR \<equiv> 0x09000030"
abbreviation (input) FR_TXFF :: u32 where "FR_TXFF \<equiv> 32"
abbreviation (input) FR_RXFE :: u32 where "FR_RXFE \<equiv> 16"
abbreviation (input) FR_BUSY :: u32 where "FR_BUSY \<equiv> 8"
abbreviation (input) LF :: char where "LF \<equiv> CHR 0x0A"
abbreviation (input) CR :: char where "CR \<equiv> CHR 0x0D"

definition mmio_write :: "u64 \<Rightarrow> u32 \<Rightarrow> mmio_trace \<Rightarrow> mmio_trace" where
  "mmio_write reg val tr = tr @ [Write reg val]"

definition mmio_read :: "device \<Rightarrow> u64 \<Rightarrow> mmio_trace \<Rightarrow> u32 \<times> mmio_trace" where
  "mmio_read dev reg tr = (dev tr reg, tr @ [Read reg (dev tr reg)])"

text \<open>The loops \<open>while (mmio_read(reg) & flag) { }\<close>.\<close>

partial_function (option) poll :: "device \<Rightarrow> u64 \<Rightarrow> u32 \<Rightarrow> mmio_trace \<Rightarrow> mmio_trace option" where
  "poll dev reg flag tr =
     (case mmio_read dev reg tr of (v, tr1) \<Rightarrow> if v AND flag \<noteq> 0 then poll dev reg flag tr1 else Some tr1)"

section \<open>The driver\<close>

definition uart_init :: "mmio_trace \<Rightarrow> mmio_trace" where
  "uart_init tr =
     mmio_write UART_CR (1 OR push_bit 8 1 OR push_bit 9 1)
       (mmio_write UART_LCRH (push_bit 4 1 OR push_bit 5 1 OR push_bit 6 1)
          (mmio_write UART_FBRD 3 (mmio_write UART_IBRD 26 (mmio_write UART_CR 0 tr))))"

definition uart_putc :: "device \<Rightarrow> char \<Rightarrow> mmio_trace \<Rightarrow> mmio_trace option" where
  "uart_putc dev c tr = map_option (mmio_write UART_DR (of_nat (of_char c))) (poll dev UART_FR FR_TXFF tr)"

text \<open>
  \<open>uart_puts\<close> of the string at address \<open>a\<close>: after each character that ends at an address divisible by
  8, and at the end, it waits until the device is idle.
\<close>

fun uart_puts_loop :: "device \<Rightarrow> u64 \<Rightarrow> string \<Rightarrow> mmio_trace \<Rightarrow> mmio_trace option" where
  "uart_puts_loop dev a [] tr = Some tr"
| "uart_puts_loop dev a (c # s) tr =
     Option.bind (if c = LF then uart_putc dev CR tr else Some tr) (\<lambda>tr1.
     Option.bind (uart_putc dev c tr1) (\<lambda>tr2.
     Option.bind (if (a + 1) mod 8 = 0 then poll dev UART_FR FR_BUSY tr2 else Some tr2) (\<lambda>tr3.
       uart_puts_loop dev (a + 1) s tr3)))"

definition uart_puts :: "device \<Rightarrow> u64 \<Rightarrow> string \<Rightarrow> mmio_trace \<Rightarrow> mmio_trace option" where
  "uart_puts dev a s tr = Option.bind (uart_puts_loop dev a s tr) (poll dev UART_FR FR_BUSY)"

text \<open>The digits from bit \<open>4 * k - 4\<close> down to bit 0.\<close>

definition hex_digit :: "u64 \<Rightarrow> nat \<Rightarrow> char" where
  "hex_digit n i =
     (let digit = unat (drop_bit i n AND 0xF) in
      char_of (digit + (if digit < 10 then 48 else 97 - 10)))"

fun uart_hex_loop :: "device \<Rightarrow> u64 \<Rightarrow> nat \<Rightarrow> mmio_trace \<Rightarrow> mmio_trace option" where
  "uart_hex_loop dev n 0 tr = Some tr"
| "uart_hex_loop dev n (Suc k) tr = Option.bind (uart_putc dev (hex_digit n (4 * k)) tr) (uart_hex_loop dev n k)"

definition uart_hex :: "device \<Rightarrow> u64 \<Rightarrow> u64 \<Rightarrow> mmio_trace \<Rightarrow> mmio_trace option" where
  "uart_hex dev a n tr = Option.bind (uart_puts dev a ''0x'' tr) (uart_hex_loop dev n 16)"

definition uart_getc :: "device \<Rightarrow> mmio_trace \<Rightarrow> (char \<times> mmio_trace) option" where
  "uart_getc dev tr =
     map_option (\<lambda>tr1. case mmio_read dev UART_DR tr1 of (v, tr2) \<Rightarrow> (char_of (unat (v AND 0xFF)), tr2))
       (poll dev UART_FR FR_RXFE tr)"

text \<open>\<open>lit\<close> gives the address of a string constant.\<close>

definition uart_dump_regs :: "device \<Rightarrow> (string \<Rightarrow> u64) \<Rightarrow> u64 \<Rightarrow> u64 \<Rightarrow> u64 \<Rightarrow> mmio_trace \<Rightarrow> mmio_trace option" where
  "uart_dump_regs dev lit spsr elr sp tr =
     (let puts = (\<lambda>s. uart_puts dev (lit s) s); hex = uart_hex dev (lit ''0x'') in
      Option.bind (puts ''SPSR_EL1='' tr) (\<lambda>tr. Option.bind (hex spsr tr) (\<lambda>tr. Option.bind (puts ''  '' tr) (\<lambda>tr.
      Option.bind (puts ''ELR_EL1='' tr) (\<lambda>tr. Option.bind (hex elr tr) (\<lambda>tr. Option.bind (puts ''  '' tr) (\<lambda>tr.
      Option.bind (puts ''SP_EL0='' tr) (\<lambda>tr. Option.bind (hex sp tr) (\<lambda>tr. puts [LF] tr)))))))))"

section \<open>What is sent\<close>

text \<open>The characters a trace writes to the data register, and what a string becomes on the line.\<close>

fun sent :: "mmio_trace \<Rightarrow> string" where
  "sent [] = []"
| "sent (Write reg v # tr) = (if reg = UART_DR then [char_of (unat v)] else []) @ sent tr"
| "sent (Read reg v # tr) = sent tr"

fun crlf :: "string \<Rightarrow> string" where
  "crlf [] = []"
| "crlf (c # s) = (if c = LF then [CR, c] else [c]) @ crlf s"

text \<open>
  The protocol: every write to the data register comes right after a read of the flags in which the
  transmit FIFO was not full. The first argument says whether the last access was such a read.
\<close>

fun careful :: "bool \<Rightarrow> mmio_trace \<Rightarrow> bool" where
  "careful ready [] \<longleftrightarrow> True"
| "careful ready (Read reg v # tr) \<longleftrightarrow> careful (reg = UART_FR \<and> v AND FR_TXFF = 0) tr"
| "careful ready (Write reg v # tr) \<longleftrightarrow> (reg = UART_DR \<longrightarrow> ready) \<and> careful False tr"

text \<open>A flag that stays set for a bounded number of further reads only.\<close>

definition drains :: "device \<Rightarrow> u32 \<Rightarrow> bool" where
  "drains dev flag \<longleftrightarrow>
     (\<exists>b :: mmio_trace \<Rightarrow> nat. \<forall>tr. dev tr UART_FR AND flag \<noteq> 0 \<longrightarrow> b (tr @ [Read UART_FR (dev tr UART_FR)]) < b tr)"

lemma sent_append [simp]: "sent (xs @ ys) = sent xs @ sent ys"
  by (induction xs rule: sent.induct) auto

lemma crlf_append [simp]: "crlf (s @ t) = crlf s @ crlf t"
  by (induction s rule: crlf.induct) auto

lemma careful_mono: "careful False tr \<Longrightarrow> careful ready tr"
  by (cases tr; cases "hd tr") auto

lemma careful_append: "careful ready xs \<Longrightarrow> careful False ys \<Longrightarrow> careful ready (xs @ ys)"
  by (induction ready xs rule: careful.induct) (auto intro: careful_mono)

text \<open>A piece of the driver that ends, keeps the protocol and sends \<open>s\<close>.\<close>

definition sends :: "(mmio_trace \<Rightarrow> mmio_trace option) \<Rightarrow> string \<Rightarrow> bool" where
  "sends f s \<longleftrightarrow> (\<forall>tr. \<exists>ev. f tr = Some (tr @ ev) \<and> sent ev = s \<and> careful False ev)"

lemma sendsD: "sends f s \<Longrightarrow> \<exists>ev. f tr = Some (tr @ ev) \<and> sent ev = s \<and> careful False ev"
  by (simp add: sends_def)

lemma sends_bind:
  assumes "sends f s" and "sends g t"
  shows "sends (\<lambda>tr. Option.bind (f tr) g) (s @ t)"
  unfolding sends_def
proof
  fix tr
  obtain e1 where 1: "f tr = Some (tr @ e1)" "sent e1 = s" "careful False e1"
    using sendsD [OF assms(1)] by blast
  obtain e2 where 2: "g (tr @ e1) = Some ((tr @ e1) @ e2)" "sent e2 = t" "careful False e2"
    using sendsD [OF assms(2)] by blast
  show "\<exists>ev. Option.bind (f tr) g = Some (tr @ ev) \<and> sent ev = s @ t \<and> careful False ev"
    using 1 2 by (intro exI [of _ "e1 @ e2"]) (simp add: careful_append)
qed

lemma sends_nothing: "sends Some []"
  by (simp add: sends_def)

lemma poll_ends:
  assumes "drains dev flag"
  shows "\<exists>ev v. poll dev UART_FR flag tr = Some (tr @ ev @ [Read UART_FR v]) \<and> v AND flag = 0 \<and> sent ev = [] \<and>
    (\<forall>ready. careful ready ev)"
proof -
  obtain b :: "mmio_trace \<Rightarrow> nat" where
    b: "\<And>tr. dev tr UART_FR AND flag \<noteq> 0 \<Longrightarrow> b (tr @ [Read UART_FR (dev tr UART_FR)]) < b tr"
    using assms unfolding drains_def by blast
  show ?thesis
  proof (induction "b tr" arbitrary: tr rule: less_induct)
    case less
    show ?case
    proof (cases "dev tr UART_FR AND flag = 0")
      case True
      then show ?thesis
        by (subst poll.simps) (auto simp: mmio_read_def intro!: exI [of _ "[]"])
    next
      case False
      let ?e = "Read UART_FR (dev tr UART_FR)"
      obtain ev v where "poll dev UART_FR flag (tr @ [?e]) = Some ((tr @ [?e]) @ ev @ [Read UART_FR v])"
        "v AND flag = 0" "sent ev = []" "\<forall>ready. careful ready ev"
        using less [OF b [OF False]] by blast
      then show ?thesis
        using False by (subst poll.simps) (auto simp: mmio_read_def intro!: exI [of _ "?e # ev"])
    qed
  qed
qed

lemma poll_sends: "drains dev flag \<Longrightarrow> sends (poll dev UART_FR flag) []"
  unfolding sends_def
proof
  fix tr
  assume "drains dev flag"
  from poll_ends [OF this, of tr] obtain ev v where
    "poll dev UART_FR flag tr = Some (tr @ ev @ [Read UART_FR v])" "sent ev = []" "\<forall>ready. careful ready ev"
    by blast
  then show "\<exists>ev. poll dev UART_FR flag tr = Some (tr @ ev) \<and> sent ev = [] \<and> careful False ev"
    by (intro exI [of _ "ev @ [Read UART_FR v]"]) (simp add: careful_append)
qed

lemma careful_send: "v AND FR_TXFF = 0 \<Longrightarrow> careful False [Read UART_FR v, Write UART_DR w]"
  by simp

lemma putc_sends:
  assumes "drains dev FR_TXFF"
  shows "sends (uart_putc dev c) [c]"
  unfolding sends_def
proof
  fix tr
  obtain ev v where p: "poll dev UART_FR FR_TXFF tr = Some (tr @ ev @ [Read UART_FR v])" "v AND FR_TXFF = 0"
    "sent ev = []" "\<forall>ready. careful ready ev"
    using poll_ends [OF assms, of tr] by blast
  have "(of_char c :: nat) < 2 ^ 32"
    by (rule less_trans [of _ 256]) simp_all
  then have "unat (of_nat (of_char c) :: u32) = of_char c"
    by (simp add: unat_of_nat)
  then show "\<exists>ev. uart_putc dev c tr = Some (tr @ ev) \<and> sent ev = [c] \<and> careful False ev"
    using p careful_append [OF _ careful_send [OF p(2)], of False ev "of_nat (of_char c)"]
    by (intro exI [of _ "ev @ [Read UART_FR v, Write UART_DR (of_nat (of_char c))]"]) (simp add: uart_putc_def mmio_write_def)
qed

lemma puts_loop_sends:
  assumes "drains dev FR_TXFF" and "drains dev FR_BUSY"
  shows "sends (uart_puts_loop dev a s) (crlf s)"
proof (induction s arbitrary: a)
  case Nil
  then show ?case
    by (simp add: sends_def)
next
  case (Cons c s)
  let ?cr = "\<lambda>tr. if c = LF then uart_putc dev CR tr else Some tr"
  let ?idle = "\<lambda>tr. if (a + 1) mod 8 = 0 then poll dev UART_FR FR_BUSY tr else Some tr"
  have cr: "sends ?cr (if c = LF then [CR] else [])"
    using putc_sends [OF assms(1)] sends_nothing by (simp add: sends_def)
  have idle: "sends ?idle []"
    using poll_sends [OF assms(2)] sends_nothing by (simp add: sends_def)
  show ?case
    using sends_bind [OF cr sends_bind [OF putc_sends [OF assms(1), of c] sends_bind [OF idle Cons [of "a + 1"]]]]
    by (cases "c = LF") (simp_all add: sends_def)
qed

lemma puts_sends:
  assumes "drains dev FR_TXFF" and "drains dev FR_BUSY"
  shows "sends (uart_puts dev a s) (crlf s)"
  using sends_bind [OF puts_loop_sends [OF assms] poll_sends [OF assms(2)], of a s] by (simp add: sends_def uart_puts_def)

section \<open>Hexadecimal numbers\<close>

definition hex_value :: "char \<Rightarrow> nat" where
  "hex_value c = (if (of_char c :: nat) < 97 then of_char c - 48 else of_char c - 87)"

definition parse_hex :: "string \<Rightarrow> nat" where
  "parse_hex s = fold (\<lambda>c n. 16 * n + hex_value c) s 0"

lemma hex_digit_nibble: "hex_digit n i = (let d = unat n div 2 ^ i mod 16 in char_of (d + (if d < 10 then 48 else 87)))"
proof -
  have "drop_bit i n AND 0xF = take_bit 4 (drop_bit i n)"
    by (simp add: take_bit_eq_mask mask_eq_exp_minus_1)
  then have "unat (drop_bit i n AND 0xF) = unat n div 2 ^ i mod 16"
    using unsigned_less [of n, where 'a = nat]
    by (simp only: unsigned_take_bit_eq unsigned_drop_bit_eq) (simp add: take_bit_nat_def drop_bit_nat_def)
  then show ?thesis
    by (simp add: hex_digit_def Let_def)
qed

lemma hex_value_digit [simp]: "hex_value (hex_digit n i) = unat n div 2 ^ i mod 16"
proof -
  have "hex_value (char_of (d + (if d < 10 then 48 else 87))) = d" if "d < 16" for d :: nat
    using that by (simp add: hex_value_def)
  then show ?thesis
    by (simp add: hex_digit_nibble Let_def)
qed

definition hex_digits :: "u64 \<Rightarrow> nat \<Rightarrow> string" where
  "hex_digits n k = map (\<lambda>i. hex_digit n (4 * i)) (rev [0..<k])"

lemma hex_digits_Suc: "hex_digits n (Suc k) = hex_digit n (4 * k) # hex_digits n k"
  by (simp add: hex_digits_def)

lemma hex_loop_sends: "drains dev FR_TXFF \<Longrightarrow> sends (uart_hex_loop dev n k) (hex_digits n k)"
proof (induction k)
  case 0
  then show ?case
    by (simp add: sends_def hex_digits_def)
next
  case (Suc k)
  then show ?case
    using sends_bind [OF putc_sends [OF Suc.prems] Suc.IH [OF Suc.prems], of "hex_digit n (4 * k)"]
    by (simp add: sends_def hex_digits_Suc)
qed

lemma fold_hex_digits:
  "fold (\<lambda>c n. 16 * n + hex_value c) (hex_digits n k) (unat n div 16 ^ k) = unat n"
proof (induction k)
  case (Suc k)
  have p: "(2 :: nat) ^ (4 * k) = 16 ^ k"
    by (simp add: power_mult)
  have "16 * (unat n div 16 ^ Suc k) + unat n div 16 ^ k mod 16 = unat n div 16 ^ k"
    by (simp add: div_mult2_eq mult.commute [of 16])
  then show ?case
    using Suc by (simp add: hex_digits_Suc p)
qed (simp add: hex_digits_def)

lemma parse_hex_digits: "parse_hex (hex_digits n 16) = unat n"
proof -
  have "unat n < 2 ^ 64"
    using unsigned_less [of n, where 'a = nat] by simp
  then have "unat n div 16 ^ 16 = 0"
    by simp
  then show ?thesis
    using fold_hex_digits [of n 16] by (simp add: parse_hex_def)
qed

section \<open>Properties\<close>

text \<open>
  Property C32. On a device that drains, \<open>uart_puts\<close> ends and sends its string with a carriage return
  before every line feed; no character is written into a full FIFO.
\<close>

theorem uart_puts_sends:
  assumes "drains dev FR_TXFF" and "drains dev FR_BUSY"
  shows "\<exists>ev. uart_puts dev a s tr = Some (tr @ ev) \<and> sent ev = crlf s \<and> careful False ev"
  using puts_sends [OF assms] by (simp add: sends_def)

text \<open>
  \<open>uart_hex\<close> sends 0x and sixteen digits that read back as the number.
\<close>

theorem uart_hex_roundtrip:
  assumes "drains dev FR_TXFF" and "drains dev FR_BUSY"
  shows "\<exists>ev ds. uart_hex dev a n tr = Some (tr @ ev) \<and> sent ev = ''0x'' @ ds \<and> length ds = 16 \<and>
    parse_hex ds = unat n \<and> careful False ev"
proof -
  have "sends (uart_hex dev a n) (crlf ''0x'' @ hex_digits n 16)"
    using sends_bind [OF puts_sends [OF assms, of a "''0x''"] hex_loop_sends [OF assms(1), of n 16]]
    by (simp add: sends_def uart_hex_def)
  from sendsD [OF this, of tr] show ?thesis
    using parse_hex_digits [of n] by (auto simp: hex_digits_def)
qed

section \<open>Concrete runs\<close>

text \<open>A FIFO that is full for two reads after each character.\<close>

definition ex_device :: device where
  "ex_device tr reg =
     (if reg = UART_FR \<and> sent tr \<noteq> [] \<and> takeWhile (\<lambda>e. case e of Read _ _ \<Rightarrow> True | Write _ _ \<Rightarrow> False) (rev tr) = []
      then FR_TXFF OR FR_BUSY else if reg = UART_DR then 0x41 else 0)"

lemma ex_device_drains: "drains ex_device flag"
  unfolding drains_def
proof (intro exI allI impI)
  fix tr
  let ?w = "\<lambda>tr. takeWhile (\<lambda>e. case e of Read _ _ \<Rightarrow> True | Write _ _ \<Rightarrow> False) (rev tr)"
  assume "ex_device tr UART_FR AND flag \<noteq> 0"
  then have "?w tr = []"
    by (auto simp: ex_device_def split: if_splits)
  then show "(if ?w (tr @ [Read UART_FR (ex_device tr UART_FR)]) = [] then 1 else 0 :: nat) < (if ?w tr = [] then 1 else 0)"
    by simp
qed

theorem uart_puts_sends_witness:
  "\<exists>ev. uart_puts ex_device 7 (''a'' @ [LF]) [] = Some ev \<and> sent ev = [CHR ''a'', CR, LF]"
  using uart_puts_sends [OF ex_device_drains ex_device_drains, of 7 "''a'' @ [LF]" "[]"] by auto

theorem uart_hex_roundtrip_witness:
  "\<exists>ev ds. uart_hex ex_device 7 0xBEEF [] = Some ev \<and> sent ev = ''0x'' @ ds \<and> parse_hex ds = 0xBEEF"
  using uart_hex_roundtrip [OF ex_device_drains ex_device_drains, of 7 "0xBEEF" "[]"] by auto

end
