(* ===== verification/Interrupts.thy ===== *)
theory Interrupts
  imports Uart Scheduler
begin

text \<open>
  \<open>gic.c\<close>, \<open>timer.c\<close> and \<open>handle_irq\<close> of \<open>kernel.c\<close>: the interrupt controller, the timer, and the tick
  that calls the scheduler. Reads of the controller come from the device, as for the UART.
\<close>

section \<open>The interrupt controller\<close>

abbreviation (input) GICD_BASE :: u64 where "GICD_BASE \<equiv> 0x08000000"
abbreviation (input) GICC_BASE :: u64 where "GICC_BASE \<equiv> 0x08010000"
abbreviation (input) GICD_CTLR :: u64 where "GICD_CTLR \<equiv> 0"
abbreviation (input) GICD_ISENABLER :: nat where "GICD_ISENABLER \<equiv> 0x100"
abbreviation (input) GICC_CTLR :: u64 where "GICC_CTLR \<equiv> 0"
abbreviation (input) GICC_PMR :: u64 where "GICC_PMR \<equiv> 4"
abbreviation (input) GICC_IAR :: u64 where "GICC_IAR \<equiv> 0xC"
abbreviation (input) GICC_EOIR :: u64 where "GICC_EOIR \<equiv> 0x10"

definition gic_enable_interrupt :: "nat \<Rightarrow> mmio_trace \<Rightarrow> mmio_trace" where
  "gic_enable_interrupt irq tr =
     (let reg_offset = of_nat (GICD_ISENABLER + (irq div 32) * 4);
          b = push_bit (irq mod 32) 1
      in mmio_write (GICD_BASE + reg_offset) b tr)"

definition gic_init :: "mmio_trace \<Rightarrow> mmio_trace" where
  "gic_init tr =
     gic_enable_interrupt 30
       (mmio_write (GICC_BASE + GICC_PMR) 0xFF
          (mmio_write (GICC_BASE + GICC_CTLR) 1 (mmio_write (GICD_BASE + GICD_CTLR) 1 tr)))"

definition gic_acknowledge_interrupt :: "device \<Rightarrow> mmio_trace \<Rightarrow> u32 \<times> mmio_trace" where
  "gic_acknowledge_interrupt dev tr = mmio_read dev (GICC_BASE + GICC_IAR) tr"

definition gic_end_interrupt :: "u32 \<Rightarrow> mmio_trace \<Rightarrow> mmio_trace" where
  "gic_end_interrupt irq tr = mmio_write (GICC_BASE + GICC_EOIR) irq tr"

section \<open>The timer\<close>

record machine =
  mmio :: mmio_trace
  cntp_tval :: u64
  cntp_ctl :: u64

text \<open>\<open>msr daifclr, #2\<close> clears bit 7 of the interrupt mask.\<close>

definition timer_init :: "u64 \<Rightarrow> machine \<Rightarrow> cpu \<Rightarrow> machine \<times> cpu" where
  "timer_init cntfrq mc m =
     (mc\<lparr>cntp_tval := cntfrq div 1000, cntp_ctl := 1, mmio := gic_enable_interrupt 30 (mmio mc)\<rparr>,
      m\<lparr>cpu_daif := cpu_daif m AND NOT (push_bit 7 1)\<rparr>)"

definition enable_timer_interrupt :: "mmio_trace \<Rightarrow> mmio_trace" where
  "enable_timer_interrupt tr = gic_enable_interrupt 30 tr"

text \<open>\<open>init_processes\<close> of \<open>process.c\<close>, which nothing calls.\<close>

definition init_processes :: "u64 \<Rightarrow> machine \<Rightarrow> ptable \<Rightarrow> machine \<times> ptable" where
  "init_processes cntfrq mc pt =
     (let pt1 = (upd_proc (Slot 0) (\<lambda>p. p\<lparr>pid := 1, pstate := PROC_RUNNING\<rparr>) pt)
                  \<lparr>current_process := Some (Slot 0), process_list := Some (Slot 0)\<rparr>;
          (mc1, m) = timer_init cntfrq mc (pcpu pt1)
      in (mc1\<lparr>mmio := enable_timer_interrupt (gic_init (mmio mc1))\<rparr>, pt1\<lparr>pcpu := m\<rparr>))"

text \<open>
  \<open>timer_handler\<close> up to the switch that \<open>schedule\<close> ends with, and the rest, which runs when the
  interrupted process is switched to again; \<open>irq\<close> is in the frame of that process.
\<close>

definition timer_handler :: "device \<Rightarrow> u64 \<Rightarrow> machine \<Rightarrow> ptable \<Rightarrow> (u32 \<times> machine \<times> ptable) res" where
  "timer_handler dev cntfrq mc pt =
     (case gic_acknowledge_interrupt dev (mmio mc) of
        (irq, tr) \<Rightarrow> map_res (\<lambda>pt'. (irq, mc\<lparr>mmio := tr, cntp_tval := cntfrq div 1000\<rparr>, pt')) (schedule pt))"

definition timer_resumed :: "u32 \<Rightarrow> machine \<Rightarrow> machine" where
  "timer_resumed irq mc = mc\<lparr>mmio := gic_end_interrupt irq (mmio mc)\<rparr>"

text \<open>\<open>irq_status\<close> is what \<open>cntp_ctl_el0\<close> reads; bit 2 says that the timer fired.\<close>

definition handle_irq :: "device \<Rightarrow> u64 \<Rightarrow> u64 \<Rightarrow> machine \<Rightarrow> ptable \<Rightarrow> (u32 option \<times> machine \<times> ptable) res" where
  "handle_irq dev cntfrq irq_status mc pt =
     (if irq_status AND 4 \<noteq> 0
      then map_res (\<lambda>(irq, mc', pt'). (Some irq, mc', pt')) (timer_handler dev cntfrq mc pt)
      else Inr (None, mc, pt))"

section \<open>Enabled interrupts\<close>

text \<open>The bits written to the set-enable registers.\<close>

definition irq_enabled :: "mmio_trace \<Rightarrow> nat \<Rightarrow> bool" where
  "irq_enabled tr i \<longleftrightarrow> (\<exists>v. Write (GICD_BASE + of_nat (256 + (i div 32) * 4)) v \<in> set tr \<and> bit v (i mod 32))"

lemma isenabler_eq:
  assumes "i < 1024" and "j < 1024"
  shows "(of_nat (256 + (i div 32) * 4) :: u64) = of_nat (256 + (j div 32) * 4) \<longleftrightarrow> i div 32 = j div 32"
proof
  have u: "unat (of_nat (256 + (k div 32) * 4) :: u64) = 256 + (k div 32) * 4" if "k < 1024" for k
    using that by (simp only: unat_of_nat) simp
  assume "(of_nat (256 + (i div 32) * 4) :: u64) = of_nat (256 + (j div 32) * 4)"
  then have "unat (of_nat (256 + (i div 32) * 4) :: u64) = unat (of_nat (256 + (j div 32) * 4) :: u64)"
    by (rule arg_cong)
  then show "i div 32 = j div 32"
    unfolding u [OF assms(1)] u [OF assms(2)] by simp
qed simp

lemma gic_enable_exact:
  assumes "i < 1024" and "j < 1024"
  shows "irq_enabled (gic_enable_interrupt j tr) i \<longleftrightarrow> i = j \<or> irq_enabled tr i"
proof -
  have "i = j \<longleftrightarrow> i div 32 = j div 32 \<and> i mod 32 = j mod 32"
    by (metis div_mult_mod_eq)
  moreover have "bit (push_bit (j mod 32) 1 :: u32) (i mod 32) \<longleftrightarrow> i mod 32 = j mod 32"
    by (auto simp: bit_exp_iff)
  ultimately show ?thesis
    using isenabler_eq [OF assms] by (auto simp: irq_enabled_def gic_enable_interrupt_def mmio_write_def Let_def)
qed

section \<open>Ticks\<close>

text \<open>
  A sequence of timer interrupts. Each gives the interrupt number, if any, that the process resumed by
  it ends first.
\<close>

fun ticks :: "device \<Rightarrow> u64 \<Rightarrow> u32 option list \<Rightarrow> machine \<Rightarrow> ptable \<Rightarrow> (machine \<times> ptable) res" where
  "ticks dev cntfrq [] mc pt = Inr (mc, pt)"
| "ticks dev cntfrq (e # es) mc pt =
     bind_res (handle_irq dev cntfrq 4 mc pt) (\<lambda>(_, mc1, pt1).
       ticks dev cntfrq es (case e of None \<Rightarrow> mc1 | Some irq \<Rightarrow> timer_resumed irq mc1) pt1)"

definition runnable :: "process \<Rightarrow> bool" where
  "runnable p \<longleftrightarrow> pstate p = PROC_READY \<or> pstate p = PROC_RUNNING"

lemma handle_irq_eq:
  "schedule pt = Inr pt' \<Longrightarrow> handle_irq dev cntfrq 4 mc pt =
    Inr (Some (dev (mmio mc) (GICC_BASE + GICC_IAR)),
         mc\<lparr>mmio := mmio mc @ [Read (GICC_BASE + GICC_IAR) (dev (mmio mc) (GICC_BASE + GICC_IAR))], cntp_tval := cntfrq div 1000\<rparr>, pt')"
  by (simp add: handle_irq_def timer_handler_def gic_acknowledge_interrupt_def mmio_read_def)

text \<open>The state between ticks: two processes \<open>a\<close>, \<open>b\<close> first, one of them running, the rest ready.\<close>

lemma find_ready:
  assumes "sched_inv h ps pt" and "filter (\<lambda>p. runnable (procs pt p)) ps = a # b # rest"
    and "current_process pt = Some c" and "c = a \<or> c = b" and "pstate (procs pt c) = PROC_RUNNING"
  shows "List.find (\<lambda>p. pstate (procs pt p) = PROC_READY) ps = Some (if c = a then b else a)"
proof -
  have set: "set (a # b # rest) \<subseteq> set ps"
    using assms(2) by (metis filter_is_subset)
  have dist: "distinct (a # b # rest)"
    using assms(1,2) unfolding sched_inv_def by (metis distinct_filter)
  have "pstate (procs pt p) = PROC_READY \<longleftrightarrow> runnable (procs pt p) \<and> p \<noteq> c" if "p \<in> set ps" for p
    using sched_inv_running [OF assms(1) that] assms(3,5) by (auto simp: runnable_def)
  then have "List.find (\<lambda>p. pstate (procs pt p) = PROC_READY) ps = List.find (\<lambda>p. runnable (procs pt p) \<and> p \<noteq> c) ps"
    by (intro find_cong) auto
  also have "\<dots> = List.find (\<lambda>p. p \<noteq> c) (filter (\<lambda>p. runnable (procs pt p)) ps)"
    by (induction ps) auto
  finally show ?thesis
    using assms(2,4) dist by auto
qed

lemma tick_alternates:
  assumes inv: "sched_inv h ps pt" and run: "filter (\<lambda>p. runnable (procs pt p)) ps = a # b # rest"
    and cur: "current_process pt = Some c" "c = a \<or> c = b" "pstate (procs pt c) = PROC_RUNNING"
  defines "n \<equiv> if c = a then b else a"
  shows "schedule pt = Inr (switch_state c n pt)" "sched_inv h ps (switch_state c n pt)"
    "filter (\<lambda>p. runnable (procs (switch_state c n pt) p)) ps = a # b # rest"
    "q \<noteq> a \<Longrightarrow> q \<noteq> b \<Longrightarrow> procs (switch_state c n pt) q = procs pt q"
    "pstate (procs (switch_state c n pt) n) = PROC_RUNNING"
proof -
  note f = find_ready [OF inv run cur, folded n_def]
  note s = schedule_switches [OF inv cur(1) f]
  show "schedule pt = Inr (switch_state c n pt)"
    using s by simp
  have n: "n \<in> set ps" "pstate (procs pt n) = PROC_READY"
    using f by (auto simp: find_Some_iff)
  show "sched_inv h ps (switch_state c n pt)"
    using switch_state_inv [OF inv cur(1) n(1)] s by simp
  have "runnable (procs (switch_state c n pt) p) \<longleftrightarrow> runnable (procs pt p)" for p
    using n(2) cur(3) by (auto simp: runnable_def switched_def)
  then show "filter (\<lambda>p. runnable (procs (switch_state c n pt) p)) ps = a # b # rest"
    using run by simp
  show "procs (switch_state c n pt) q = procs pt q" if "q \<noteq> a" "q \<noteq> b"
    using that cur(2) by (auto simp: switch_state_def switched_def n_def)
  show "pstate (procs (switch_state c n pt) n) = PROC_RUNNING"
    by (simp add: switched_def)
qed

lemma ticks_alternate:
  "sched_inv h ps pt \<Longrightarrow> filter (\<lambda>p. runnable (procs pt p)) ps = a # b # rest \<Longrightarrow>
    current_process pt = Some c \<Longrightarrow> c = a \<or> c = b \<Longrightarrow> pstate (procs pt c) = PROC_RUNNING \<Longrightarrow>
    \<exists>mc' pt'. ticks dev cntfrq es mc pt = Inr (mc', pt') \<and>
      current_process pt' = Some (if even (length es) then c else if c = a then b else a) \<and>
      (\<forall>q. q \<noteq> a \<longrightarrow> q \<noteq> b \<longrightarrow> procs pt' q = procs pt q)"
proof (induction es arbitrary: pt mc c)
  case (Cons e es)
  let ?n = "if c = a then b else a"
  let ?pt = "switch_state c ?n pt"
  note t = tick_alternates [OF Cons.prems]
  obtain r mc1 where h: "handle_irq dev cntfrq 4 mc pt = Inr (r, mc1, ?pt)"
    using handle_irq_eq [OF t(1)] by blast
  have n: "?n = a \<or> ?n = b" "(if ?n = a then b else a) = c"
    using Cons.prems(4) by auto
  obtain mc' pt' where "ticks dev cntfrq es (case e of None \<Rightarrow> mc1 | Some irq \<Rightarrow> timer_resumed irq mc1) ?pt = Inr (mc', pt')"
    "current_process pt' = Some (if even (length es) then ?n else c)"
    "\<forall>q. q \<noteq> a \<longrightarrow> q \<noteq> b \<longrightarrow> procs pt' q = procs ?pt q"
    using Cons.IH [OF t(2,3) _ n(1) t(5), of "case e of None \<Rightarrow> mc1 | Some irq \<Rightarrow> timer_resumed irq mc1"]
    unfolding n(2) switch_state_simps by blast
  then show ?case
    using h t(4) by auto
qed simp

section \<open>Properties\<close>

text \<open>
  Property C16. Timer ticks alternate between the first two runnable processes of the list: all others
  wait for ever, however many ticks pass, and nothing of them changes.
\<close>

theorem timer_ticks_starve:
  assumes "kreach process_stacks m (h, pt)" and "chain (\<lambda>p. next_p (procs pt p)) (process_list pt) ps"
    and "filter (\<lambda>p. runnable (procs pt p)) ps = a # b # rest"
    and "current_process pt = Some c" and "c = a \<or> c = b" and "pstate (procs pt c) = PROC_RUNNING"
  shows "\<exists>mc' pt'. ticks dev cntfrq es mc pt = Inr (mc', pt') \<and>
    current_process pt' = Some (if even (length es) then c else if c = a then b else a) \<and>
    (\<forall>q \<in> set rest. procs pt' q = procs pt q)"
proof -
  obtain qs where inv: "sched_inv h qs pt"
    using assms(1) by (rule kreachD)
  then have "qs = ps" and dist: "distinct ps"
    using chain_unique assms(2) unfolding sched_inv_def by blast+
  have "distinct (a # b # rest)"
    using dist assms(3) by (metis distinct_filter)
  then show ?thesis
    using ticks_alternate [OF inv [unfolded \<open>qs = ps\<close>] assms(3-6), of dev cntfrq es mc] by fastforce
qed

text \<open>
  A timer interrupt in a reachable state with a ready process reads the interrupt's number
  once, sets the timer to a millisecond, and switches to the next process before it has told the
  controller that the interrupt ended; the end is reported, with the same number, only when the
  interrupted process runs again.
\<close>

theorem tick_switches_before_end:
  assumes "kreach process_stacks m (h, pt)" and "schedule pt = Inr pt'" and "irq_status AND 4 \<noteq> 0"
  shows "\<exists>irq mc'. handle_irq dev cntfrq irq_status mc pt = Inr (Some irq, mc', pt') \<and>
    mmio mc' = mmio mc @ [Read (GICC_BASE + GICC_IAR) irq] \<and> cntp_tval mc' = cntfrq div 1000 \<and>
    current_process pt' \<noteq> current_process pt \<and>
    mmio (timer_resumed irq mc'') = mmio mc'' @ [Write (GICC_BASE + GICC_EOIR) irq]"
proof -
  obtain ps where inv: "sched_inv h ps pt"
    using assms(1) by (rule kreachD)
  have "current_process pt' \<noteq> current_process pt"
    using assms(2) by (elim schedule_Inr [OF inv]) simp
  moreover define irq where "irq = dev (mmio mc) (GICC_BASE + GICC_IAR)"
  define mc' where "mc' = mc\<lparr>mmio := mmio mc @ [Read (GICC_BASE + GICC_IAR) irq], cntp_tval := cntfrq div 1000\<rparr>"
  have "handle_irq dev cntfrq irq_status mc pt = Inr (Some irq, mc', pt')"
    using assms(3) handle_irq_eq [OF assms(2), of dev cntfrq mc] unfolding irq_def mc'_def by (simp add: handle_irq_def)
  moreover have "mmio mc' = mmio mc @ [Read (GICC_BASE + GICC_IAR) irq]" "cntp_tval mc' = cntfrq div 1000"
    by (simp_all add: mc'_def)
  moreover have "mmio (timer_resumed irq mc'') = mmio mc'' @ [Write (GICC_BASE + GICC_EOIR) irq]"
    by (simp add: timer_resumed_def gic_end_interrupt_def mmio_write_def)
  ultimately show ?thesis
    by blast
qed

text \<open>
  \<open>init_processes\<close> could not replace \<open>init_process\<close>: it leaves \<open>process_count\<close> at 0. The first fork after it
  takes the record of the running process itself, which becomes its own parent and its own successor
  in the list, and every later search for a process that is not there loops for ever.
\<close>

theorem init_processes_then_fork:
  assumes "init_processes cntfrq mc (boot_ptable m) = (mc', pt)" and "k \<noteq> 2"
  shows "\<exists>pt'. create_process process_stacks pt = Inr (Slot 0, pt') \<and> current_process pt' = Some (Slot 0) \<and>
    pid (procs pt' (Slot 0)) = 2 \<and> parent_pid (procs pt' (Slot 0)) = 2 \<and> next_p (procs pt' (Slot 0)) = Some (Slot 0) \<and>
    find_process k pt' = Inl Hang"
proof -
  obtain pt' where pt': "create_process process_stacks pt = Inr (Slot 0, pt')" "current_process pt' = Some (Slot 0)"
    "pid (procs pt' (Slot 0)) = 2" "parent_pid (procs pt' (Slot 0)) = 2" "next_p (procs pt' (Slot 0)) = Some (Slot 0)"
    "process_list pt' = Some (Slot 0)"
    using assms(1) by (auto simp: init_processes_def create_process_def boot_ptable_def upd_proc_def Let_def timer_init_def)
  have "walk (\<lambda>p. next_p (procs pt' p)) (\<lambda>p. pid (procs pt' p) = k) (Some (Slot 0)) = None"
    using assms(2) pt' by (intro walk_cycle [of "{Slot 0}"]) (simp_all add: stays_def)
  then show ?thesis
    using pt' by (simp add: find_process_def list_find_def)
qed

section \<open>Concrete runs\<close>

theorem init_processes_then_fork_witness:
  "\<exists>pt'. create_process 0 (snd (init_processes 62500000 \<lparr>mmio = [], cntp_tval = 0, cntp_ctl = 0\<rparr> (boot_ptable ex_cpu))) =
      Inr (Slot 0, pt') \<and> find_process 7 pt' = Inl Hang"
  using init_processes_then_fork [of 62500000 "\<lparr>mmio = [], cntp_tval = 0, cntp_ctl = 0\<rparr>" ex_cpu _ _ 7 0, OF prod.collapse [symmetric]]
  by auto

text \<open>Process 1 forks twice and is preempted: its children alternate, process 1 never runs again.\<close>

definition ex_twice :: ptable where
  "ex_twice = create_state 0 (Slot 0) ex_forked"

definition ex_three :: ptable where
  "ex_three = switch_state (Slot 0) (Slot 2) ex_twice"

lemma ex_twice_eq: "create_process 0 ex_forked = Inr (Slot 2, ex_twice)"
  unfolding ex_twice_def using create_process_some [of ex_forked "Slot 0" 0]
  by (simp add: ex_forked_def create_state_def Let_def numeral_2_eq_2)

lemma ex_twice_inv: "sched_inv 0 [Slot 2, Slot (Suc 0), Slot 0] ex_twice"
  using create_process_inv [OF ex_forked_inv ex_twice_eq] by simp

lemma ex_twice_fields [simp]:
  "current_process ex_twice = Some (Slot 0)" "pstate (procs ex_twice (Slot 0)) = PROC_RUNNING"
  "pstate (procs ex_twice (Slot 1)) = PROC_READY" "pstate (procs ex_twice (Slot 2)) = PROC_READY"
  using ex_forked_fields(6,7)
  by (simp_all add: ex_twice_def create_state_def Let_def del: ex_forked_fields) (simp_all add: ex_forked_def create_state_def Let_def)

lemma ex_three_eq: "schedule ex_twice = Inr ex_three"
  using schedule_switches [OF ex_twice_inv] by (simp add: ex_three_def)

lemma ex_three_reach: "kreach 0 ex_cpu (0, ex_three)"
  by (rule kreach.step [OF kreach.step [OF ex_forked_reach kstep.create [OF ex_twice_eq]] kstep.tick [OF ex_three_eq]])

lemma ex_three_inv: "sched_inv 0 [Slot 2, Slot (Suc 0), Slot 0] ex_three"
  by (rule schedule_inv [OF ex_twice_inv ex_three_eq])

lemma ex_three_states:
  "filter (\<lambda>p. runnable (procs ex_three p)) [Slot 2, Slot (Suc 0), Slot 0] = [Slot 2, Slot (Suc 0), Slot 0]"
  "current_process ex_three = Some (Slot 2)" "pstate (procs ex_three (Slot 2)) = PROC_RUNNING"
  using ex_twice_fields(3) by (simp_all add: ex_three_def runnable_def switched_def)

definition ex_machine :: machine where
  "ex_machine = \<lparr>mmio = [], cntp_tval = 0, cntp_ctl = 1\<rparr>"

theorem timer_ticks_starve_witness:
  "\<exists>mc' pt'. ticks ex_device 62500000 (replicate 1000 (Some 30)) ex_machine ex_three = Inr (mc', pt') \<and>
    current_process pt' = Some (Slot 2) \<and> procs pt' (Slot 0) = procs ex_three (Slot 0)"
proof -
  have "chain (\<lambda>p. next_p (procs ex_three p)) (process_list ex_three) [Slot 2, Slot (Suc 0), Slot 0]"
    using ex_three_inv unfolding sched_inv_def by blast
  from timer_ticks_starve [OF ex_three_reach this ex_three_states(1,2) _ ex_three_states(3), of ex_device 62500000
      "replicate 1000 (Some 30)" ex_machine] show ?thesis
    by simp
qed

theorem tick_switches_before_end_witness:
  "\<exists>irq mc'. handle_irq ex_device 62500000 5 ex_machine ex_forked =
      Inr (Some irq, mc', switch_state (Slot 0) (Slot (Suc 0)) ex_forked) \<and>
    mmio mc' = [Read (GICC_BASE + GICC_IAR) irq]"
  using tick_switches_before_end [OF ex_forked_reach ex_switched_eq, of 5 ex_device 62500000 ex_machine undefined]
  by (auto simp: ex_machine_def)

end
