(* ===== verification/Exceptions.thy ===== *)
theory Exceptions
  imports Uart
begin

text \<open>
  System calls: \<open>handle_sync_exception\<close> of \<open>exceptions.c\<close>, the vector \<open>sync_el0_64\<close> of \<open>exceptions.S\<close>
  around it, and \<open>enter_usermode.S\<close>. Not returning, in a polling loop or in the loop of \<open>wfe\<close>, is None.
\<close>

section \<open>The handler\<close>

abbreviation (input) EC_SVC64 :: u32 where "EC_SVC64 \<equiv> 0x15"
abbreviation (input) SYS_UART_PUTC :: u64 where "SYS_UART_PUTC \<equiv> 1"
abbreviation (input) SYS_UART_GETC :: u64 where "SYS_UART_GETC \<equiv> 2"

definition handle_sync_exception ::
  "device \<Rightarrow> (string \<Rightarrow> u64) \<Rightarrow> u64 \<Rightarrow> u64 \<Rightarrow> u64 \<Rightarrow> mmio_trace \<Rightarrow> (u64 \<times> mmio_trace) option" where
  "handle_sync_exception dev lit esr_el1 user_x0 user_x8 tr =
     Option.bind (uart_puts dev (lit (''[SVC]'' @ [LF])) (''[SVC]'' @ [LF]) tr) (\<lambda>tr1.
     let ec = ucast (drop_bit 26 esr_el1 AND 0x3F) in
     if ec = EC_SVC64 then
       (if user_x8 = SYS_UART_PUTC then map_option (\<lambda>tr2. (0, tr2)) (uart_putc dev (char_of (unat user_x0)) tr1)
        else if user_x8 = SYS_UART_GETC then map_option (\<lambda>(c, tr2). (of_nat (of_char c), tr2)) (uart_getc dev tr1)
        else None)
     else None)"

section \<open>The vector\<close>

text \<open>
  The registers \<open>x0\<close> to \<open>x30\<close>, the stack pointer of EL1, the return state, and memory as words of
  8 bytes.
\<close>

record el1_state =
  gregs :: "u64 list"
  sp_el1 :: u64
  elr_el1 :: u64
  spsr_el1 :: u64
  stack_mem :: "u64 \<Rightarrow> u64"

definition frame_word :: "u64 \<Rightarrow> nat \<Rightarrow> u64" where
  "frame_word sp k = sp + of_nat (8 * k)"

text \<open>The stores and loads of the 31 registers, which are the words 0 to 30 of the frame.\<close>

definition save_frame :: "u64 \<Rightarrow> u64 list \<Rightarrow> (u64 \<Rightarrow> u64) \<Rightarrow> u64 \<Rightarrow> u64" where
  "save_frame sp xs mm = fold (\<lambda>k mm. mm(frame_word sp k := xs ! k)) [0..<31] mm"

definition load_frame :: "u64 \<Rightarrow> (u64 \<Rightarrow> u64) \<Rightarrow> u64 list" where
  "load_frame sp mm = map (\<lambda>k. mm (frame_word sp k)) [0..<31]"

text \<open>
  The called C function works below its stack pointer and keeps it; what it leaves in the registers is
  loaded again. The frame has 32 words, the word with index 32 is the one at \<open>stack_top\<close>.
\<close>

definition sync_el0_64 ::
  "device \<Rightarrow> (string \<Rightarrow> u64) \<Rightarrow> u64 \<Rightarrow> u64 \<Rightarrow> el1_state \<Rightarrow> mmio_trace \<Rightarrow> (el1_state \<times> mmio_trace) option" where
  "sync_el0_64 dev lit stack_top esr_el1 m tr =
     (let xs = (gregs m)[21 := sp_el1 m, 22 := stack_top];
          sp = stack_top - 32 * 8;
          mm = (save_frame sp xs (stack_mem m))(frame_word sp 31 := elr_el1 m, frame_word sp 32 := spsr_el1 m)
      in map_option (\<lambda>(r, tr1).
           let mm = mm(frame_word sp 0 := r);
               xs = load_frame sp mm;
               elr = mm (frame_word sp 31);
               spsr = mm (frame_word sp 32)
           in (\<lparr>gregs = xs[0 := spsr], sp_el1 = xs ! 21, elr_el1 = elr, spsr_el1 = spsr, stack_mem = mm\<rparr>, tr1))
         (handle_sync_exception dev lit esr_el1 (mm (frame_word sp 0)) (mm (frame_word sp 8)) tr))"

text \<open>\<open>enter_usermode\<close> leaves the kernel at EL0 with interrupts on.\<close>

record user_state =
  user_pc :: u64
  user_sp :: u64
  user_pstate :: u64

definition enter_usermode :: "u64 \<Rightarrow> u64 \<Rightarrow> user_state" where
  "enter_usermode pc sp = \<lparr>user_pc = pc, user_sp = sp, user_pstate = 0\<rparr>"

section \<open>The frame\<close>

lemma frame_word_eq [simp]:
  assumes "j < 40" and "k < 40"
  shows "frame_word sp j = frame_word sp k \<longleftrightarrow> j = k"
proof
  assume "frame_word sp j = frame_word sp k"
  then have "(of_nat (8 * j) :: u64) = of_nat (8 * k)"
    unfolding frame_word_def by (rule add_left_imp_eq)
  then have "unat (of_nat (8 * j) :: u64) = unat (of_nat (8 * k) :: u64)"
    by (rule arg_cong)
  moreover have "unat (of_nat (8 * i) :: u64) = 8 * i" if "i < 40" for i
    using that by (simp only: unat_of_nat) simp
  ultimately show "j = k"
    using assms by simp
qed simp

lemma save_frame_words:
  "k < 40 \<Longrightarrow> save_frame sp xs mm (frame_word sp k) = (if k < 31 then xs ! k else mm (frame_word sp k))"
proof -
  have "n \<le> 31 \<Longrightarrow> k < 40 \<Longrightarrow> fold (\<lambda>k mm. mm(frame_word sp k := xs ! k)) [0..<n] mm (frame_word sp k) =
      (if k < n then xs ! k else mm (frame_word sp k))" for n
    by (induction n) (auto simp: less_Suc_eq)
  then show "k < 40 \<Longrightarrow> ?thesis"
    by (simp add: save_frame_def)
qed

lemma load_frame_eq: "length xs = 31 \<Longrightarrow> (\<And>k. k < 31 \<Longrightarrow> mm (frame_word sp k) = xs ! k) \<Longrightarrow> load_frame sp mm = xs"
  by (rule nth_equalityI) (simp_all add: load_frame_def)

lemma sync_el0_64_eq:
  assumes "length (gregs m) = 31"
  shows "\<exists>mm. sync_el0_64 dev lit stack_top esr m tr =
    map_option (\<lambda>(r, tr1).
      (\<lparr>gregs = (gregs m)[0 := spsr_el1 m, 21 := sp_el1 m, 22 := stack_top], sp_el1 = sp_el1 m, elr_el1 = elr_el1 m,
        spsr_el1 = spsr_el1 m, stack_mem = mm(frame_word (stack_top - 256) 0 := r)\<rparr>, tr1))
      (handle_sync_exception dev lit esr (gregs m ! 0) (gregs m ! 8) tr) \<and> mm stack_top = spsr_el1 m"
proof -
  let ?sp = "stack_top - 256"
  let ?xs = "(gregs m)[21 := sp_el1 m, 22 := stack_top]"
  define mm where "mm = (save_frame ?sp ?xs (stack_mem m))(frame_word ?sp 31 := elr_el1 m, frame_word ?sp 32 := spsr_el1 m)"
  have mm: "mm (frame_word ?sp k) = (if k < 31 then ?xs ! k else if k = 31 then elr_el1 m else spsr_el1 m)" if "k < 33" for k
    using that by (auto simp: mm_def save_frame_words)
  have frame: "load_frame ?sp (mm(frame_word ?sp 0 := r)) = ?xs[0 := r]" for r
    using assms mm by (intro load_frame_eq) (auto simp: nth_list_update)
  have "frame_word ?sp 32 = stack_top"
    by (simp add: frame_word_def)
  then have top: "mm stack_top = spsr_el1 m"
    using mm [of 32] by simp
  have load: "(load_frame ?sp (mm(frame_word ?sp 0 := r)))[0 := s] = (gregs m)[0 := s, 21 := sp_el1 m, 22 := stack_top]"
    "load_frame ?sp (mm(frame_word ?sp 0 := r)) ! 21 = sp_el1 m" for r s
    unfolding frame using assms by (auto simp: nth_list_update intro!: nth_equalityI)
  show ?thesis
  proof (intro exI [of _ mm] conjI top)
    show "sync_el0_64 dev lit stack_top esr m tr =
      map_option (\<lambda>(r, tr1).
        (\<lparr>gregs = (gregs m)[0 := spsr_el1 m, 21 := sp_el1 m, 22 := stack_top], sp_el1 = sp_el1 m, elr_el1 = elr_el1 m,
          spsr_el1 = spsr_el1 m, stack_mem = mm(frame_word ?sp 0 := r)\<rparr>, tr1))
        (handle_sync_exception dev lit esr (gregs m ! 0) (gregs m ! 8) tr)"
      using assms mm [of 0] mm [of 8] mm [of 31] mm [of 32]
      unfolding sync_el0_64_def Let_def
      by (simp add: load flip: mm_def)
  qed
qed

section \<open>Properties\<close>

text \<open>
  A system call to send a character ends, on a device that drains: after the trace line
  the low byte of the caller's \<open>x0\<close> is sent, and the caller continues at its return address.
\<close>

theorem svc_putc_sends:
  assumes "drains dev FR_TXFF" and "drains dev FR_BUSY" and "length (gregs m) = 31"
    and "drop_bit 26 esr AND 0x3F = 0x15" and "gregs m ! 8 = 1"
  shows "\<exists>m' ev. sync_el0_64 dev lit stack_top esr m tr = Some (m', tr @ ev) \<and>
    sent ev = ''[SVC]'' @ [CR, LF, char_of (unat (gregs m ! 0))] \<and> careful False ev \<and>
    elr_el1 m' = elr_el1 m \<and> spsr_el1 m' = spsr_el1 m"
proof -
  have "sends (\<lambda>tr. Option.bind (uart_puts dev (lit (''[SVC]'' @ [LF])) (''[SVC]'' @ [LF]) tr)
      (uart_putc dev (char_of (unat (gregs m ! 0))))) (crlf (''[SVC]'' @ [LF]) @ [char_of (unat (gregs m ! 0))])"
    by (rule sends_bind [OF puts_sends [OF assms(1,2)] putc_sends [OF assms(1)]])
  from sendsD [OF this, of tr] obtain ev where ev: "Option.bind (uart_puts dev (lit (''[SVC]'' @ [LF])) (''[SVC]'' @ [LF]) tr)
      (uart_putc dev (char_of (unat (gregs m ! 0)))) = Some (tr @ ev)"
    "sent ev = ''[SVC]'' @ [CR, LF, char_of (unat (gregs m ! 0))]" "careful False ev"
    by auto
  have "handle_sync_exception dev lit esr (gregs m ! 0) (gregs m ! 8) tr = Some (0, tr @ ev)"
    using ev(1) assms(4,5) by (auto simp: handle_sync_exception_def Let_def bind_eq_Some_conv)
  then show ?thesis
    using sync_el0_64_eq [OF assms(3), of dev lit stack_top esr tr] ev(2,3) by auto
qed

text \<open>
  The result of a system call is lost: whatever the handler returns, the caller finds the
  saved status register in \<open>x0\<close>, and the kernel's stack pointer and stack top in \<open>x21\<close> and \<open>x22\<close>; its
  other registers are kept. The word at the top of the stack, outside the frame, is overwritten.
\<close>

theorem svc_result_lost:
  assumes "length (gregs m) = 31" and "sync_el0_64 dev lit stack_top esr m tr = Some (m', tr')"
  shows "gregs m' = (gregs m)[0 := spsr_el1 m, 21 := sp_el1 m, 22 := stack_top] \<and> sp_el1 m' = sp_el1 m \<and>
    elr_el1 m' = elr_el1 m \<and> stack_mem m' stack_top = spsr_el1 m"
proof -
  have "frame_word (stack_top - 256) 32 = stack_top" "frame_word (stack_top - 256) 0 \<noteq> frame_word (stack_top - 256) 32"
    by (simp_all, simp add: frame_word_def)
  then have "stack_top \<noteq> frame_word (stack_top - 256) 0"
    by simp
  then show ?thesis
    using sync_el0_64_eq [OF assms(1), of dev lit stack_top esr tr] assms(2)
    by (cases "handle_sync_exception dev lit esr (gregs m ! 0) (gregs m ! 8) tr") auto
qed

section \<open>Concrete runs\<close>

definition ex_el1 :: "u64 \<Rightarrow> el1_state" where
  "ex_el1 call = \<lparr>gregs = (replicate 31 0)[0 := 0x41, 8 := call], sp_el1 = 0x40080000, elr_el1 = 0x80000010,
     spsr_el1 = 0x3C0, stack_mem = (\<lambda>_. 0)\<rparr>"

theorem svc_putc_sends_witness:
  "\<exists>m' ev. sync_el0_64 ex_device (\<lambda>_. 0) 0x40080000 0x56000000 (ex_el1 1) [] = Some (m', ev) \<and>
    sent ev = ''[SVC]'' @ [CR, LF, CHR ''A'']"
proof -
  have "drop_bit 26 0x56000000 AND 0x3F = (0x15 :: u64)"
    by (simp add: drop_bit_eq_div)
  moreover have "char_of (65 :: nat) = CHR ''A''"
    using char_of_char [of "CHR ''A''", where 'a = nat] by simp
  ultimately show ?thesis
    using svc_putc_sends [OF ex_device_drains ex_device_drains, where m = "ex_el1 1" and esr = "0x56000000" and lit = "\<lambda>_. 0"
        and stack_top = "0x40080000" and tr = "[]"]
    by (auto simp: ex_el1_def)
qed

text \<open>Reading a character: the device has an A, the caller gets its status register.\<close>

theorem svc_result_lost_witness:
  "\<exists>m' ev. sync_el0_64 ex_device (\<lambda>_. 0) 0x40080000 0x56000000 (ex_el1 2) [] = Some (m', ev) \<and> gregs m' ! 0 = 0x3C0 \<and>
    gregs m' ! 21 = 0x40080000"
proof -
  obtain e1 where 1: "uart_puts ex_device 0 (''[SVC]'' @ [LF]) [] = Some ([] @ e1)"
    using puts_sends [OF ex_device_drains ex_device_drains] sendsD by blast
  have "poll ex_device UART_FR FR_RXFE e1 \<noteq> None"
    using poll_ends [OF ex_device_drains, of FR_RXFE e1] by auto
  then have "uart_getc ex_device e1 \<noteq> None"
    by (auto simp: uart_getc_def)
  then obtain r where r: "uart_getc ex_device e1 = Some r"
    by blast
  have "drop_bit 26 0x56000000 AND 0x3F = (0x15 :: u64)"
    by (simp add: drop_bit_eq_div)
  then have "handle_sync_exception ex_device (\<lambda>_. 0) 0x56000000 0x41 2 [] = Some (of_nat (of_char (fst r)), snd r)"
    using 1 r by (simp add: handle_sync_exception_def Let_def case_prod_unfold)
  then obtain s where s: "sync_el0_64 ex_device (\<lambda>_. 0) 0x40080000 0x56000000 (ex_el1 2) [] = Some s"
    using sync_el0_64_eq [where m = "ex_el1 2" and dev = ex_device and lit = "\<lambda>_. 0" and stack_top = "0x40080000"
        and esr = "0x56000000" and tr = "[]"] by (auto simp: ex_el1_def)
  obtain m' ev where "s = (m', ev)"
    by (cases s)
  with svc_result_lost [OF _ s [unfolded this]] s show ?thesis
    by (auto simp: ex_el1_def)
qed

end
