(* ===== verification/Mmu.thy ===== *)
theory Mmu
  imports Prelude
begin

unbundle bit_operations_syntax

text \<open>
  \<open>mmu.c\<close>: the level 1 table of 512 descriptors for 1 GiB each and the system registers that switch
  the translation on; what the table means for addresses.
\<close>

section \<open>Descriptors\<close>

abbreviation (input) AF :: u64 where "AF \<equiv> push_bit 10 1"
abbreviation (input) UXN :: u64 where "UXN \<equiv> push_bit 54 1"
abbreviation (input) AP_RW_EL0 :: u64 where "AP_RW_EL0 \<equiv> push_bit 6 1"
abbreviation (input) AP_RW_EL1 :: u64 where "AP_RW_EL1 \<equiv> push_bit 6 0"
abbreviation (input) BLOCK :: u64 where "BLOCK \<equiv> push_bit 1 0"
abbreviation (input) VALID :: u64 where "VALID \<equiv> push_bit 0 1"
abbreviation (input) MAIR_VALUE :: u64 where "MAIR_VALUE \<equiv> push_bit 0 0xFF OR push_bit 8 0x04"

definition ATTRIDX :: "u64 \<Rightarrow> u64" where
  "ATTRIDX n = push_bit 2 n"

definition L1_DESC :: "u64 \<Rightarrow> u64 \<Rightarrow> u64 \<Rightarrow> u64" where
  "L1_DESC pa_gib attridx extra = push_bit 30 pa_gib OR AF OR ATTRIDX attridx OR extra OR BLOCK OR VALID"

section \<open>Initialisation\<close>

record mmu_state =
  l1 :: "u64 list"
  mair_el1 :: u64
  tcr_el1 :: u64
  ttbr0_el1 :: u64
  sctlr_el1 :: u64
  vbar_el1 :: u64

definition enable_mmu :: "mmu_state \<Rightarrow> mmu_state" where
  "enable_mmu m = m\<lparr>sctlr_el1 := (sctlr_el1 m OR 1) AND NOT (push_bit 28 1)\<rparr>"

text \<open>\<open>table\<close> and \<open>vectors\<close> are the addresses of the table and of the exception vectors.\<close>

definition mmu_init :: "u64 \<Rightarrow> u64 \<Rightarrow> mmu_state \<Rightarrow> mmu_state" where
  "mmu_init table vectors m =
     (let m1 = m\<lparr>l1 := (l1 m)[0 := L1_DESC 0 1 (UXN OR AP_RW_EL0), 1 := L1_DESC 1 0 AP_RW_EL1, 2 := L1_DESC 2 0 AP_RW_EL0],
                 mair_el1 := MAIR_VALUE, tcr_el1 := 0x00000000808519, ttbr0_el1 := table\<rparr>
      in (enable_mmu m1)\<lparr>vbar_el1 := vectors\<rparr>)"

definition mmu_get_l1_block :: "nat \<Rightarrow> mmu_state \<Rightarrow> u64" where
  "mmu_get_l1_block i m = l1 m ! i"

section \<open>Translation\<close>

text \<open>
  The lookup of the architecture at level 1: bits 38 to 30 of the address choose a descriptor; a block
  descriptor ends in 01 and gives the output address from bit 30 on; bits 6, 7 and 54 are the access
  rights.
\<close>

datatype l1_result = Fault | Mapped (out_addr: u64) (el0_access: bool) (el0_execute: bool) (attr_index: nat)

definition l1_lookup :: "u64 list \<Rightarrow> u64 \<Rightarrow> l1_result" where
  "l1_lookup tab va =
     (let d = tab ! unat (drop_bit 30 va) in
      if d AND 3 = 1 \<and> bit d 10 then
        Mapped ((d AND 0x0000FFFFC0000000) OR take_bit 30 va) (bit d 6) (\<not> bit d 54) (unat (take_bit 3 (drop_bit 2 d)))
      else Fault)"

definition boot_l1 :: "u64 list" where
  "boot_l1 = replicate 512 0"

lemma boot_mmu_table:
  "l1 m = boot_l1 \<Longrightarrow> l1 (mmu_init table vectors m) ! i =
    (if i = 0 then L1_DESC 0 1 (UXN OR AP_RW_EL0) else if i = 1 then L1_DESC 1 0 AP_RW_EL1
     else if i = 2 then L1_DESC 2 0 AP_RW_EL0 else boot_l1 ! i)"
  by (auto simp: mmu_init_def enable_mmu_def Let_def boot_l1_def)

lemma join_bits: "push_bit n (drop_bit n va) OR take_bit n va = (va :: u64)"
  by (auto simp: bit_eq_iff bit_simps)

lemma join_gib: "drop_bit 30 va = (k :: u64) \<Longrightarrow> push_bit 30 k OR take_bit 30 va = va"
  using join_bits [of 30 va] by simp

lemma drop_bit_30_less: "va < (2 ^ 39 :: u64) \<Longrightarrow> unat (drop_bit 30 va) < 512"
  by (simp add: word_less_nat_alt unsigned_drop_bit_eq drop_bit_nat_def take_bit_nat_eq_self)

section \<open>Properties\<close>


section \<open>Concrete runs\<close>

definition ex_mmu :: mmu_state where
  "ex_mmu = \<lparr>l1 = boot_l1, mair_el1 = 0, tcr_el1 = 0, ttbr0_el1 = 0, sctlr_el1 = 0, vbar_el1 = 0\<rparr>"


end
