(* ===== verification/Shell.thy ===== *)
theory Shell
  imports Messages
begin

text \<open>
  \<open>shell.c\<close>: the line editor, the splitting of a line into command and arguments, and the commands,
  which are the clients of the system calls. A command gives what it prints itself and the new state;
  the diagnostics that the system calls print in between are left out. The arguments are the string
  that \<open>args\<close> points to, or nothing for the null pointer; the words that \<open>strtok_r\<close> cuts out of them
  are \<open>tokens\<close> (\<open>strtok_loop_splits\<close>).
\<close>

abbreviation (input) MAX_INPUT :: nat where "MAX_INPUT \<equiv> 256"
abbreviation (input) NEWLINE :: char where "NEWLINE \<equiv> CHR 0x0A"

section \<open>Paths\<close>

text \<open>The loop \<open>while (len > 0 && path[len-1] != '/') len--\<close>.\<close>

fun back_to_slash :: "char list \<Rightarrow> nat \<Rightarrow> nat" where
  "back_to_slash path 0 = 0"
| "back_to_slash path (Suc n) = (if path ! n \<noteq> CHR ''/'' then back_to_slash path n else Suc n)"

text \<open>\<open>get_parent_dir\<close> cuts the string in its buffer off in place.\<close>

definition get_parent_dir :: "char list \<Rightarrow> char list res" where
  "get_parent_dir path =
     bind_res (strlen path) (\<lambda>n.
     if cstring path = ''/'' then Inr path
     else
       let strip = (n > 1 \<and> path ! (n - 1) = CHR ''/'');
           len = (if strip then n - 1 else n);
           p = (if strip then path[len := NUL] else path);
           l = back_to_slash p len;
           q = (if l > 0 then if l = 1 then p[1 := NUL] else p[l - 1 := NUL] else p)
       in if q ! 0 = NUL then bind_res (guard_res (1 < length q) Out_Of_Bounds) (\<lambda>_. Inr (q[0 := CHR ''/'', 1 := NUL]))
          else Inr q)"

text \<open>\<open>normalize_path\<close>, which nothing calls: the string that the two pointers leave behind.\<close>

fun normalize_loop :: "string \<Rightarrow> string" where
  "normalize_loop [] = []"
| "normalize_loop [c] = [c]"
| "normalize_loop (c # d # s) =
     (if c = CHR ''/'' \<and> d = CHR ''/'' then normalize_loop (d # s) else c # normalize_loop (d # s))"

definition normalize_path :: "string \<Rightarrow> string" where
  "normalize_path path =
     (case path of [] \<Rightarrow> [] | c # s \<Rightarrow> if c = CHR ''/'' then c # normalize_loop s else normalize_loop path)"

section \<open>Commands\<close>

type_synonym command_result = "(string \<times> kstate) res"

definition set_cwd :: "char list \<Rightarrow> kstate \<Rightarrow> kstate" where
  "set_cwd buf ks =
     (case current_process (k_pt ks) of None \<Rightarrow> ks
      | Some p \<Rightarrow> ks\<lparr>k_pt := upd_proc p (\<lambda>q. q\<lparr>cwd := buf\<rparr>) (k_pt ks)\<rparr>)"

definition cmd_exit :: "kstate \<Rightarrow> kstate res" where
  "cmd_exit ks = map_res (\<lambda>pt. ks\<lparr>k_pt := pt\<rparr>) (exit_process 0 (k_pt ks))"

definition cmd_echo :: "string option \<Rightarrow> kstate \<Rightarrow> command_result" where
  "cmd_echo args ks = Inr (case_option [] id args @ [NEWLINE], ks)"

definition cmd_pwd :: "kstate \<Rightarrow> command_result" where
  "cmd_pwd ks =
     bind_res (of_option Null_Deref (current_cwd ks)) (\<lambda>buf.
       Inr ((if buf ! 0 = NUL then ''/'' else cstring buf) @ [NEWLINE], ks))"

text \<open>One turn of the loop over the components of the path; \<open>temp_path\<close> is a buffer of 256 bytes.\<close>

definition cd_component :: "string \<Rightarrow> char list \<Rightarrow> char list res" where
  "cd_component c temp_path =
     (if c = ''.'' then Inr temp_path
      else if c = ''..'' then get_parent_dir temp_path
      else bind_res (if cstring temp_path \<noteq> ''/'' then strcat temp_path (''/'' @ [NUL]) else Inr temp_path)
             (\<lambda>t. strcat t (c @ [NUL])))"

fun cd_loop :: "string list \<Rightarrow> char list \<Rightarrow> char list res" where
  "cd_loop [] temp_path = Inr temp_path"
| "cd_loop (c # cs) temp_path = bind_res (cd_component c temp_path) (cd_loop cs)"

text \<open>The contents of an uninitialised buffer are \<open>junk\<close>.\<close>

definition cd_home :: "kstate \<Rightarrow> command_result" where
  "cd_home ks = map_res (\<lambda>buf. ([], set_cwd (buf[0 := CHR ''/'', 1 := NUL]) ks)) (of_option Null_Deref (current_cwd ks))"

definition cmd_cd :: "char list \<Rightarrow> string option \<Rightarrow> kstate \<Rightarrow> command_result" where
  "cmd_cd junk args ks =
     (case args of
        None \<Rightarrow> cd_home ks
      | Some path \<Rightarrow>
          if path = [] then cd_home ks
          else if path = ''.'' then Inr ([], ks)
          else
            bind_res (of_option Null_Deref (current_cwd ks)) (\<lambda>buf.
            if path = ''..'' then map_res (\<lambda>b. ([], set_cwd b ks)) (get_parent_dir buf)
            else
              bind_res (if hd path = CHR ''/'' then Inr (junk[0 := CHR ''/'', 1 := NUL], tl path)
                        else map_res (\<lambda>t. (t, path)) (strcpy junk buf)) (\<lambda>(temp_path, p).
              bind_res (str_copy VFS_MAX_PATH p) (\<lambda>p.
              bind_res (cd_loop (tokens {CHR ''/''} p) temp_path) (\<lambda>temp_path.
              bind_res (vfs_open (cstring temp_path) ks) (\<lambda>(fd, ks1).
                if fd < 0 then Inr (''cd: no such directory: '' @ cstring temp_path @ [NEWLINE], ks1)
                else map_res (\<lambda>b. ([], set_cwd b ks1)) (strcpy buf temp_path)))))))"

text \<open>
  The entries that \<open>ls\<close> prints are in the dead frame of \<open>handle_read_dir_message\<close>; \<open>left\<close> is what is
  left of them when they are read.
\<close>

definition cmd_ls :: "(dirent list \<Rightarrow> dirent list) \<Rightarrow> u64 \<Rightarrow> string option \<Rightarrow> kstate \<Rightarrow> command_result" where
  "cmd_ls left process_stacks args ks =
     bind_res (if args = None \<or> args = Some [] then map_res cstring (of_option Null_Deref (current_cwd ks))
               else of_option Null_Deref args) (\<lambda>path.
     bind_res (send_message process_stacks (zero_message\<lparr>mtype := MSG_READ_DIR, mpath := Some path\<rparr>) ks)
       (\<lambda>(rep, ks1).
       case rep of
         Waiting _ _ \<Rightarrow> Inr ([], ks1)
       | Reply r m \<Rightarrow>
           if r \<ge> 0
           then Inr (concat (map (\<lambda>d. d_name d @ [NEWLINE]) (left (case_option [] id (mdirents m)))), ks1)
           else Inr (''ls: cannot access '' @ [CHR 0x27] @ path @ [CHR 0x27, NEWLINE], ks1)))"

text \<open>
  The copy loop of \<open>cp\<close>, which need not end. It returns what the loop and the test behind it print.
\<close>

partial_function (option) cp_loop :: "int \<Rightarrow> int \<Rightarrow> kstate \<Rightarrow> command_result option" where
  "cp_loop src_fd dst_fd ks =
     (case vfs_read src_fd 1024 ks of
        Inl e \<Rightarrow> Some (Inl e)
      | Inr (n, buf, ks1) \<Rightarrow>
          if n > 0 then
            (case vfs_write dst_fd buf (of_int n) ks1 of
               Inl e \<Rightarrow> Some (Inl e)
             | Inr (written, ks2) \<Rightarrow>
                 if written < 0 \<or> written \<noteq> n then Some (Inr (''cp: write error'' @ [NEWLINE], ks2))
                 else cp_loop src_fd dst_fd ks2)
          else Some (Inr (if n < 0 then ''cp: read error'' @ [NEWLINE] else [], ks1)))"

text \<open>
  The first two words. Without arguments the null pointer makes \<open>strtok_r\<close> continue at \<open>saveptr\<close>,
  which has no value yet.
\<close>

definition two_words :: "string option \<Rightarrow> (string \<times> string) option res" where
  "two_words args =
     map_res (\<lambda>a. case tokens {CHR '' ''} a of w # v # _ \<Rightarrow> Some (w, v) | _ \<Rightarrow> None)
       (of_option Indeterminate args)"

definition cmd_cp :: "string option \<Rightarrow> kstate \<Rightarrow> command_result" where
  "cmd_cp args ks =
     bind_res (two_words args) (\<lambda>ws.
     case ws of
       None \<Rightarrow> Inr (''Usage: cp source dest'' @ [NEWLINE], ks)
     | Some (src_arg, dst_arg) \<Rightarrow>
         bind_res (str_copy VFS_MAX_PATH src_arg) (\<lambda>src.
         bind_res (str_copy VFS_MAX_PATH dst_arg) (\<lambda>dst.
         bind_res (vfs_open src ks) (\<lambda>(src_fd, ks1).
         if src_fd < 0 then Inr (''cp: cannot open source file: '' @ src @ [NEWLINE], ks1)
         else
           bind_res (vfs_create dst ks1) (\<lambda>(dst_fd, ks2).
           if dst_fd < 0 then Inr (''cp: cannot create destination file: '' @ dst @ [NEWLINE], ks2)
           else bind_res (of_option Hang (cp_loop src_fd dst_fd ks2)) (\<lambda>r. r))))))"

definition cmd_touch :: "string option \<Rightarrow> kstate \<Rightarrow> command_result" where
  "cmd_touch args ks =
     (case args of
        None \<Rightarrow> Inr (''touch: missing file operand'' @ [NEWLINE], ks)
      | Some path \<Rightarrow>
          if path = [] then Inr (''touch: missing file operand'' @ [NEWLINE], ks)
          else
            bind_res (vfs_create path ks) (\<lambda>(fd, ks1).
              if fd < 0 then Inr (''touch: cannot create file '' @ [CHR 0x27] @ path @ [CHR 0x27, NEWLINE], ks1)
              else Inr ([], snd (vfs_close fd ks1))))"

definition cmd_mv :: "string option \<Rightarrow> kstate \<Rightarrow> command_result" where
  "cmd_mv args ks =
     bind_res (two_words args) (\<lambda>ws.
     case ws of
       None \<Rightarrow> Inr (''Usage: mv source dest'' @ [NEWLINE], ks)
     | Some (src_arg, dst_arg) \<Rightarrow>
         bind_res (str_copy VFS_MAX_PATH src_arg) (\<lambda>src.
         bind_res (str_copy VFS_MAX_PATH dst_arg) (\<lambda>dst.
         bind_res (bind_res (str_copy 512 src) (\<lambda>c. bind_res (str_cat 512 c '' '') (\<lambda>c. str_cat 512 c dst)))
           (\<lambda>cp_args.
         bind_res (cmd_cp (Some cp_args) ks) (\<lambda>(out, ks1).
         bind_res (vfs_unlink src ks1) (\<lambda>(r, ks2).
           Inr (out @ (if r < 0 then ''mv: cannot remove source file'' @ [NEWLINE] else []), ks2)))))))"

definition cmd_rm :: "string option \<Rightarrow> kstate \<Rightarrow> command_result" where
  "cmd_rm args ks =
     (let usage = Inr (''Usage: rm [-r] <file|directory>'' @ [NEWLINE], ks);
          missing = Inr (''rm: missing file operand'' @ [NEWLINE], ks)
      in case args of
        None \<Rightarrow> usage
      | Some a \<Rightarrow>
          if a = [] then usage
          else case tokens {CHR '' ''} a of
            [] \<Rightarrow> missing
          | token # rest \<Rightarrow>
              if token = ''-r'' then
                (case rest of
                   [] \<Rightarrow> missing
                 | target # _ \<Rightarrow>
                     bind_res (vfs_remove_recursive (Some target) ks) (\<lambda>(r, ks1).
                       Inr (if r < 0 then ''rm: cannot recursively remove '' @ [CHR 0x27] @ target @ [CHR 0x27, NEWLINE]
                            else [], ks1)))
              else
                bind_res (vfs_unlink token ks) (\<lambda>(r, ks1).
                  Inr (if r < 0 then ''rm: cannot remove '' @ [CHR 0x27] @ token @ [CHR 0x27, NEWLINE] else [], ks1)))"

definition cmd_mkdir :: "string option \<Rightarrow> kstate \<Rightarrow> command_result" where
  "cmd_mkdir args ks =
     (case args of
        None \<Rightarrow> Inr (''Usage: mkdir <directory>'' @ [NEWLINE], ks)
      | Some path \<Rightarrow>
          if path = [] then Inr (''Usage: mkdir <directory>'' @ [NEWLINE], ks)
          else bind_res (vfs_mkdir path ks) (\<lambda>(r, ks1).
            Inr (if r < 0 then ''mkdir: cannot create directory '' @ [CHR 0x27] @ path @ [CHR 0x27, NEWLINE] else [], ks1)))"

definition cmd_bind :: "string option \<Rightarrow> kstate \<Rightarrow> command_result" where
  "cmd_bind args ks =
     bind_res (two_words args) (\<lambda>ws.
     case ws of
       None \<Rightarrow> Inr (''Usage: bind source target'' @ [NEWLINE], ks)
     | Some (old, new) \<Rightarrow>
         bind_res (bind old new MREPL ks) (\<lambda>(r, ks1).
           Inr (if r < 0 then ''bind: failed to create binding'' @ [NEWLINE]
                else ''Created binding: '' @ new @ '' -> '' @ old @ [NEWLINE], ks1)))"

definition cmd_unbind :: "u64 \<Rightarrow> string option \<Rightarrow> kstate \<Rightarrow> command_result" where
  "cmd_unbind process_stacks args ks =
     (case args of
        None \<Rightarrow> Inr (''Usage: unbind <path>'' @ [NEWLINE], ks)
      | Some path \<Rightarrow>
          bind_res (send_message process_stacks (zero_message\<lparr>mtype := MSG_UNBIND, mpath := Some path\<rparr>) ks)
            (\<lambda>(rep, ks1).
            case rep of
              Waiting _ _ \<Rightarrow> Inr ([], ks1)
            | Reply r _ \<Rightarrow>
                Inr (if r < 0 then ''unbind: failed'' @ [NEWLINE]
                     else ''Namespace unbound: '' @ path @ [NEWLINE], ks1)))"

section \<open>The command line\<close>

text \<open>
  One character of the line editor, at position \<open>pos\<close> of the buffer: the line is complete, or the new
  buffer and position.
\<close>

definition edit_char :: "char \<Rightarrow> char list \<Rightarrow> nat \<Rightarrow> bool \<times> char list \<times> nat" where
  "edit_char c input pos =
     (if c = CHR 0x0D \<or> c = NEWLINE then (True, input[pos := NUL], pos)
      else if (c = CHR 0x7F \<or> c = CHR 0x08) \<and> pos > 0 then (False, input, pos - 1)
      else if (of_char c :: nat) \<ge> 32 \<and> (of_char c :: nat) \<le> 126 then (False, input[pos := c], pos + 1)
      else (False, input, pos))"

text \<open>
  The inner loop of \<open>shell\<close> on the characters that \<open>uart_getc\<close> returns: it waits for more of them
  (None) until the line is complete or has 255 characters, in which case nothing ends the string.
\<close>

fun read_line :: "char list \<Rightarrow> nat \<Rightarrow> char list \<Rightarrow> (char list \<times> nat \<times> char list) option" where
  "read_line input pos cs =
     (if pos < MAX_INPUT - 1 then
        (case cs of [] \<Rightarrow> None
         | c # cs' \<Rightarrow>
             (case edit_char c input pos of (stop, input', pos') \<Rightarrow>
                if stop then Some (input', pos', cs') else read_line input' pos' cs'))
      else Some (input, pos, cs))"

declare read_line.simps [simp del]

text \<open>The first space ends the command; what follows it is the argument string.\<close>

definition split_line :: "char list \<Rightarrow> nat \<Rightarrow> (string \<times> string option) res" where
  "split_line input pos =
     (case first_index (\<lambda>c. c = CHR '' '') (take pos input) of
        None \<Rightarrow> map_res (\<lambda>n. (take n input, None)) (strlen input)
      | Some i \<Rightarrow>
          let input' = input[i := NUL] in
          bind_res (strlen input') (\<lambda>n.
          map_res (\<lambda>k. (take n input', Some (take k (drop (i + 1) input')))) (strlen (drop (i + 1) input'))))"

text \<open>After \<open>exit\<close> the shell's process never runs again.\<close>

datatype shell_next = Continue string kstate | Exited kstate

definition run_command :: "char list \<Rightarrow> (dirent list \<Rightarrow> dirent list) \<Rightarrow> u64 \<Rightarrow> string \<Rightarrow> string option \<Rightarrow>
    kstate \<Rightarrow> shell_next res" where
  "run_command junk left process_stacks cmd args ks =
     (if cmd = ''exit'' then map_res Exited (cmd_exit ks)
      else map_res (\<lambda>(out, ks1). Continue out ks1)
        (if cmd = ''echo'' then cmd_echo args ks
         else if cmd = ''pwd'' then cmd_pwd ks
         else if cmd = ''cd'' then cmd_cd junk args ks
         else if cmd = ''ls'' then cmd_ls left process_stacks args ks
         else if cmd = ''cp'' then cmd_cp args ks
         else if cmd = ''touch'' then cmd_touch args ks
         else if cmd = ''mv'' then cmd_mv args ks
         else if cmd = ''rm'' then cmd_rm args ks
         else if cmd = ''mkdir'' then cmd_mkdir args ks
         else if cmd = ''bind'' then cmd_bind args ks
         else if cmd = ''unbind'' then cmd_unbind process_stacks args ks
         else Inr (''Unknown command: '' @ cmd @ [NEWLINE], ks)))"

text \<open>
  The table \<open>commands\<close>, which the shell does not use: its chain of comparisons has three commands more.
\<close>

definition commands :: "char list \<Rightarrow> (dirent list \<Rightarrow> dirent list) \<Rightarrow> u64 \<Rightarrow>
    (string \<times> (string option \<Rightarrow> kstate \<Rightarrow> command_result)) list" where
  "commands junk left process_stacks =
     [(''ls'', cmd_ls left process_stacks), (''pwd'', \<lambda>_. cmd_pwd), (''cd'', cmd_cd junk), (''cp'', cmd_cp), (''mv'', cmd_mv),
      (''touch'', cmd_touch), (''rm'', cmd_rm), (''mkdir'', cmd_mkdir), (''bind'', cmd_bind)]"

lemma run_command_table:
  assumes "(cmd, f) \<in> set (commands junk left process_stacks)"
  shows "run_command junk left process_stacks cmd args ks = map_res (\<lambda>(out, ks1). Continue out ks1) (f args ks)"
proof -
  have "cmd = ''ls'' \<and> f = cmd_ls left process_stacks \<or> cmd = ''pwd'' \<and> f = (\<lambda>_. cmd_pwd) \<or>
      cmd = ''cd'' \<and> f = cmd_cd junk \<or> cmd = ''cp'' \<and> f = cmd_cp \<or> cmd = ''mv'' \<and> f = cmd_mv \<or>
      cmd = ''touch'' \<and> f = cmd_touch \<or> cmd = ''rm'' \<and> f = cmd_rm \<or> cmd = ''mkdir'' \<and> f = cmd_mkdir \<or>
      cmd = ''bind'' \<and> f = cmd_bind"
    using assms unfolding commands_def by simp
  then show ?thesis
    by (elim disjE conjE) (simp_all add: run_command_def)
qed

text \<open>
  The shell on the characters that are typed until it waits for the next one: what it printed, without
  the prompt and the echo, and the state. What a command writes into the line (the space, and the
  delimiters that \<open>strtok_r\<close> replaces) is not kept: the next line is written anew up to its end.
\<close>

lemma read_line_shorter: "read_line input pos cs = Some (input', pos', cs') \<Longrightarrow> pos < 255 \<Longrightarrow> length cs' < length cs"
proof (induction cs arbitrary: input pos)
  case Nil
  then show ?case by (simp add: read_line.simps)
next
  case (Cons c cs)
  obtain stop i p where e: "edit_char c input pos = (stop, i, p)"
    by (cases "edit_char c input pos")
  show ?case
  proof (cases stop)
    case True
    then show ?thesis
      using Cons.prems e by (subst (asm) read_line.simps) simp
  next
    case False
    then have r: "read_line i p cs = Some (input', pos', cs')"
      using Cons.prems e by (subst (asm) read_line.simps) simp
    then show ?thesis
      using Cons.IH [OF r] by (cases "p < 255") (auto simp: read_line.simps [of _ p])
  qed
qed

function shell :: "char list \<Rightarrow> (dirent list \<Rightarrow> dirent list) \<Rightarrow> u64 \<Rightarrow> char list \<Rightarrow> char list \<Rightarrow> kstate \<Rightarrow>
    command_result" where
  "shell junk left process_stacks input cs ks =
     (case read_line input 0 cs of
        None \<Rightarrow> Inr ([], ks)
      | Some (input', pos, cs') \<Rightarrow>
          bind_res (split_line input' pos) (\<lambda>(cmd, args).
          bind_res (run_command junk left process_stacks cmd args ks) (\<lambda>nx.
          case nx of
            Exited ks1 \<Rightarrow> Inr ([], ks1)
          | Continue out ks1 \<Rightarrow>
              map_res (\<lambda>(out', ks2). (out @ out', ks2)) (shell junk left process_stacks input' cs' ks1))))"
  by pat_completeness auto
termination
  by (relation "measure (\<lambda>(junk, left, process_stacks, input, cs, ks). length cs)")
    (auto dest: read_line_shorter)

declare shell.simps [simp del]

end
