(* ===== verification/Shell_Copy.thy ===== *)
theory Shell_Copy
  imports Shell
begin

text \<open>
  \<open>cp\<close> and \<open>mv\<close> of the shell on files of /tmp: the loop over chunks of 1024 bytes copies the content
  and ends; \<open>mv\<close> removes its source whether or not there is a copy.
\<close>

section \<open>The loop\<close>

text \<open>The two descriptors of the loop, both at position \<open>p\<close>, with \<open>p\<close> bytes copied so far.\<close>

definition copying :: "int \<Rightarrow> int \<Rightarrow> nat \<Rightarrow> nat \<Rightarrow> char list \<Rightarrow> nat \<Rightarrow> kstate \<Rightarrow> bool" where
  "copying sfd dfd i j d p ks \<longleftrightarrow>
     ramfs_ok (k_ramfs ks) \<and> length (fd_table ks) = MAX_FD \<and> i \<noteq> j \<and> i < MAX_FILES \<and> j < MAX_FILES \<and>
     sfd \<noteq> dfd \<and> 0 \<le> sfd \<and> sfd < 32 \<and> 0 \<le> dfd \<and> dfd < 32 \<and>
     (\<exists>fl. get_file sfd ks = Some fl \<and> f_ops fl = Ramfs_Fops \<and> ramfs_handle fl i \<and> unat (f_pos fl) = p) \<and>
     (\<exists>fl. get_file dfd ks = Some fl \<and> f_ops fl = Ramfs_Fops \<and> ramfs_handle fl j \<and> unat (f_pos fl) = p) \<and>
     rf_data (k_ramfs ks ! i) = d \<and> rf_data (k_ramfs ks ! j) = take p d \<and> p \<le> length d"

lemma copyingE:
  assumes "copying sfd dfd i j d p ks"
  obtains fl fl' where "get_file sfd ks = Some fl" "f_ops fl = Ramfs_Fops" "ramfs_handle fl i" "unat (f_pos fl) = p"
    "get_file dfd ks = Some fl'" "f_ops fl' = Ramfs_Fops" "ramfs_handle fl' j" "unat (f_pos fl') = p"
  using assms by (auto simp: copying_def)

text \<open>What the loop may change: the content of slot \<open>j\<close> and the positions.\<close>

definition copied :: "nat \<Rightarrow> char list \<Rightarrow> kstate \<Rightarrow> kstate \<Rightarrow> bool" where
  "copied j d ks ks' \<longleftrightarrow>
     ramfs_ok (k_ramfs ks') \<and> (\<forall>k. k \<noteq> j \<longrightarrow> k_ramfs ks' ! k = k_ramfs ks ! k) \<and>
     rf_used (k_ramfs ks' ! j) = rf_used (k_ramfs ks ! j) \<and> rf_path (k_ramfs ks' ! j) = rf_path (k_ramfs ks ! j) \<and>
     rf_data (k_ramfs ks' ! j) = d \<and>
     k_abyss ks' = k_abyss ks \<and> k_pt ks' = k_pt ks \<and> next_fd ks' = next_fd ks \<and> mount_points ks' = mount_points ks"

lemma get_set_other [simp]:
  "length (fd_table ks) = MAX_FD \<Longrightarrow> 0 \<le> fd \<Longrightarrow> 0 \<le> fd' \<Longrightarrow> fd \<noteq> fd' \<Longrightarrow> get_file fd (set_file fd' f ks) = get_file fd ks"
  by (simp add: get_file_def set_file_def nat_eq_iff)

lemma get_file_ramfs [simp]: "get_file fd (ks\<lparr>k_ramfs := fs\<rparr>) = get_file fd ks"
  "get_file fd (ks\<lparr>k_heap := h\<rparr>) = get_file fd ks" "get_file fd (ks\<lparr>k_heap := h, k_ramfs := fs\<rparr>) = get_file fd ks"
  by (simp_all add: get_file_def)

lemma set_file_mounts [simp]: "mount_points (set_file fd f ks) = mount_points ks"
  by (simp add: set_file_def)

lemma copying_step:
  assumes c: "copying sfd dfd i j d p ks"
  defines "n \<equiv> min 1024 (length d - p)"
  shows "\<exists>ks1 bs. vfs_read sfd 1024 ks = Inr (int n, bs, ks1) \<and> (n = 0 \<longrightarrow> copied j d ks ks1) \<and>
    (n > 0 \<longrightarrow> (\<exists>ks2. vfs_write dfd bs (of_nat n) ks1 = Inr (int n, ks2) \<and> copying sfd dfd i j d (p + n) ks2 \<and>
       (\<forall>ks'. copied j d ks2 ks' \<longrightarrow> copied j d ks ks')))"
proof -
  obtain fl fl' where f: "get_file sfd ks = Some fl" "f_ops fl = Ramfs_Fops" "ramfs_handle fl i" "unat (f_pos fl) = p"
    "get_file dfd ks = Some fl'" "f_ops fl' = Ramfs_Fops" "ramfs_handle fl' j" "unat (f_pos fl') = p"
    using c by (rule copyingE)
  note cd = c [unfolded copying_def]
  have d: "length d \<le> MAX_CONTENT"
    using cd ramfs_ok_nth(3) [of "k_ramfs ks" i] by auto
  let ?bs = "take 1024 (drop p d)"
  have lb: "length ?bs = n"
    by (simp add: n_def)
  have "p < 2 ^ 63"
    using cd d by simp
  then have rd: "ramfs_read fl 1024 (k_ramfs ks) = Inr (int n, ?bs, fl\<lparr>f_pos := f_pos fl + of_nat n\<rparr>)"
    using ramfs_read_eq [of "k_ramfs ks" fl i 1024] cd f(3,4) lb by (simp del: length_take)
  define ks1 where "ks1 = set_file sfd (Some (fl\<lparr>f_pos := f_pos fl + of_nat n\<rparr>)) ks"
  have r: "vfs_read sfd 1024 ks = Inr (int n, ?bs, ks1)"
    unfolding ks1_def by (rule vfs_read_tmp [OF f(1,2) rd])
  have n64: "unat (of_nat n :: u64) = n"
    using d by (simp add: n_def unat_of_nat)
  have pd: "p \<le> length d"
    using cd by simp
  then have pn: "p + n \<le> MAX_CONTENT" "p + n \<le> length d"
    using d unfolding n_def by linarith+
  have up: "unat (f_pos fl + of_nat n) = p + n" "unat (f_pos fl' + of_nat n) = p + n"
    using unat_plus_64 [of "f_pos fl" "of_nat n"] unat_plus_64 [of "f_pos fl'" "of_nat n"] f(4,8) n64 pn by simp_all
  have "copied j d ks ks1" if "n = 0"
    using cd that by (simp add: copied_def ks1_def n_def)
  moreover have "\<exists>ks2. vfs_write dfd ?bs (of_nat n) ks1 = Inr (int n, ks2) \<and> copying sfd dfd i j d (p + n) ks2 \<and>
       (\<forall>ks'. copied j d ks2 ks' \<longrightarrow> copied j d ks ks')" if "n > 0"
  proof -
    have wr: "ramfs_written fl' (of_nat n) = n"
      using pn(1) f(8) n64 by (simp add: ramfs_written_def min_def)
    have "f_pos fl' \<le> rf_size (k_ramfs ks ! j)"
    proof -
      have "unat (rf_size (k_ramfs ks ! j)) = length (take p d)"
        using cd length_rf_data [of "k_ramfs ks ! j"] by simp
      then show ?thesis
        using cd f(8) by (simp add: word_le_nat_alt)
    qed
    note pos = this
    have ok: "ramfs_ok (k_ramfs ks)"
      using cd by simp
    have nw: "unat (f_pos fl') + unat (of_nat n :: u64) < 2 ^ 64" "ramfs_written fl' (of_nat n) \<le> length ?bs"
      using f(8) n64 pn(1) by (simp_all only: wr lb) simp_all
    obtain fs where
      w: "ramfs_write fl' ?bs (of_nat n) (k_ramfs ks) = Inr (int n, fl'\<lparr>f_pos := f_pos fl' + of_nat n\<rparr>, fs)"
      "ramfs_ok fs" "\<forall>k. k \<noteq> j \<longrightarrow> fs ! k = k_ramfs ks ! k" "rf_used (fs ! j) = rf_used (k_ramfs ks ! j)"
      "rf_path (fs ! j) = rf_path (k_ramfs ks ! j)"
      "rf_data (fs ! j) = take p (rf_data (k_ramfs ks ! j)) @ take n ?bs @ drop (p + n) (rf_data (k_ramfs ks ! j))"
      by (rule ramfs_write_eq [OF ok f(7) nw(1) pos nw(2), unfolded wr f(8)])
    have "take n ?bs = take n (drop p d)"
      by (simp add: n_def)
    then have data: "rf_data (fs ! j) = take (p + n) d"
      using w(6) cd by (simp add: take_add)
    define ks2 where "ks2 = set_file dfd (Some (fl'\<lparr>f_pos := f_pos fl' + of_nat n\<rparr>)) (ks1\<lparr>k_ramfs := fs\<rparr>)"
    have "get_file dfd ks1 = Some fl'"
      using cd f(5) by (simp add: ks1_def)
    moreover have "k_ramfs ks1 = k_ramfs ks"
      by (simp add: ks1_def)
    ultimately have "vfs_write dfd ?bs (of_nat n) ks1 = Inr (int n, ks2)"
      unfolding ks2_def using vfs_write_tmp [of dfd ks1 fl'] f(6) w(1) by simp
    moreover have "copying sfd dfd i j d (p + n) ks2"
    proof -
      have "get_file sfd ks2 = Some (fl\<lparr>f_pos := f_pos fl + of_nat n\<rparr>)"
        "get_file dfd ks2 = Some (fl'\<lparr>f_pos := f_pos fl' + of_nat n\<rparr>)"
        using cd by (simp_all add: ks2_def ks1_def)
      then show ?thesis
        using cd f w(2,3) up data pn(2) by (simp add: copying_def ks2_def ks1_def ramfs_handle_def)
    qed
    moreover have "\<forall>ks'. copied j d ks2 ks' \<longrightarrow> copied j d ks ks'"
      using w(3,4,5) by (simp add: copied_def ks2_def ks1_def)
    ultimately show ?thesis
      by blast
  qed
  ultimately show ?thesis
    using r by blast
qed

lemma cp_loop_copies:
  "copying sfd dfd i j d p ks \<Longrightarrow> \<exists>ks'. cp_loop sfd dfd ks = Some (Inr ([], ks')) \<and> copied j d ks ks'"
proof (induction "length d - p" arbitrary: p ks rule: less_induct)
  case less
  let ?n = "min 1024 (length d - p)"
  obtain ks1 bs where r: "vfs_read sfd 1024 ks = Inr (int ?n, bs, ks1)" "?n = 0 \<longrightarrow> copied j d ks ks1"
    "?n > 0 \<longrightarrow> (\<exists>ks2. vfs_write dfd bs (of_nat ?n) ks1 = Inr (int ?n, ks2) \<and> copying sfd dfd i j d (p + ?n) ks2 \<and>
       (\<forall>ks'. copied j d ks2 ks' \<longrightarrow> copied j d ks ks'))"
    using copying_step [OF less.prems] by (elim exE conjE) (rule that)
  show ?case
  proof (cases "?n = 0")
    case True
    then show ?thesis
      using r(1,2) by (subst cp_loop.simps) simp
  next
    case False
    then obtain ks2 where 2: "vfs_write dfd bs (of_nat ?n) ks1 = Inr (int ?n, ks2)" "copying sfd dfd i j d (p + ?n) ks2"
      "\<forall>ks'. copied j d ks2 ks' \<longrightarrow> copied j d ks ks'"
      using r(3) by auto
    have "length d - (p + ?n) < length d - p"
      using False by auto
    from less.hyps [OF this 2(2)] obtain ks' where "cp_loop sfd dfd ks2 = Some (Inr ([], ks'))" "copied j d ks2 ks'"
      by blast
    then show ?thesis
      using False r(1) 2(1,3) by (subst cp_loop.simps) simp
  qed
qed

section \<open>The commands\<close>

lemma tokens_two_words:
  assumes "p \<noteq> []" "CHR '' '' \<notin> set p" "q \<noteq> []" "CHR '' '' \<notin> set q"
  shows "tokens {CHR '' ''} (p @ '' '' @ q) = [p, q]"
proof -
  have q: "tokens {CHR '' ''} q = [q]"
    using assms by (intro tokens_single) auto
  have d: "dropWhile (\<lambda>c. c = CHR '' '') (p @ '' '' @ q) = p @ '' '' @ q"
    using assms(1,2) by (cases p) auto
  have "takeWhile (\<lambda>c. c \<noteq> CHR '' '') (p @ CHR '' '' # q) = p" "dropWhile (\<lambda>c. c \<noteq> CHR '' '') (p @ CHR '' '' # q) = CHR '' '' # q"
    using assms(2) by (simp_all add: takeWhile_append dropWhile_append)
  with d assms(1) have "tokens {CHR '' ''} (p @ '' '' @ q) = p # tokens {CHR '' ''} (CHR '' '' # q)"
    by (subst tokens.simps) (simp add: Let_def)
  then show ?thesis
    using q by (simp add: tokens_delim)
qed

lemma two_words_eq:
  "p \<noteq> [] \<Longrightarrow> CHR '' '' \<notin> set p \<Longrightarrow> q \<noteq> [] \<Longrightarrow> CHR '' '' \<notin> set q \<Longrightarrow> two_words (Some (p @ '' '' @ q)) = Inr (Some (p, q))"
  using tokens_two_words [of p q] by (simp add: two_words_def)

text \<open>A new content of one slot is an update of the map from paths to contents.\<close>

lemma ramfs_look_content:
  assumes len: "length fs' = length fs" and other: "\<forall>k. k \<noteq> j \<longrightarrow> fs' ! k = fs ! k"
    and same: "rf_used (fs' ! j) = rf_used (fs ! j)" "rf_path (fs' ! j) = rf_path (fs ! j)" and j: "ramfs_index fs q = Some j"
  shows "ramfs_look fs' = (ramfs_look fs)(q \<mapsto> rf_data (fs' ! j))"
proof
  fix r
  note idx = ramfs_index_same [OF len other same]
  show "ramfs_look fs' r = ((ramfs_look fs)(q \<mapsto> rf_data (fs' ! j))) r"
  proof (cases "r = q")
    case True
    then show ?thesis
      using idx [of q] j by (simp add: ramfs_look_def)
  next
    case False
    then have "k \<noteq> j" if "ramfs_index fs r = Some k" for k
      using ramfs_index_SomeD [OF that] ramfs_index_SomeD [OF j] by auto
    then show ?thesis
      using False idx [of r] other by (cases "ramfs_index fs r") (simp_all add: ramfs_look_def)
  qed
qed

lemma new_file_index:
  assumes "ramfs_look fs p = None" and "first_index (\<lambda>f. \<not> rf_used f) fs = Some j"
  shows "ramfs_index (fs[j := new_ramfs_file p (fs ! j)]) p = Some j"
    "ramfs_look (fs[j := new_ramfs_file p (fs ! j)]) = (ramfs_look fs)(p \<mapsto> [])"
proof -
  let ?fs = "fs[j := new_ramfs_file p (fs ! j)]"
  have j: "j < length fs" "\<not> rf_used (fs ! j)"
    using first_index_SomeD [OF assms(2)] by simp_all
  show idx: "ramfs_index ?fs p = Some j"
    unfolding ramfs_index_def
  proof (rule first_index_unique)
    show "\<not> (rf_used (?fs ! k) \<and> rf_path (?fs ! k) = p)" if "k < length ?fs" "k \<noteq> j" for k
      using assms(1) that by (auto simp: ramfs_look_def ramfs_index_def first_index_None)
  qed (use j in \<open>simp_all add: new_ramfs_file_def\<close>)
  have data: "rf_data (new_ramfs_file p f) = []" for f
    by (simp add: rf_data_def new_ramfs_file_def mem_slice_def)
  show "ramfs_look ?fs = (ramfs_look fs)(p \<mapsto> [])"
  proof
    fix r
    have "rf_used (new_ramfs_file p f)" "rf_path (new_ramfs_file p f) = p" for f
      by (simp_all add: new_ramfs_file_def)
    then show "ramfs_look ?fs r = ((ramfs_look fs)(p \<mapsto> [])) r"
      using j idx ramfs_look_update_other [of j fs r "new_ramfs_file p (fs ! j)"]
      by (cases "r = p") (simp_all add: ramfs_look_def [of ?fs p] data)
  qed
qed

section \<open>Properties\<close>


text \<open>
  \<open>mv\<close> does not look at what its copy did: once the descriptors are used up (sixteen copies
  are enough), it prints that it cannot open its source, copies nothing, and removes the source.
\<close>

theorem mv_removes_source_without_copy:
  assumes ok: "ramfs_ok (k_ramfs ks)" "ramfs_unique (k_ramfs ks)"
    and p: "prefix ''/tmp/'' p" "length p < MAX_PATH" "CHR '' '' \<notin> set p" "cstr p"
    and q: "q \<noteq> []" "length q < VFS_MAX_PATH" "CHR '' '' \<notin> set q"
    and d: "ramfs_look (k_ramfs ks) p = Some d" and heap: "kalloc sizeof_vfs_file (k_heap ks) = (Some a, h)"
    and full: "MAX_FD \<le> next_fd ks" and ns: "current_ns ks = Some []" and m: "booted_mounts ks"
  shows "\<exists>ks'. cmd_mv (Some (p @ '' '' @ q)) ks = Inr (''cp: cannot open source file: '' @ p @ [NEWLINE], ks') \<and>
    ramfs_look (k_ramfs ks') = (ramfs_look (k_ramfs ks))(p := None) \<and> k_abyss ks' = k_abyss ks"
proof -
  let ?ks = "ks\<lparr>k_heap := h\<rparr>"
  have ne: "p \<noteq> []" and root: "prefix ''/'' p" and tmp: "prefix ''/tmp'' p"
    using p(1) by (auto elim!: prefixE)
  note words = two_words_eq [OF ne p(3) q(1,3)]
  obtain i where i: "ramfs_index (k_ramfs ks) p = Some i"
    using d by (auto simp: ramfs_look_def)
  have "vfs_open p ks = Inr (-1, ?ks)"
    unfolding vfs_open_tmp_eq [OF p(1,2) i heap ns] using full by (simp add: alloc_fd_def)
  then have cp: "cmd_cp (Some (p @ '' '' @ q)) ks = Inr (''cp: cannot open source file: '' @ p @ [NEWLINE], ?ks)"
    unfolding cmd_cp_def words using p(2) q(2) by simp
  obtain mp where mp: "find_mount p ?ks = Some mp" "mp_fs mp = Ramfs_Type"
    using find_mount_booted [of ?ks p] m root tmp by (auto simp: booted_mounts_def)
  obtain files where u: "ramfs_unlink p (k_ramfs ks) = (0, files)"
    using i by (simp add: ramfs_unlink_def ramfs_index_def)
  have "ramfs_look files = (ramfs_look (k_ramfs ks))(p := None)"
    using ramfs_unlink_some [of "(h, k_ramfs ks)" p "(h, files)"] ok p(1,4) u
    by (simp add: ramfs_inv_def ramfs_name_def ramfs_remove_def)
  moreover have "vfs_unlink p ?ks = Inr (0, ?ks\<lparr>k_ramfs := files\<rparr>)"
    using root p(2) mp u by (simp add: vfs_unlink_def absolute_path_abs fs_unlink_def)
  ultimately show ?thesis
    unfolding cmd_mv_def words using p(2) q(2) cp by simp
qed

section \<open>Concrete runs\<close>

definition ex_with_file :: kstate where
  "ex_with_file = ex_kstate\<lparr>k_ramfs := (ramfs_init [])[0 := (new_ramfs_file ''/tmp/a'' zero_ramfs_file)
     \<lparr>rf_size := 3, rf_content := (\<lambda>_. NUL)(0 := CHR ''h'', 1 := CHR ''i'', 2 := CHR ''!'')\<rparr>]\<rparr>"

lemma ex_with_file_facts:
  "k_heap ex_with_file = 0" "next_fd ex_with_file = 0" "length (fd_table ex_with_file) = 32"
  "current_ns ex_with_file = Some []" "booted_mounts ex_with_file"
  "ramfs_look (k_ramfs ex_with_file) ''/tmp/a'' = Some ''hi!''" "ramfs_look (k_ramfs ex_with_file) ''/tmp/b'' = None"
  "first_index (\<lambda>f. \<not> rf_used f) (k_ramfs ex_with_file) = Some 1"
proof -
  show "current_ns ex_with_file = Some []"
    using ex_kstate_facts(5) by (simp add: ex_with_file_def current_ns_def del: ex_kstate_facts(5))
  show "booted_mounts ex_with_file"
    using ex_kstate_facts(6) by (simp add: ex_with_file_def booted_mounts_def del: ex_kstate_facts(6))
  show "first_index (\<lambda>f. \<not> rf_used f) (k_ramfs ex_with_file) = Some 1"
    by (simp add: ex_with_file_def ramfs_init_def new_ramfs_file_def zero_ramfs_file_def numeral_eq_Suc)
qed (simp_all add: ex_with_file_def ramfs_look_def ramfs_index_def ramfs_init_numeral new_ramfs_file_def rf_data_def
      mem_slice_def zero_ramfs_file_def upt_rec first_index_None)

lemma ex_with_file_ok: "ramfs_ok (k_ramfs ex_with_file)" "ramfs_unique (k_ramfs ex_with_file)"
proof -
  show "ramfs_ok (k_ramfs ex_with_file)"
    unfolding ex_with_file_def by simp (intro ramfs_ok_update ramfs_init_ok(1), simp_all add: new_ramfs_file_def)
  show "ramfs_unique (k_ramfs ex_with_file)"
    by (auto simp: ex_with_file_def ramfs_unique_def ramfs_init_def nth_list_update zero_ramfs_file_def)
qed


theorem mv_removes_source_without_copy_witness:
  "\<exists>out ks'. cmd_mv (Some ''/tmp/a /tmp/b'') (ex_with_file\<lparr>next_fd := 32\<rparr>) = Inr (out, ks') \<and>
    ramfs_look (k_ramfs ks') ''/tmp/a'' = None \<and> ramfs_look (k_ramfs ks') ''/tmp/b'' = None"
proof -
  let ?ks = "ex_with_file\<lparr>next_fd := 32\<rparr>"
  have k: "kalloc sizeof_vfs_file (k_heap ?ks) = (Some 0, 304)"
    by (simp add: kalloc_def ex_with_file_facts)
  have "current_ns ?ks = Some []" "booted_mounts ?ks"
    using ex_with_file_facts(4,5) by (simp_all add: current_ns_def booted_mounts_def)
  moreover have "''/tmp/a /tmp/b'' = ''/tmp/a'' @ '' '' @ ''/tmp/b''"
    by simp
  ultimately show ?thesis
    using mv_removes_source_without_copy [where ks = ?ks and p = "''/tmp/a''" and q = "''/tmp/b''", OF _ _ _ _ _ _ _ _ _ _ k]
      ex_with_file_ok ex_with_file_facts(6,7) by auto
qed

end
