(* ===== verification/Vfs_Boot.thy ===== *)
theory Vfs_Boot
  imports Vfs_Spec
begin

text \<open>
  What \<open>vfs_init\<close> builds, and how paths relative to a working directory fare in the system calls that
  remove files.
\<close>

section \<open>The self test of AbyssFS\<close>

text \<open>
  The working directory of the first process is zero bytes, since \<open>process_init\<close> never sets it; the
  code then takes the rest of the buffer for a path, which is empty and so leads to the root.
\<close>

definition boot_cwd :: "char list option \<Rightarrow> bool" where
  "boot_cwd wd \<longleftrightarrow> at_root wd \<or> (\<exists>n. wd = Some (replicate n NUL))"

lemma boot_cwd_inode:
  assumes "boot_cwd wd" and "geometry ab"
  shows "cwd_inode wd ab = cwd_inode root_cwd ab"
proof -
  have r: "get_inode ab 1 = Some (inode_addr 1)"
    by (rule get_inode_1 [OF assms(2)])
  have root: "cwd_inode root_cwd ab = Inr (Some (inode_addr 1))"
    using r by (simp add: cwd_inode_def root_cwd_def cstring_def)
  from assms(1) show ?thesis
    unfolding boot_cwd_def
  proof
    assume "at_root wd"
    then show ?thesis
      using r root by (auto simp: at_root_def cwd_inode_def)
  next
    assume "\<exists>n. wd = Some (replicate n NUL)"
    then obtain n where n: "wd = Some (replicate n NUL)" ..
    have "cstring (replicate k NUL) = []" for k
      by (cases k) (simp_all add: cstring_def)
    then show ?thesis
      using n r root by (simp add: cwd_inode_def get_inode_by_path_def Let_def)
  qed
qed

lemma boot_cwd_create:
  "boot_cwd wd \<Longrightarrow> geometry ab \<Longrightarrow> create_file name w wd ab = create_file name w root_cwd ab"
  unfolding create_file_def by (simp add: boot_cwd_inode)

text \<open>The first free inode is 2, and the new directory holds one file.\<close>

lemma test_abyssfs_boot:
  assumes inv: "abyss_inv ab []" and wd: "boot_cwd wd" and free: "mode_of ab 2 = 0"
  shows "\<exists>ab'. test_abyssfs wd ab = Inr ab' \<and> abyss_inv ab' [(2, ''hello.txt'')]"
proof -
  note d = abyss_invD [OF inv]
  have "List.find (\<lambda>i. mode_of ab i = 0) [1..<512] = Some 2"
    using free d(4) unfolding find_upt_Some by (auto simp: le_Suc_eq numeral_eq_Suc less_Suc_eq)
  then have al: "alloc_inode ab = (2, fresh_inode 2 ab)"
    using alloc_inode_eq [OF d(1)] by simp
  note f = fresh_inode_inv [OF inv, of 2]
  have n: "file_name ''hello.txt''" "root_room [] ''hello.txt''" "abyss_basename ''hello.txt'' = ''hello.txt''"
    by (simp_all add: file_name_def name_ok_def root_room_def dots_def esz_eq abyss_basename_def)
  have "abyss_inv (fresh_inode 2 ab) []" "mode_of (fresh_inode 2 ab) 2 \<noteq> 0"
    using f(1) free fresh_inode_fields(1) [of 2 ab] by simp_all
  moreover from this have "create_file ''hello.txt'' 2 wd (fresh_inode 2 ab) =
      create_file ''hello.txt'' 2 root_cwd (fresh_inode 2 ab)"
    using boot_cwd_create [OF wd abyss_invD(1)] by blast
  ultimately show ?thesis
    using create_file_inv [OF _ at_root_cwd n(3,1) _ n(2), of "fresh_inode 2 ab" 2] al
    by (auto simp: test_abyssfs_def)
qed

section \<open>Properties\<close>

lemma kalloc_room:
  assumes "unat h + unat n \<le> 1048576"
  shows "kalloc n h = (Some h, h + n)" "unat (h + n) = unat h + unat n"
proof -
  show u: "unat (h + n) = unat h + unat n"
    using assms by (intro unat_plus_64) simp
  then show "kalloc n h = (Some h, h + n)"
    using assms by (simp add: kalloc_def word_less_nat_alt)
qed


text \<open>
  A relative path is created below the working directory but removed as it stands: in
  /tmp, removing a file by its name fails and changes nothing, also when the file exists and its
  absolute path can be removed.
\<close>

theorem relative_unlink_fails:
  assumes wd: "current_cwd ks = Some buf" "cstring buf = ''/tmp''" and mounts: "booted_mounts ks"
    and p: "p \<noteq> []" "hd p \<noteq> CHR ''/''" "length p < 200"
    and abs: "\<forall>f \<in> set (k_ramfs ks). rf_used f \<longrightarrow> prefix ''/'' (rf_path f)"
  shows "absolute_path p ks = Inr (''/tmp/'' @ p) \<and> vfs_unlink p ks = Inr (-1, ks) \<and>
    (ramfs_index (k_ramfs ks) (''/tmp/'' @ p) \<noteq> None \<longrightarrow> (\<exists>ks'. vfs_unlink (''/tmp/'' @ p) ks = Inr (0, ks')))"
proof -
  have a: "absolute_path p ks = Inr (''/tmp/'' @ p)" "absolute_path (''/tmp/'' @ p) ks = Inr (''/tmp/'' @ p)"
    using wd p by (simp_all add: absolute_path_def)
  obtain m where m: "find_mount (''/tmp/'' @ p) ks = Some m" "mp_fs m = Ramfs_Type"
    using find_mount_booted [OF mounts, of "''/tmp/'' @ p"] by auto
  have "first_index (\<lambda>f. rf_used f \<and> rf_path f = p) (k_ramfs ks) = None"
    using abs p unfolding first_index_None by (cases p) auto
  then have "ramfs_unlink p (k_ramfs ks) = (-1, k_ramfs ks)"
    by (simp add: ramfs_unlink_def)
  then have "vfs_unlink p ks = Inr (-1, ks)"
    using a m by (simp add: vfs_unlink_def fs_unlink_def)
  moreover have "\<exists>ks'. vfs_unlink (''/tmp/'' @ p) ks = Inr (0, ks')"
    if "ramfs_index (k_ramfs ks) (''/tmp/'' @ p) = Some i" for i
    using that a m by (simp add: vfs_unlink_def fs_unlink_def ramfs_unlink_def ramfs_index_def)
  ultimately show ?thesis
    using a(1) by auto
qed

section \<open>Concrete runs\<close>


definition ex_in_tmp :: kstate where
  "ex_in_tmp = ex_kstate\<lparr>k_ramfs := ex_ramfs,
     k_pt := upd_proc (Slot 0) (\<lambda>p. p\<lparr>cwd := ''/tmp'' @ replicate 252 NUL\<rparr>) ex_boot\<rparr>"

theorem relative_unlink_fails_witness:
  "vfs_unlink ''a'' ex_in_tmp = Inr (-1, ex_in_tmp) \<and> (\<exists>ks'. vfs_unlink ''/tmp/a'' ex_in_tmp = Inr (0, ks'))"
proof -
  have 1: "current_cwd ex_in_tmp = Some (''/tmp'' @ replicate 252 NUL)" "cstring (''/tmp'' @ replicate 252 NUL) = ''/tmp''"
    by (simp_all add: ex_in_tmp_def current_cwd_def cstring_def)
  have 2: "booted_mounts ex_in_tmp"
    by (simp add: ex_in_tmp_def ex_kstate_def booted_mounts_def)
  have 3: "k_ramfs ex_in_tmp = ex_ramfs" "\<forall>f \<in> set ex_ramfs. rf_used f \<longrightarrow> prefix ''/'' (rf_path f)"
      "ramfs_index ex_ramfs ''/tmp/a'' = Some 0"
    by (simp_all add: ex_in_tmp_def ex_ramfs_def ramfs_init_numeral new_ramfs_file_def zero_ramfs_file_def ramfs_index_def)
  show ?thesis
    using relative_unlink_fails [OF 1 2, of "''a''"] 3 by simp
qed

end
