(* ===== verification/Library_Theorems.thy ===== *)
theory Library_Theorems
  imports CString Process
begin

text \<open>
  The properties of the routines that every part of the kernel rests on: string and memory routines,
  the heap, and the message queues of processes, the latter two by the interfaces \<open>bump_allocator\<close>
  and \<open>bounded_fifo\<close>.
\<close>

section \<open>Tokens\<close>

text \<open>What the pieces are, independently of how they are found.\<close>

lemma filter_dropWhile_none: "filter (\<lambda>c. c \<notin> D) (dropWhile (\<lambda>c. c \<in> D) s) = filter (\<lambda>c. c \<notin> D) s"
  by (induction s) auto

lemma filter_word:
  "filter (\<lambda>c. c \<notin> D) s = takeWhile (\<lambda>c. c \<notin> D) s @ filter (\<lambda>c. c \<notin> D) (dropWhile (\<lambda>c. c \<notin> D) s)"
  by (induction s) auto

lemma tokens_spec:
  "concat (tokens D s) = filter (\<lambda>c. c \<notin> D) s \<and> (\<forall>t \<in> set (tokens D s). t \<noteq> [] \<and> D \<inter> set t = {})"
proof (induction D s rule: tokens.induct)
  case (1 D s)
  let ?u = "dropWhile (\<lambda>c. c \<in> D) s"
  show ?case
  proof (cases "?u = []")
    case True
    then have "filter (\<lambda>c. c \<notin> D) s = []"
      using filter_dropWhile_none [of D s] by simp
    then show ?thesis
      using True by (subst (1 2) tokens.simps) simp
  next
    case False
    let ?w = "takeWhile (\<lambda>c. c \<notin> D) ?u" and ?v = "dropWhile (\<lambda>c. c \<notin> D) ?u"
    have t: "tokens D s = ?w # tokens D ?v"
      using False by (subst tokens.simps) (simp add: Let_def)
    have "?w \<noteq> []" "D \<inter> set ?w = {}"
      using False hd_dropWhile [of "\<lambda>c. c \<in> D" s] by (cases ?u; auto dest: set_takeWhileD)+
    moreover have "filter (\<lambda>c. c \<notin> D) s = ?w @ filter (\<lambda>c. c \<notin> D) ?v"
      using filter_dropWhile_none [of D s] filter_word [of D ?u] by simp
    ultimately show ?thesis
      using 1 [OF refl False] by (simp add: t)
  qed
qed

section \<open>Queues of processes\<close>

lemma queue_message_eq:
  "queue_message msg p =
    (case mq_push msg (msg_queue p) of None \<Rightarrow> (-1, p) | Some q \<Rightarrow> (0, p\<lparr>msg_queue := q, msg_blocked := False\<rparr>))"
  by (simp add: queue_message_def)

text \<open>Senders queue messages one after the other; the current process receives \<open>n\<close> times.\<close>

fun queue_all :: "message list \<Rightarrow> process \<Rightarrow> process option" where
  "queue_all [] p = Some p"
| "queue_all (m # ms) p = (case queue_message m p of (r, p') \<Rightarrow> if r = 0 then queue_all ms p' else None)"

fun receive_all :: "nat \<Rightarrow> message \<Rightarrow> ptable \<Rightarrow> (message list \<times> ptable) res" where
  "receive_all 0 buf pt = Inr ([], pt)"
| "receive_all (Suc n) buf pt =
     bind_res (receive_message buf pt) (\<lambda>(r, m, pt1).
       if r = 0 then map_res (\<lambda>(ms, pt2). (m # ms, pt2)) (receive_all n m pt1) else Inr ([], pt1))"

lemma queue_all_push:
  "push_all mq_push ms (msg_queue p) = Some q \<Longrightarrow> \<exists>p'. queue_all ms p = Some p' \<and> msg_queue p' = q"
proof (induction ms arbitrary: p)
  case (Cons m ms)
  then obtain q1 where q1: "mq_push m (msg_queue p) = Some q1" "push_all mq_push ms q1 = Some q"
    by (auto split: option.splits)
  then show ?case
    using Cons.IH [of "p\<lparr>msg_queue := q1, msg_blocked := False\<rparr>"] by (simp add: queue_message_def)
qed simp

lemma receive_all_pop:
  "current_process pt = Some cur \<Longrightarrow> mq_inv (msg_queue (procs pt cur)) \<Longrightarrow> n \<le> qcount (msg_queue (procs pt cur)) \<Longrightarrow>
    \<exists>pt'. receive_all n buf pt = Inr (fst (pop_n mq_pop n (msg_queue (procs pt cur))), pt') \<and>
      msg_queue (procs pt' cur) = snd (pop_n mq_pop n (msg_queue (procs pt cur)))"
proof (induction n arbitrary: pt buf)
  case (Suc n)
  let ?q = "msg_queue (procs pt cur)"
  obtain m q1 where q1: "mq_pop ?q = Some (m, q1)"
    using mq.pop_empty [OF Suc.prems(2)] Suc.prems(3) length_mq_contents [of ?q] by (cases "mq_pop ?q") auto
  have inv: "mq_inv q1" "mq_contents ?q = m # mq_contents q1"
    using mq.pop_some [OF Suc.prems(2) q1] by simp_all
  then have "qcount ?q = Suc (qcount q1)"
    using length_mq_contents [of ?q] length_mq_contents [of q1] by simp
  then obtain pt' where "receive_all n m (upd_proc cur (\<lambda>p. p\<lparr>msg_queue := q1\<rparr>) pt) = Inr (fst (pop_n mq_pop n q1), pt')"
    "msg_queue (procs pt' cur) = snd (pop_n mq_pop n q1)"
    using Suc.IH [of "upd_proc cur (\<lambda>p. p\<lparr>msg_queue := q1\<rparr>) pt" m] Suc.prems inv(1)
    by (auto simp: upd_proc_def)
  then show ?case
    using Suc.prems(1) q1 by (simp add: receive_message_def split: prod.split)
qed auto

section \<open>Properties\<close>


text \<open>
  \<open>memmove\<close> equals a copy through a snapshot of the source for every overlap of the two
  ranges, and changes no byte outside the destination.
\<close>

theorem memmove_is_snapshot_copy:
  "memmove m d s n = (\<lambda>a. if d \<le> a \<and> a < d + n then mem_slice m s n ! (a - d) else m a)"
  by (auto simp: memmove_eq fun_eq_iff)

text \<open>
  \<open>strcmp\<close> is 0 exactly on equal strings, changes its sign when the strings are swapped,
  and is negative exactly if the first string comes first in the order of the byte values.
\<close>

theorem strcmp_is_lexicographic:
  assumes "cstr s" and "cstr t"
  shows "\<exists>v. strcmp (s @ NUL # r) (t @ NUL # r') = Inr v \<and> strcmp (t @ NUL # r') (s @ NUL # r) = Inr (- v) \<and>
    (v = 0 \<longleftrightarrow> s = t) \<and> (v < 0 \<longleftrightarrow> ord_class.lexordp (map of_char s :: int list) (map of_char t))"
  using assms str_diff_zero_iff [OF assms] str_diff_neg_iff [OF assms] str_diff_antisym [of t s] by simp


text \<open>
  The bound check of \<open>kalloc\<close> overflows: a size so large that the sum wraps around is
  granted and moves the position backwards, so that the next block overlaps earlier ones.
\<close>

theorem kalloc_wraps_around:
  assumes "heap_ok h" and "2 ^ 64 \<le> unat h + unat n"
  shows "kalloc n h = (Some h, h + n) \<and> unat (h + n) < unat h"
proof -
  have h: "unat h \<le> 1048576"
    using assms(1) by (simp add: heap_ok_def word_le_nat_alt)
  have n: "unat n < 2 ^ 64"
    using unsigned_less [of n, where 'a = nat] by simp
  have "unat (h + n) = (unat h + unat n - 2 ^ 64) mod 2 ^ 64"
    using assms(2) by (simp add: unat_word_ariths mod_if [of "unat h + unat n"])
  moreover have "unat h + unat n - 2 ^ 64 < 2 ^ 64"
    using h n by simp
  ultimately have "unat (h + n) = unat h + unat n - 2 ^ 64"
    by simp
  moreover from this have "unat (h + n) < unat h"
    using assms(2) n by simp
  ultimately show ?thesis
    using h by (simp add: kalloc_def word_less_nat_alt)
qed

text \<open>
  Property C24. Messages that are queued for the current process while its queue has room arrive
  complete, unchanged and in order, behind the ones that were waiting; the queue is empty afterwards.
\<close>

theorem messages_arrive_in_order:
  assumes "current_process pt = Some cur" and "mq_inv (msg_queue (procs pt cur))"
    and "length (mq_contents (msg_queue (procs pt cur))) + length ms \<le> MAX_MESSAGES"
  shows "\<exists>p' pt'. queue_all ms (procs pt cur) = Some p' \<and>
    receive_all (length (mq_contents (msg_queue (procs pt cur))) + length ms) buf (upd_proc cur (\<lambda>_. p') pt) =
      Inr (mq_contents (msg_queue (procs pt cur)) @ ms, pt') \<and>
    mq_contents (msg_queue (procs pt' cur)) = []"
proof -
  let ?q = "msg_queue (procs pt cur)" and ?n = "length (mq_contents (msg_queue (procs pt cur))) + length ms"
  obtain q' where q': "push_all mq_push ms ?q = Some q'" "fst (pop_n mq_pop ?n q') = mq_contents ?q @ ms"
    "mq_contents (snd (pop_n mq_pop ?n q')) = []"
    using mq.fifo [OF assms(2,3)] by blast
  obtain p' where p': "queue_all ms (procs pt cur) = Some p'" "msg_queue p' = q'"
    using queue_all_push [OF q'(1)] by blast
  have inv: "mq_inv q'" "mq_contents q' = mq_contents ?q @ ms"
    using mq.push_all_some [OF assms(2) q'(1)] by simp_all
  then have "?n \<le> qcount q'"
    using length_mq_contents [of q'] by simp
  then show ?thesis
    using receive_all_pop [of "upd_proc cur (\<lambda>_. p') pt" cur ?n buf] assms(1) inv(1) p' q'(2,3)
    by (auto simp: upd_proc_def)
qed

section \<open>Concrete runs\<close>


theorem strcmp_is_lexicographic_witness:
  "\<exists>v. strcmp (''a'' @ [NUL]) (''b'' @ [NUL]) = Inr v \<and> v < 0"
  using strcmp_is_lexicographic [of "''a''" "''b''" "[]" "[]"] by auto


theorem kalloc_wraps_around_witness: "kalloc (- 1) 1 = (Some 1, 0)"
  using kalloc_wraps_around [of 1 "- 1"] by (simp add: heap_ok_def unsigned_minus_1_eq_mask mask_eq_exp_minus_1)

theorem messages_arrive_in_order_witness:
  "\<exists>p' pt'. queue_all [zero_message\<lparr>mtype := 1\<rparr>, zero_message\<lparr>mtype := 2\<rparr>] zero_process = Some p' \<and>
    receive_all 2 zero_message
      (upd_proc (Slot 0) (\<lambda>_. p') \<lparr>procs = \<lambda>_. zero_process, process_count = 1, current_process = Some (Slot 0),
         process_list = None, ready_queue = None, next_pid = 2, pcpu = \<lparr>xregs = [], cpu_sp = 0, cpu_daif = 0, cpu_pc = 0\<rparr>\<rparr>) =
      Inr ([zero_message\<lparr>mtype := 1\<rparr>, zero_message\<lparr>mtype := 2\<rparr>], pt')"
  using messages_arrive_in_order [where ms = "[zero_message\<lparr>mtype := 1\<rparr>, zero_message\<lparr>mtype := 2\<rparr>]" and cur = "Slot 0"
      and buf = zero_message and pt = "\<lparr>procs = \<lambda>_. zero_process, process_count = 1, current_process = Some (Slot 0),
         process_list = None, ready_queue = None, next_pid = 2, pcpu = \<lparr>xregs = [], cpu_sp = 0, cpu_daif = 0, cpu_pc = 0\<rparr>\<rparr>"]
  by (auto simp: zero_process_def numeral_2_eq_2)

end
