(* ===== verification/Shell_Spec.thy ===== *)
theory Shell_Spec
  imports Shell Vfs_Boot Library_Theorems
begin

text \<open>
  Correctness of \<open>shell.c\<close>: the line editor as a stack of characters, \<open>cd\<close> as a walk over lists of
  names, \<open>cp\<close> as the copying of contents, and what \<open>mv\<close> and lines of 255 characters do instead.
\<close>

section \<open>Strings in buffers\<close>

text \<open>A buffer of \<open>n\<close> bytes that holds a string.\<close>

definition holds :: "nat \<Rightarrow> char list \<Rightarrow> string \<Rightarrow> bool" where
  "holds n b s \<longleftrightarrow> cstr s \<and> (\<exists>r. b = s @ NUL # r \<and> length s + 1 + length r = n)"

lemma holdsD:
  assumes "holds n b s"
  obtains r where "b = s @ NUL # r" "length r = n - length s - 1"
  using assms by (auto simp: holds_def)

lemma holdsI: "cstr s \<Longrightarrow> length s + 1 + length r = n \<Longrightarrow> holds n (s @ NUL # r) s"
  by (auto simp: holds_def)

lemma holds_simps:
  assumes "holds n b s"
  shows "length b = n" "length s < n" "cstr s" "cstring b = s" "strlen b = Inr (length s)" "b ! length s = NUL"
  using assms by (auto simp: holds_def)

lemma holds_nth: "holds n b s \<Longrightarrow> i < length s \<Longrightarrow> b ! i = s ! i"
  by (elim holdsD) (simp add: nth_append)

text \<open>A NUL inside the string cuts it off.\<close>

lemma holds_cut:
  assumes "holds n b s" and "i < length s"
  shows "holds n (b[i := NUL]) (take i s)"
proof -
  obtain r where b: "b = s @ NUL # r" "length r = n - length s - 1"
    using assms(1) by (rule holdsD)
  have "b[i := NUL] = take i s @ NUL # drop (Suc i) s @ NUL # r"
    using assms(2) by (simp add: b(1) list_update_append upd_conv_take_nth_drop)
  then show ?thesis
    using holdsI [of "take i s" "drop (Suc i) s @ NUL # r" n] assms b(2)
    by (auto simp: holds_def dest: in_set_takeD)
qed

lemma holds_strcat:
  assumes "holds n b s" and "cstr t" and "length s + length t < n"
  shows "\<exists>b'. strcat b (t @ [NUL]) = Inr b' \<and> holds n b' (s @ t)"
proof -
  obtain r where b: "b = s @ NUL # r" "length r = n - length s - 1"
    using assms(1) by (rule holdsD)
  have "length t \<le> length r"
    using assms(3) b(2) by simp
  from strcat_fits [OF _ assms(2) this, of s "[]"] show ?thesis
    using assms b holdsI [of "s @ t" "drop (length t) r" n] by (auto simp: holds_def)
qed

lemma holds_strcpy:
  assumes "holds n b s" and "length dest = m" and "length s < m"
  shows "\<exists>b'. strcpy dest b = Inr b' \<and> holds m b' s"
proof -
  obtain r where b: "b = s @ NUL # r"
    using assms(1) by (rule holdsD)
  then show ?thesis
    using strcpy_fits [of s dest r] holds_simps(3) [OF assms(1)] assms(2,3)
      holdsI [of s "drop (Suc (length s)) dest" m] by simp
qed

section \<open>Paths as lists of names\<close>

text \<open>A component of a path, and the absolute path of a list of components.\<close>

definition comp :: "string \<Rightarrow> bool" where
  "comp c \<longleftrightarrow> c \<noteq> [] \<and> CHR ''/'' \<notin> set c \<and> cstr c"

definition render :: "string list \<Rightarrow> string" where
  "render cs = (if cs = [] then ''/'' else concat (map ((#) (CHR ''/'')) cs))"

definition cd_step :: "string \<Rightarrow> string list \<Rightarrow> string list" where
  "cd_step c cs = (if c = ''.'' then cs else if c = ''..'' then butlast cs else cs @ [c])"

lemma render_simps: "render [] = ''/''" "cs \<noteq> [] \<Longrightarrow> render cs = concat (map ((#) (CHR ''/'')) cs)"
  "render (cs @ [c]) = (if cs = [] then [] else render cs) @ ''/'' @ c"
  by (simp_all add: render_def)

lemma render_root_iff: "\<forall>c \<in> set cs. comp c \<Longrightarrow> render cs = ''/'' \<longleftrightarrow> cs = []"
  by (cases cs) (auto simp: render_def comp_def)

lemma length_render_step: "length (render (cd_step c cs)) \<le> length (render cs) + length c + 1"
proof (cases cs rule: rev_cases)
  case (snoc xs x)
  have "length (render xs) \<le> length (render (xs @ [x]))"
    by (cases "xs = []") (auto simp: render_def)
  then show ?thesis
    by (auto simp: cd_step_def snoc render_simps(3) simp del: append_assoc)
qed (auto simp: cd_step_def render_def)

lemma back_to_slash_name:
  "take (length pre + 1 + length x) b = pre @ CHR ''/'' # x \<Longrightarrow> CHR ''/'' \<notin> set x \<Longrightarrow>
    length pre + 1 + length x \<le> length b \<Longrightarrow> back_to_slash b (length pre + 1 + length x) = length pre + 1"
proof (induction x rule: rev_induct)
  case Nil
  then have "(take (length pre + 1) b) ! length pre = CHR ''/''"
    by simp
  then show ?case
    using Nil.prems(3) by simp
next
  case (snoc c x)
  have "take (length pre + 1 + length x) b = take (length pre + 1 + length x) (take (length pre + 1 + length (x @ [c])) b)"
    by simp
  then have t: "take (length pre + 1 + length x) b = pre @ CHR ''/'' # x"
    unfolding snoc.prems(1) by simp
  have "(take (length pre + 1 + length (x @ [c])) b) ! (length pre + 1 + length x) = c"
    unfolding snoc.prems(1) by (simp add: nth_append)
  then have "b ! (length pre + 1 + length x) = c"
    by simp
  then show ?case
    using snoc.IH [OF t] snoc.prems(2,3) by auto
qed

lemma get_parent_dir_name:
  assumes b: "holds n b (render (cs @ [c]))" and c: "comp c" and cs: "\<forall>c \<in> set cs. comp c"
  shows "\<exists>b'. get_parent_dir b = Inr b' \<and> holds n b' (render cs)"
proof -
  define pre where "pre = (if cs = [] then [] else render cs)"
  let ?s = "pre @ CHR ''/'' # c"
  have s: "render (cs @ [c]) = ?s"
    by (simp add: pre_def render_simps(3))
  note b' = b [unfolded s]
  have pre0: "pre = [] \<longleftrightarrow> cs = []"
    using render_root_iff [of cs] by (cases cs) (auto simp: pre_def render_def)
  have ns: "?s \<noteq> ''/''"
    using c by (auto simp: comp_def append_eq_Cons_conv)
  have len: "1 < length ?s" "length ?s < n"
    using c holds_simps(2) [OF b'] by (cases c; simp add: comp_def)+
  have last: "b ! (length ?s - 1) \<noteq> CHR ''/''"
  proof -
    have "b ! (length ?s - 1) = last ?s"
      using holds_nth [OF b', of "length ?s - 1"] len last_conv_nth [of ?s] by simp
    moreover have "last ?s \<noteq> CHR ''/''"
      using c last_in_set unfolding comp_def by (metis last_ConsR last_appendR list.discI)
    ultimately show ?thesis
      by simp
  qed
  have slash: "back_to_slash b (length ?s) = length pre + 1"
    using back_to_slash_name [of pre c b] b' c by (auto simp: holds_def comp_def)
  let ?i = "if pre = [] then 1 else length pre"
  have i: "?i < length ?s"
    using len by simp
  have cut: "holds n (b[?i := NUL]) (render cs)"
    using holds_cut [OF b' i] pre0 by (auto simp: pre_def render_simps(1))
  have "b[?i := NUL] ! 0 = (render cs) ! 0"
    using holds_nth [OF cut, of 0] by (cases cs) (auto simp: render_def)
  moreover have "(render cs) ! 0 = CHR ''/''"
    by (cases cs) (auto simp: render_def)
  ultimately have "b[?i := NUL] ! 0 \<noteq> NUL"
    by simp
  moreover have "get_parent_dir b = (if b[?i := NUL] ! 0 = NUL
      then bind_res (guard_res (1 < length (b[?i := NUL])) Out_Of_Bounds) (\<lambda>_. Inr (b[?i := NUL, 0 := CHR ''/'', 1 := NUL]))
      else Inr (b[?i := NUL]))"
    unfolding get_parent_dir_def holds_simps(4,5) [OF b'] bind_res_simps
    using ns last slash by (simp add: Let_def)
  ultimately show ?thesis
    using cut by simp
qed

lemma get_parent_dir_render:
  assumes "holds n b (render cs)" and "\<forall>c \<in> set cs. comp c"
  shows "\<exists>b'. get_parent_dir b = Inr b' \<and> holds n b' (render (butlast cs))"
proof (cases cs rule: rev_cases)
  case Nil
  then show ?thesis
    using assms(1) holds_simps(4,5) [OF assms(1)] by (simp add: get_parent_dir_def render_simps(1))
next
  case (snoc xs x)
  then show ?thesis
    using get_parent_dir_name [of n b xs x] assms by simp
qed

lemma cd_component_render:
  assumes t: "holds 256 t (render cs)" and cs: "\<forall>c \<in> set cs. comp c" and c: "comp c"
    and len: "length (render cs) + length c + 1 < 256"
  shows "\<exists>t'. cd_component c t = Inr t' \<and> holds 256 t' (render (cd_step c cs)) \<and> (\<forall>c \<in> set (cd_step c cs). comp c)"
proof -
  consider "c = ''.''" | "c = ''..''" | "c \<noteq> ''.''" "c \<noteq> ''..''"
    by blast
  then show ?thesis
  proof cases
    case 1
    then show ?thesis
      using t cs by (simp add: cd_component_def cd_step_def)
  next
    case 2
    then show ?thesis
      using get_parent_dir_render [OF t cs] cs by (auto simp: cd_component_def cd_step_def dest: in_set_butlastD)
  next
    case 3
    have cc: "cstr c"
      using c by (simp add: comp_def)
    obtain t1 where t1: "(if cstring t \<noteq> ''/'' then strcat t (''/'' @ [NUL]) else Inr t) = Inr t1"
      "holds 256 t1 ((if cs = [] then [] else render cs) @ ''/'')"
      using t holds_simps(4) [OF t] render_root_iff [OF cs] holds_strcat [OF t, of "''/''"] len
      by (cases "cs = []") (auto simp: render_simps(1))
    moreover obtain t2 where "strcat t1 (c @ [NUL]) = Inr t2" "holds 256 t2 (((if cs = [] then [] else render cs) @ ''/'') @ c)"
      using holds_strcat [OF t1(2) cc] len by (cases "cs = []") auto
    ultimately show ?thesis
      using 3 cs c by (auto simp: cd_component_def cd_step_def render_simps(3))
  qed
qed

lemma cd_loop_render:
  "holds 256 t (render cs) \<Longrightarrow> \<forall>c \<in> set cs. comp c \<Longrightarrow> \<forall>c \<in> set ts. comp c \<Longrightarrow>
    length (render cs) + sum_list (map (\<lambda>c. length c + 1) ts) < 256 \<Longrightarrow>
    \<exists>t'. cd_loop ts t = Inr t' \<and> holds 256 t' (render (fold cd_step ts cs))"
proof (induction ts arbitrary: t cs)
  case (Cons c ts)
  obtain t1 where t1: "cd_component c t = Inr t1" "holds 256 t1 (render (cd_step c cs))" "\<forall>c \<in> set (cd_step c cs). comp c"
    using cd_component_render [OF Cons.prems(1,2), of c] Cons.prems(3,4) by auto
  have "length (render (cd_step c cs)) + sum_list (map (\<lambda>c. length c + 1) ts) < 256"
    using length_render_step [of c cs] Cons.prems(4) by simp
  from Cons.IH [OF t1(2,3) _ this] show ?case
    using t1(1) Cons.prems(3) by simp
qed auto

text \<open>Where \<open>cd\<close> leads from the directory with the names \<open>cs\<close>.\<close>

definition cd_target :: "string \<Rightarrow> string list \<Rightarrow> string list" where
  "cd_target p cs = fold cd_step (tokens {CHR ''/''} p) (if prefix ''/'' p then [] else cs)"

lemma tokens_room: "sum_list (map (\<lambda>c. length c + 1) (tokens D s)) \<le> length s + 1"
proof (induction "length s" arbitrary: s rule: less_induct)
  case less
  show ?case
  proof (cases s)
    case (Cons a t)
    show ?thesis
    proof (cases "a \<in> D")
      case True
      then show ?thesis
        using less [of t] by (simp add: Cons tokens_delim)
    next
      case False
      let ?w = "takeWhile (\<lambda>c. c \<notin> D) t" and ?v = "dropWhile (\<lambda>c. c \<notin> D) t"
      have len: "length ?w + length ?v = length t"
        by (metis length_append takeWhile_dropWhile_id)
      have "sum_list (map (\<lambda>c. length c + 1) (tokens D ?v)) \<le> length ?v"
      proof (cases ?v)
        case (Cons b v)
        then have "b \<in> D"
          using hd_dropWhile [of "\<lambda>c. c \<notin> D" t] by auto
        then show ?thesis
          using less [of v] len by (simp add: Cons \<open>s = a # t\<close> tokens_delim)
      next
        case Nil
        then show ?thesis
          unfolding Nil by simp
      qed
      then show ?thesis
        using len False by (simp add: Cons tokens_word)
    qed
  qed simp
qed

lemma tokens_comp: "cstr s \<Longrightarrow> \<forall>c \<in> set (tokens {CHR ''/''} s). comp c"
proof
  fix c
  assume s: "cstr s" and c: "c \<in> set (tokens {CHR ''/''} s)"
  have "set c \<subseteq> set (concat (tokens {CHR ''/''} s))"
    using c by auto
  then have "set c \<subseteq> set s"
    using tokens_spec [of "{CHR ''/''}" s] by auto
  then show "comp c"
    using s c tokens_spec [of "{CHR ''/''}" s] unfolding comp_def by auto
qed

lemma vfs_open_keeps:
  assumes "vfs_open p ks = Inr (fd, ks1)"
  shows "k_pt ks1 = k_pt ks" "0 \<le> fd \<Longrightarrow> next_fd ks1 = next_fd ks + 1"
proof -
  obtain r where r: "resolve_path p ks = Inr r"
    using assms by (auto simp: vfs_open_def res_Inr_iffs)
  obtain f ks2 where f: "fs_open (if prefix ''/tmp/'' r then Ramfs_Type else Abyssfs_Type) r ks = (f, ks2)"
    by (cases "fs_open (if prefix ''/tmp/'' r then Ramfs_Type else Abyssfs_Type) r ks")
  have "k_pt ks2 = k_pt ks" "next_fd ks2 = next_fd ks"
    using f by (auto simp: fs_open_def split: if_splits prod.splits)
  then show "k_pt ks1 = k_pt ks" "0 \<le> fd \<Longrightarrow> next_fd ks1 = next_fd ks + 1"
    using assms r f by (cases f; auto simp: vfs_open_def Let_def alloc_fd_def split: if_splits)+
qed

text \<open>The current process has the names \<open>cs\<close> as its working directory.\<close>

definition cwd_names :: "kstate \<Rightarrow> string list \<Rightarrow> bool" where
  "cwd_names ks cs \<longleftrightarrow> (\<forall>c \<in> set cs. comp c) \<and> (\<exists>buf. current_cwd ks = Some buf \<and> holds 256 buf (render cs))"

lemma cwd_namesD:
  assumes "cwd_names ks cs"
  obtains buf where "current_cwd ks = Some buf" "holds 256 buf (render cs)" "\<forall>c \<in> set cs. comp c"
  using assms by (auto simp: cwd_names_def)

lemma current_set_cwd [simp]:
  "current_cwd ks \<noteq> None \<Longrightarrow> current_cwd (set_cwd b ks) = Some b" "next_fd (set_cwd b ks) = next_fd ks"
  by (auto simp: current_cwd_def set_cwd_def split: option.split)

lemma fold_cd_step_comp:
  "\<forall>c \<in> set ts. comp c \<Longrightarrow> \<forall>c \<in> set cs. comp c \<Longrightarrow> \<forall>c \<in> set (fold cd_step ts cs). comp c"
proof (induction ts arbitrary: cs)
  case (Cons t ts)
  have "\<forall>c \<in> set (cd_step t cs). comp c"
    using Cons.prems by (auto simp: cd_step_def dest: in_set_butlastD)
  then show ?case
    using Cons by simp
qed simp

lemma holds_root: "length junk = 256 \<Longrightarrow> holds 256 (junk[0 := CHR ''/'', 1 := NUL]) ''/''"
proof -
  assume "length junk = 256"
  then obtain a b r where "junk = a # b # r" "length r = 254"
    by (cases junk; cases "tl junk") auto
  then show ?thesis
    using holdsI [of "''/''" r 256] by simp
qed

text \<open>The general case of \<open>cd\<close>, the start of the walk and its end.\<close>

lemma cd_walk:
  assumes cwd: "cwd_names ks cs" and p: "cstr p" "p \<noteq> []" and junk: "length junk = 256"
    and room: "length (render cs) + length p + 1 < 256"
  shows "\<exists>t0 p' t. (if hd p = CHR ''/'' then Inr (junk[0 := CHR ''/'', 1 := NUL], tl p)
      else map_res (\<lambda>t. (t, p)) (strcpy junk (the (current_cwd ks)))) = Inr (t0, p') \<and> length p' < 256 \<and>
    cd_loop (tokens {CHR ''/''} p') t0 = Inr t \<and> holds 256 t (render (cd_target p cs))"
proof -
  obtain buf where buf: "current_cwd ks = Some buf" "holds 256 buf (render cs)" and comps: "\<forall>c \<in> set cs. comp c"
    using cwd by (rule cwd_namesD)
  have one: "1 \<le> length (render cs)"
    by (cases cs) (auto simp: render_def)
  show ?thesis
  proof (cases "hd p = CHR ''/''")
    case True
    then obtain r where r: "p = CHR ''/'' # r"
      using p(2) by (cases p) auto
    have c: "\<forall>c \<in> set (tokens {CHR ''/''} r). comp c"
      using p(1) r by (intro tokens_comp) simp
    have "length (render []) + sum_list (map (\<lambda>c. length c + 1) (tokens {CHR ''/''} r)) < 256"
      using tokens_room [of "{CHR ''/''}" r] room one r by (simp add: render_simps(1))
    from cd_loop_render [OF _ _ c this] holds_root [OF junk] show ?thesis
      using True r room by (auto simp: render_simps(1) cd_target_def tokens_delim)
  next
    case False
    then have np: "\<not> prefix ''/'' p"
      using p(2) by (cases p) auto
    obtain t0 where t0: "strcpy junk buf = Inr t0" "holds 256 t0 (render cs)"
      using holds_strcpy [OF buf(2) junk] room by auto
    have "length (render cs) + sum_list (map (\<lambda>c. length c + 1) (tokens {CHR ''/''} p)) < 256"
      using tokens_room [of "{CHR ''/''}" p] room by simp
    from cd_loop_render [OF t0(2) comps tokens_comp [OF p(1)] this] show ?thesis
      using False np t0(1) buf(1) room by (auto simp: cd_target_def)
  qed
qed

section \<open>Properties\<close>


section \<open>The line editor\<close>

text \<open>What the typed characters mean for the line on the screen.\<close>

definition type_char :: "char \<Rightarrow> string \<Rightarrow> string" where
  "type_char c s =
     (if c = CHR 0x7F \<or> c = CHR 0x08 then butlast s
      else if 32 \<le> (of_char c :: nat) \<and> (of_char c :: nat) \<le> 126 then s @ [c] else s)"

abbreviation ends_line :: "char \<Rightarrow> bool" where
  "ends_line c \<equiv> c = CHR 0x0D \<or> c = NEWLINE"

lemma type_char_length: "length (type_char c s) \<le> length s + 1"
  by (auto simp: type_char_def)

lemma type_char_cstr: "cstr s \<Longrightarrow> cstr (type_char c s)"
  by (auto simp: type_char_def dest: in_set_butlastD)

lemma edit_char_step:
  assumes "\<not> ends_line c" and "take (length s) input = s" and "length s < 255" and "length input = 256"
  shows "\<exists>input'. edit_char c input (length s) = (False, input', length (type_char c s)) \<and>
    take (length (type_char c s)) input' = type_char c s \<and> length input' = 256 \<and> input' ! 255 = input ! 255"
proof (cases "c = CHR 0x7F \<or> c = CHR 0x08")
  case True
  have "take (length s - 1) input = butlast s"
    using arg_cong [OF assms(2), of butlast] assms(3,4) by (simp add: butlast_take)
  then show ?thesis
    using True assms by (cases "s = []") (auto simp: edit_char_def type_char_def)
next
  case False
  have "take (Suc (length s)) (input[length s := c]) = s @ [c]"
    using assms by (simp add: take_Suc_conv_app_nth)
  then show ?thesis
    using False assms by (auto simp: edit_char_def type_char_def)
qed

lemma read_line_typed:
  "\<forall>c \<in> set cs. \<not> ends_line c \<Longrightarrow> take (length s) input = s \<Longrightarrow> length s + length cs \<le> 255 \<Longrightarrow> length input = 256 \<Longrightarrow>
    \<exists>input'. read_line input (length s) (cs @ rest) = read_line input' (length (fold type_char cs s)) rest \<and>
      take (length (fold type_char cs s)) input' = fold type_char cs s \<and> length input' = 256 \<and> input' ! 255 = input ! 255"
proof (induction cs arbitrary: s input)
  case (Cons c cs)
  have "length s < 255"
    using Cons.prems(3) by simp
  then obtain i where i: "edit_char c input (length s) = (False, i, length (type_char c s))"
    "take (length (type_char c s)) i = type_char c s" "length i = 256" "i ! 255 = input ! 255"
    using edit_char_step [of c s input] Cons.prems by auto
  have "length (type_char c s) + length cs \<le> 255"
    using Cons.prems(3) type_char_length [of c s] by simp
  from Cons.IH [OF _ i(2) this i(3)] Cons.prems(1) i(4) show ?case
    using i(1) \<open>length s < 255\<close> by (simp add: read_line.simps [of input])
qed auto

lemma fold_type_char_length: "length (fold type_char cs s) \<le> length s + length cs"
proof (induction cs arbitrary: s)
  case (Cons c cs)
  show ?case
    using Cons [of "type_char c s"] type_char_length [of c s] by simp
qed simp

lemma fold_type_char_cstr: "cstr s \<Longrightarrow> cstr (fold type_char cs s)"
  by (induction cs arbitrary: s) (simp_all add: type_char_cstr)

lemma split_line_holds:
  assumes "holds 256 input s"
  shows "split_line input (length s) = Inr (takeWhile (\<lambda>c. c \<noteq> CHR '' '') s,
    if CHR '' '' \<in> set s then Some (tl (dropWhile (\<lambda>c. c \<noteq> CHR '' '') s)) else None)"
proof -
  obtain r where b: "input = s @ NUL # r" and s: "cstr s"
    using assms by (auto simp: holds_def)
  show ?thesis
  proof (cases "CHR '' '' \<in> set s")
    case False
    then have "first_index (\<lambda>c. c = CHR '' '') s = None"
      by (auto simp: first_index_None)
    moreover have w: "takeWhile (\<lambda>c. c \<noteq> CHR '' '') s = s"
      using False unfolding takeWhile_eq_all_conv by auto
    ultimately show ?thesis
      unfolding w using False s by (simp add: split_line_def b)
  next
    case True
    then obtain t u where t: "s = t @ CHR '' '' # u" "CHR '' '' \<notin> set t"
      by (meson split_list_first)
    have i: "first_index (\<lambda>c. c = CHR '' '') s = Some (length t)"
      using t(2) unfolding t(1) by (induction t) auto
    have "takeWhile (\<lambda>c. c \<noteq> CHR '' '') s = t" "dropWhile (\<lambda>c. c \<noteq> CHR '' '') s = CHR '' '' # u"
      using t by (auto simp: takeWhile_append dropWhile_append)
    moreover have "input[length t := NUL] = t @ NUL # (u @ NUL # r)"
      by (simp add: b t(1))
    ultimately show ?thesis
      using True s i t by (simp add: split_line_def b Let_def)
  qed
qed

text \<open>The line that the keys \<open>cs\<close> leave, and how it is split.\<close>

definition command_of :: "string \<Rightarrow> string \<times> string option" where
  "command_of line = (takeWhile (\<lambda>c. c \<noteq> CHR '' '') line,
     if CHR '' '' \<in> set line then Some (tl (dropWhile (\<lambda>c. c \<noteq> CHR '' '') line)) else None)"

lemma line_typed:
  assumes "length input = 256" and "\<forall>c \<in> set cs. \<not> ends_line c" and "length cs < 255" and "ends_line e"
  defines "line \<equiv> fold type_char cs []"
  shows "\<exists>input'. read_line input 0 (cs @ e # rest) = Some (input', length line, rest) \<and>
    split_line input' (length line) = Inr (command_of line) \<and> length input' = 256"
proof -
  have len: "length line < 255"
    using fold_type_char_length [of cs "[]"] assms(3) by (simp add: line_def)
  obtain i where i: "read_line input 0 (cs @ e # rest) = read_line i (length line) (e # rest)"
    "take (length line) i = line" "length i = 256"
    using read_line_typed [of cs "[]" input "e # rest"] assms by (auto simp: line_def)
  have r: "read_line i (length line) (e # rest) = Some (i[length line := NUL], length line, rest)"
    using len assms(4) by (auto simp: read_line.simps [of i] edit_char_def)
  have "i[length line := NUL] = take (length line) i @ NUL # drop (Suc (length line)) i"
    using len i(3) by (simp add: upd_conv_take_nth_drop)
  then have "holds 256 (i[length line := NUL]) line"
    using i(2,3) len holdsI [of line "drop (Suc (length line)) i" 256] fold_type_char_cstr [of "[]" cs]
    by (simp add: line_def)
  then show ?thesis
    using split_line_holds [of "i[length line := NUL]" line] i(1,3) r
    by (intro exI [of _ "i[length line := NUL]"] conjI) (simp_all add: command_of_def)
qed


text \<open>
  A line of 255 characters ends without a terminator: nothing writes the last byte of the
  buffer, and unless it is zero by chance the code that looks for the end of the command or of its
  argument reads past the buffer.
\<close>

theorem long_line_unterminated:
  assumes "length input = 256" and "input ! 255 \<noteq> NUL" and "length cs = 255"
    and "\<forall>c \<in> set cs. 33 \<le> (of_char c :: nat) \<and> (of_char c :: nat) \<le> 126"
  shows "\<exists>input'. read_line input 0 (cs @ rest) = Some (input', 255, rest) \<and> split_line input' 255 = Inl Out_Of_Bounds"
proof -
  have "\<not> ends_line c \<and> c \<noteq> NUL \<and> c \<noteq> CHR '' ''" if "c \<in> set cs" for c
    using bspec [OF assms(4) that] by auto
  then have no_end: "\<forall>c \<in> set cs. \<not> ends_line c" and cs: "cstr cs" "CHR '' '' \<notin> set cs"
    by blast+
  have push: "fold type_char ds s = s @ ds" if "set ds \<subseteq> set cs" for ds s
    using that
  proof (induction ds arbitrary: s)
    case (Cons c ds)
    then have "33 \<le> (of_char c :: nat) \<and> (of_char c :: nat) \<le> 126"
      using assms(4) by auto
    then have "type_char c s = s @ [c]"
      by (auto simp: type_char_def)
    then show ?case
      using Cons by simp
  qed simp
  have line: "fold type_char cs [] = cs"
    using push [of cs "[]"] by simp
  obtain i where i: "read_line input 0 (cs @ rest) = read_line i 255 rest" "take 255 i = cs" "length i = 256"
    "i ! 255 = input ! 255"
    using read_line_typed [of cs "[]" input rest] assms no_end by (auto simp: line)
  have split: "i = cs @ [input ! 255]"
    using i(2-4) id_take_nth_drop [of 255 i] by simp
  have "first_index (\<lambda>c. c = CHR '' '') cs = None"
    using cs(2) by (auto simp: first_index_None)
  moreover have "strlen i = Inl Out_Of_Bounds"
    using cs assms(2) unfolding split by (intro strlen_unterminated) simp
  ultimately show ?thesis
    using i assms(3) by (simp add: read_line.simps [of i] split_line_def)
qed

section \<open>Concrete runs\<close>

definition ex_at_root :: kstate where
  "ex_at_root = ex_kstate\<lparr>k_pt := upd_proc (Slot 0) (\<lambda>p. p\<lparr>cwd := ''/'' @ replicate 255 NUL\<rparr>) ex_boot\<rparr>"



theorem long_line_unterminated_witness:
  "\<exists>input'. read_line (replicate 256 CHR ''z'') 0 (replicate 255 CHR ''x'' @ []) = Some (input', 255, []) \<and>
    split_line input' 255 = Inl Out_Of_Bounds"
proof -
  have "replicate 256 CHR ''z'' ! 255 \<noteq> NUL"
    by (subst nth_replicate) simp_all
  then show ?thesis
    by (intro long_line_unterminated) simp_all
qed

end
