(* ===== verification/Kernel.thy ===== *)
theory Kernel
  imports Messages Interrupts Exceptions Mmu Shell_Copy Shell_Spec
begin

text \<open>
  \<open>kernel.c\<close>: the boot sequence of \<open>kernel_main\<close> down to user mode, and its test routines, which are
  clients of the file systems, the messages and the processes; the programs of \<open>process_test.c\<close>. What
  they print besides the diagnostics of the calls is their result, as for the commands of the shell.
\<close>

section \<open>Boot\<close>

abbreviation (input) USER_BASE :: nat where "USER_BASE \<equiv> 0x80000000"

record board =
  b_ks :: kstate
  b_machine :: machine
  b_mmu :: mmu_state
  b_mem :: mem

text \<open>The loop that copies the user's program, byte by byte.\<close>

definition load_user_shell :: "char list \<Rightarrow> mem \<Rightarrow> mem" where
  "load_user_shell bin m = fold (\<lambda>i m. m(USER_BASE + i := bin ! i)) [0..<length bin] m"

text \<open>
  \<open>kernel_main\<close> from \<open>init_process\<close> on, with the processor at the level \<open>cur_el\<close>; what it prints is in
  Console.
\<close>

definition kernel_start :: "u64 \<Rightarrow> u64 \<Rightarrow> u64 \<Rightarrow> board \<Rightarrow> (user_state \<times> board) res" where
  "kernel_start cntfrq process_stacks cur_el b =
     (let ks = b_ks b;
          pt1 = init_process process_stacks (k_pt ks);
          (mc1, m) = timer_init cntfrq (b_machine b) (pcpu pt1);
          mc2 = mc1\<lparr>mmio := gic_init (mmio mc1)\<rparr>
      in case process_create (of_nat USER_BASE) (k_heap ks) (pt1\<lparr>pcpu := m\<rparr>) of
           (None, h, pt2) \<Rightarrow> Inl Hang
         | (Some user, h, pt2) \<Rightarrow>
             let pt3 = upd_proc user (\<lambda>p. p\<lparr>psp := of_nat USER_BASE + 0x10000, pstate := PROC_READY\<rparr>) pt2 in
             if cur_el AND 4 = 0 then Inl Hang
             else Inr (enter_usermode (ctx_pc (ctx (procs pt3 user))) (psp (procs pt3 user)),
                       b\<lparr>b_ks := ks\<lparr>k_heap := h, k_pt := pt3\<rparr>, b_machine := mc2\<rparr>))"

definition kernel_main :: "char list \<Rightarrow> u64 \<Rightarrow> u64 \<Rightarrow> u64 \<Rightarrow> u64 \<Rightarrow> u64 \<Rightarrow> board \<Rightarrow> (user_state \<times> board) res" where
  "kernel_main bin table vectors cntfrq process_stacks cur_el b =
     (let b1 = b\<lparr>b_mem := load_user_shell bin (b_mem b),
                 b_machine := (b_machine b)\<lparr>mmio := uart_init (mmio (b_machine b))\<rparr>,
                 b_mmu := mmu_init table vectors (b_mmu b)\<rparr>
      in bind_res (process_init (k_pt (b_ks b1))) (\<lambda>pt.
         bind_res (vfs_init ((b_ks b1)\<lparr>k_pt := pt\<rparr>)) (\<lambda>ks.
           kernel_start cntfrq process_stacks cur_el (b1\<lparr>b_ks := ks\<rparr>))))"

definition test_mount :: "u64 \<Rightarrow> vfs_super_block option \<times> u64" where
  "test_mount heap_pos =
     (case kalloc 32 heap_pos of
        (None, h) \<Rightarrow> (None, h)
      | (Some _, h) \<Rightarrow> (Some \<lparr>s_magic = 0x1234, s_type = ''ramfs''\<rparr>, h))"

section \<open>Tests\<close>

definition test_vfs :: "kstate \<Rightarrow> command_result" where
  "test_vfs ks =
     (case ramfs_create_file ''/tmp/test.txt'' ''Hello from RAMFS!'' (k_ramfs ks) of (r, files) \<Rightarrow>
        let ks1 = ks\<lparr>k_ramfs := files\<rparr> in
        if r < 0 then Inr (''Failed to create file'' @ [LF], ks1)
        else
          bind_res (vfs_open ''/tmp/test.txt'' ks1) (\<lambda>(fd, ks2).
          if fd < 0 then Inr (''Failed to open file'' @ [LF], ks2)
          else
            bind_res (vfs_read fd 128 ks2) (\<lambda>(n, _, ks3).
              Inr (if n < 0 then ''Failed to read file'' @ [LF] else [], ks3))))"

definition test_ramfs :: "kstate \<Rightarrow> command_result" where
  "test_ramfs ks =
     (case ramfs_create_file ''/tmp/test.txt'' ''Hello from RAMFS!'' (k_ramfs ks) of (r, files) \<Rightarrow>
        let ks1 = ks\<lparr>k_ramfs := files\<rparr> in
        if r < 0 then Inr (''Failed to create file'' @ [LF], ks1)
        else
          bind_res (vfs_open ''/tmp/test.txt'' ks1) (\<lambda>(fd, ks2).
          if fd < 0 then Inr (''Failed to open file through VFS'' @ [LF], ks2)
          else
            bind_res (vfs_read fd 64 ks2) (\<lambda>(n, _, ks3).
              Inr (if n < 0 then ''Failed to read file'' @ [LF] else [], ks3))))"

text \<open>The message as the call leaves it.\<close>

definition reply_message :: "reply \<Rightarrow> message" where
  "reply_message r = (case r of Reply _ m \<Rightarrow> m | Waiting _ m \<Rightarrow> m)"

definition test_messages :: "u64 \<Rightarrow> char list \<Rightarrow> kstate \<Rightarrow> kstate res" where
  "test_messages process_stacks buf ks =
     bind_res (send_message process_stacks (zero_message\<lparr>mtype := MSG_OPEN, mpath := Some ''/hello.txt''\<rparr>) ks)
       (\<lambda>(rep, ks1).
     map_res snd (send_message process_stacks
       ((reply_message rep)\<lparr>mtype := MSG_READ, mdata := Some buf, msize := of_nat (length buf)\<rparr>) ks1))"

definition test_namespaces :: "u64 \<Rightarrow> kstate \<Rightarrow> kstate res" where
  "test_namespaces process_stacks ks =
     bind_res (bind ''/tmp'' ''/private'' MREPL ks) (\<lambda>(_, ks1).
     bind_res (send_message process_stacks
       (zero_message\<lparr>mtype := MSG_OPEN, mpath := Some ''/tmp/test.txt'', mdata := Some (''X'' @ [NUL]), msize := 1\<rparr>) ks1)
       (\<lambda>(rep, ks2).
     map_res snd (send_message process_stacks ((reply_message rep)\<lparr>mpath := Some ''/private/test.txt''\<rparr>) ks2)))"

definition test_ipc :: "ptable \<Rightarrow> (message option \<times> ptable) res" where
  "test_ipc pt =
     (case current_process pt of
        None \<Rightarrow> Inr (None, pt)
      | Some p \<Rightarrow>
          let msg = zero_message\<lparr>mtype := 1, mdata := Some (''Hi'' @ [NUL]), msize := 2\<rparr> in
          map_res (\<lambda>(_, rcv, pt'). (Some rcv, pt'))
            (receive_message zero_message (upd_proc p (\<lambda>q. snd (queue_message msg q)) pt)))"

definition test_processes :: "u64 \<Rightarrow> kstate \<Rightarrow> kstate res" where
  "test_processes process_stacks ks =
     bind_res (send_message process_stacks (zero_message\<lparr>mtype := MSG_FORK\<rparr>) ks) (\<lambda>(rep, ks1).
     if (case rep of Reply r _ \<Rightarrow> r = 0 | Waiting _ _ \<Rightarrow> False)
     then map_res (\<lambda>pt. ks1\<lparr>k_pt := pt\<rparr>) (exit_process 42 (k_pt ks1))
     else map_res snd (send_message process_stacks ((reply_message rep)\<lparr>mtype := MSG_WAIT\<rparr>) ks1))"

section \<open>The state after boot\<close>

lemma load_user_shell_mem:
  "mem_slice (load_user_shell bin m) USER_BASE (length bin) = bin"
  "a < USER_BASE \<or> USER_BASE + length bin \<le> a \<Longrightarrow> load_user_shell bin m a = m a"
proof -
  have f: "fold (\<lambda>i m. m(USER_BASE + i := bin ! i)) [0..<n] m a =
      (if USER_BASE \<le> a \<and> a < USER_BASE + n then bin ! (a - USER_BASE) else m a)" for n a
    by (induction n) (auto simp: less_Suc_eq)
  show "mem_slice (load_user_shell bin m) USER_BASE (length bin) = bin"
    by (rule nth_equalityI) (simp_all add: load_user_shell_def f)
  show "a < USER_BASE \<or> USER_BASE + length bin \<le> a \<Longrightarrow> load_user_shell bin m a = m a"
    by (auto simp: load_user_shell_def f)
qed

definition unmasked :: "cpu \<Rightarrow> cpu" where
  "unmasked m = m\<lparr>cpu_daif := cpu_daif m AND NOT (push_bit 7 1)\<rparr>"

lemma init_process_cpu:
  "(init_process process_stacks (boot_ptable m))\<lparr>pcpu := m'\<rparr> = init_process process_stacks (boot_ptable m')"
  "pcpu (init_process process_stacks (boot_ptable m)) = m"
  by (simp_all add: init_process_def boot_ptable_def upd_proc_def Let_def)

text \<open>The process table that \<open>kernel_start\<close> leaves, as a run of the step relation.\<close>

lemma boot_spawn:
  assumes "heap_ok h" and "unat h + 3160 \<le> 1048576"
  obtains h' pt where "process_create entry h (init_process process_stacks (boot_ptable m)) = (Some (Heap h), h', pt)"
    "kreach process_stacks m (h', upd_proc (Heap h) (\<lambda>p. p\<lparr>psp := s, pstate := PROC_READY\<rparr>) pt)"
    "sched_inv h' [Heap h, Slot 0] (upd_proc (Heap h) (\<lambda>p. p\<lparr>psp := s, pstate := PROC_READY\<rparr>) pt)"
    "ctx_pc (ctx (procs pt (Heap h))) = entry" "ctx_x (ctx (procs pt (Heap h))) = replicate 31 0"
    "current_process pt = Some (Slot 0)" "pcpu pt = m" "pid (procs pt (Heap h)) = 2"
proof -
  let ?pt = "init_process process_stacks (boot_ptable m)"
  have k: "kalloc sizeof_process h = (Some h, h + 3160)"
    using kalloc_room [of h 3160] assms(2) by simp
  obtain pt where c: "process_create entry h ?pt = (Some (Heap h), h + 3160, pt)"
    using k by (simp add: process_create_def Let_def)
  note inv = boot_inv [OF assms(1), of process_stacks m]
  have "kreach process_stacks m (h + 3160, upd_proc (Heap h) (\<lambda>p. p\<lparr>psp := s, pstate := PROC_READY\<rparr>) pt)"
    by (rule kreach.step [OF kreach.boot [OF assms(1)] kstep.spawn [OF c]])
  moreover have "current_process pt = Some (Slot 0)" "pcpu pt = m" "pid (procs pt (Heap h)) = 2"
    using c k by (auto simp: process_create_def Let_def init_process_def boot_ptable_def)
  ultimately show thesis
    using that [OF c] spawn_inv [OF inv c, of s] process_create_inv [OF inv c] by blast
qed

section \<open>Properties\<close>


text \<open>
  \<open>kernel_main\<close> does not get that far: \<open>process_init\<close> writes the working directory of a
  process that is null, whatever the state.
\<close>

theorem kernel_main_faults:
  "kernel_main bin table vectors cntfrq process_stacks cur_el b = Inl Null_Deref"
  by (simp add: kernel_main_def process_init_def Let_def)

text \<open>
  \<open>test_processes\<close> takes the answer 0 of \<open>MSG_FORK\<close> for the child's: it is the parent that
  exits with status 42, and the child runs.
\<close>

theorem test_processes_exits_parent:
  assumes "kreach process_stacks m (h, k_pt ks)" and "current_process (k_pt ks) = Some cur"
    and "process_count (k_pt ks) < MAX_PROCESSES"
  shows "\<exists>ks' child. test_processes process_stacks ks = Inr ks' \<and> child \<noteq> cur \<and>
    current_process (k_pt ks') = Some child \<and> parent_pid (procs (k_pt ks') child) = pid (procs (k_pt ks) cur) \<and>
    pstate (procs (k_pt ks') cur) = PROC_ZOMBIE \<and> exit_status (procs (k_pt ks') cur) = 42"
proof -
  obtain ps where inv: "sched_inv h ps (k_pt ks)" and cur: "cur \<in> set ps"
    using assms(1,2) by (auto elim: kreachD)
  let ?c = "Slot (process_count (k_pt ks))"
  let ?pt = "create_state process_stacks cur (k_pt ks)"
  have ne: "cur \<noteq> ?c"
    using sched_inv_slots(3) [OF inv] cur by auto
  have c: "create_process process_stacks (k_pt ks) = Inr (?c, ?pt)"
    by (rule create_process_some [OF assms(2) ne assms(3)])
  have inv1: "sched_inv h (?c # ps) ?pt"
    using create_process_inv [OF inv c] by simp
  have cur1: "current_process ?pt = Some cur"
    using assms(2) by (simp add: create_state_def Let_def)
  let ?q = "parent_of (?c # ps) cur ?pt"
  let ?pt2 = "exit_state 42 cur ?q ?pt"
  have inv2: "sched_inv h (?c # ps) ?pt2"
    using cur cur1 by (intro exit_state_inv [OF inv1]) simp_all
  have child: "procs ?pt2 ?c = procs ?pt ?c" "current_process ?pt2 = Some cur"
    "pstate (procs ?pt2 cur) = PROC_ZOMBIE" "exit_status (procs ?pt2 cur) = 42"
    using ne cur1 create_state_child(1) [of process_stacks cur "k_pt ks"] parent_of_neq [OF inv1 _, of cur]
    by (auto simp: exit_state_def Let_def split: option.split)
  have s: "schedule ?pt2 = Inr (switch_state cur ?c ?pt2)"
    using schedule_switches [OF inv2 child(2), of ?c] child(1) create_state_child(1) by simp
  have "test_processes process_stacks ks = Inr (ks\<lparr>k_pt := switch_state cur ?c ?pt2\<rparr>)"
    using c s exit_process_eq [OF inv1 cur1, of 42] by (simp add: test_processes_def send_message_def zero_message_def)
  then show ?thesis
    using ne child create_state_child(2) [of process_stacks cur "k_pt ks"]
    by (intro exI [of _ "ks\<lparr>k_pt := switch_state cur ?c ?pt2\<rparr>"] exI [of _ ?c]) (simp add: switched_def)
qed

text \<open>\<open>ramfs_create_file\<close> of a path that is not in use.\<close>

lemma create_file_look:
  assumes ok: "ramfs_ok files" and none: "ramfs_look files p = None" and slot: "first_index (\<lambda>f. \<not> rf_used f) files = Some i"
    and p: "length p < MAX_PATH" "cstr p" and c: "length content < MAX_CONTENT"
  obtains files' where "ramfs_create_file p content files = (0, files')" "ramfs_ok files'" "ramfs_index files' p = Some i"
    "rf_data (files' ! i) = content" "ramfs_look files' = (ramfs_look files)(p \<mapsto> content)"
proof -
  let ?m = "memcpy (rf_content (files ! i)) 0 (\<lambda>k. content ! k) 0 (length content)"
  define f where "f = (files ! i)\<lparr>rf_used := True, rf_path := p, rf_content := ?m(length content := NUL), rf_size := of_nat (length content)\<rparr>"
  let ?fs = "files[i := f]"
  have i: "i < length files" "\<not> rf_used (files ! i)"
    using first_index_SomeD [OF slot] by simp_all
  have n: "unat (of_nat (length content) :: u64) = length content"
    using c by (simp add: unat_of_nat)
  have "rf_data f = content"
    unfolding rf_data_def f_def by (rule nth_equalityI) (use n in \<open>simp_all add: memcpy_eq\<close>)
  then have data: "rf_data (?fs ! i) = content"
    using i(1) by simp
  have "ramfs_create_file p content files = (0, ?fs)"
    using p c by (simp add: ramfs_create_file_def slot f_def min_def Let_def)
  moreover have "ramfs_ok ?fs"
    using p c n by (intro ramfs_ok_update [OF ok]) (simp_all add: f_def)
  moreover have idx: "ramfs_index ?fs p = Some i"
    unfolding ramfs_index_def
  proof (rule first_index_unique)
    show "\<not> (rf_used (?fs ! k) \<and> rf_path (?fs ! k) = p)" if "k < length ?fs" "k \<noteq> i" for k
      using none that by (auto simp: ramfs_look_def ramfs_index_def first_index_None)
  qed (use i in \<open>simp_all add: f_def\<close>)
  moreover have "ramfs_look ?fs = (ramfs_look files)(p \<mapsto> content)"
  proof
    fix r
    have "rf_path f = p"
      by (simp add: f_def)
    then show "ramfs_look ?fs r = ((ramfs_look files)(p \<mapsto> content)) r"
      using i idx data ramfs_look_update_other [of i files r f] by (cases "r = p") (simp_all add: ramfs_look_def [of ?fs p])
  qed
  ultimately show thesis
    using data by (intro that)
qed

text \<open>
  With a free slot, a descriptor and room on the heap, \<open>test_vfs\<close> passes: it prints no
  failure, and its file is there with its content, beside the others.
\<close>

theorem test_vfs_passes:
  assumes ok: "ramfs_ok (k_ramfs ks)" and none: "ramfs_look (k_ramfs ks) ''/tmp/test.txt'' = None"
    and slot: "first_index (\<lambda>f. \<not> rf_used f) (k_ramfs ks) = Some i"
    and heap: "kalloc sizeof_vfs_file (k_heap ks) = (Some a, h)" and fds: "next_fd ks < MAX_FD" "length (fd_table ks) = MAX_FD"
    and ns: "current_ns ks = Some []"
  shows "\<exists>ks'. test_vfs ks = Inr ([], ks') \<and>
    ramfs_look (k_ramfs ks') = (ramfs_look (k_ramfs ks))(''/tmp/test.txt'' \<mapsto> ''Hello from RAMFS!'') \<and>
    next_fd ks' = next_fd ks + 1"
proof -
  let ?p = "''/tmp/test.txt''" and ?fd = "int (next_fd ks)"
  obtain files where f: "ramfs_create_file ?p ''Hello from RAMFS!'' (k_ramfs ks) = (0, files)" "ramfs_ok files"
    "ramfs_index files ?p = Some i" "rf_data (files ! i) = ''Hello from RAMFS!''"
    "ramfs_look files = (ramfs_look (k_ramfs ks))(?p \<mapsto> ''Hello from RAMFS!'')"
    by (rule create_file_look [OF ok none slot, of "''Hello from RAMFS!''"]) simp_all
  let ?ks1 = "ks\<lparr>k_ramfs := files\<rparr>"
  have "current_ns ?ks1 = Some []"
    using ns by (simp add: current_ns_def)
  then obtain ks2 where o: "vfs_open ?p ?ks1 = Inr (?fd, ks2)" "k_ramfs ks2 = files" "get_file ?fd ks2 = Some (tmp_handle ?p i)"
    "length (fd_table ks2) = MAX_FD"
    using vfs_open_tmp [of ?p ?ks1 i a h] f(3) heap fds by auto
  have "ramfs_handle (tmp_handle ?p i) i"
    using ramfs_index_SomeD [OF f(3)] ramfs_ok_length [OF f(2)] by simp
  from ramfs_read_eq [OF f(2) this, of 128] obtain fl where
    "ramfs_read (tmp_handle ?p i) 128 (k_ramfs ks2) = Inr (17, ''Hello from RAMFS!'', fl)"
    using f(4) o(2) by auto
  from vfs_read_tmp [OF o(3) _ this] have "vfs_read ?fd 128 ks2 = Inr (17, ''Hello from RAMFS!'', set_file ?fd (Some fl) ks2)"
    by simp
  moreover have "next_fd ks2 = next_fd ks + 1"
    using vfs_open_keeps(2) [OF o(1)] by simp
  ultimately show ?thesis
    using f(1,5) o(1,2) by (simp add: test_vfs_def)
qed

text \<open>
  \<open>test_ipc\<close> passes when its process has no message waiting: it receives the message that it queued for
  itself, and its queue is empty again. It finds out nothing when messages wait: then it takes the oldest
  of them.
\<close>

theorem test_ipc_receives:
  assumes "current_process pt = Some cur" and "mq_inv (msg_queue (procs pt cur))"
    and "length (mq_contents (msg_queue (procs pt cur))) < MAX_MESSAGES"
  defines "ms \<equiv> mq_contents (msg_queue (procs pt cur)) @ [zero_message\<lparr>mtype := 1, mdata := Some (''Hi'' @ [NUL]), msize := 2\<rparr>]"
  shows "\<exists>pt'. test_ipc pt = Inr (Some (hd ms), pt') \<and> mq_contents (msg_queue (procs pt' cur)) = tl ms"
proof -
  let ?q = "msg_queue (procs pt cur)" and ?msg = "zero_message\<lparr>mtype := 1, mdata := Some (''Hi'' @ [NUL]), msize := 2\<rparr>"
  obtain q1 where 1: "mq_push ?msg ?q = Some q1"
    using assms(3) by (simp add: mq_push_def)
  then have q1: "mq_inv q1" "mq_contents q1 = ms"
    using mq_push_some [OF assms(2) 1] by (simp_all add: ms_def)
  then have "0 < qcount q1"
    using length_mq_contents [of q1] by (simp add: ms_def del: length_mq_contents)
  then obtain x q2 where 2: "mq_pop q1 = Some (x, q2)"
    by (simp add: mq_pop_def)
  have "x = hd ms" "mq_contents q2 = tl ms"
    using mq_pop_some [OF q1(1) 2] q1(2) by (metis list.sel(1), metis list.sel(3))
  then show ?thesis
    using assms(1) 1 2 by (simp add: test_ipc_def queue_message_def receive_message_def upd_proc_def)
qed

section \<open>Concrete runs\<close>

theorem test_ipc_receives_witness:
  "\<exists>m pt'. test_ipc ex_boot = Inr (Some m, pt') \<and> msize m = 2"
  using test_ipc_receives [of ex_boot "Slot 0"]
  by (auto simp: ex_boot_def init_process_def boot_ptable_def upd_proc_def zero_process_def Let_def zero_message_def)

definition ex_board :: board where
  "ex_board = \<lparr>b_ks = ex_kstate\<lparr>k_pt := boot_ptable ex_cpu\<rparr>, b_machine = ex_machine, b_mmu = ex_mmu, b_mem = zero_mem\<rparr>"


theorem test_processes_exits_parent_witness:
  "\<exists>ks' child. test_processes 0 ex_kstate = Inr ks' \<and> current_process (k_pt ks') = Some child \<and> child \<noteq> Slot 0 \<and>
    pstate (procs (k_pt ks') (Slot 0)) = PROC_ZOMBIE"
proof -
  have "k_pt ex_kstate = ex_boot"
    by (simp add: ex_kstate_def)
  then show ?thesis
    using test_processes_exits_parent [of 0 ex_cpu 0 ex_kstate "Slot 0"] ex_boot_reach by auto
qed

theorem test_vfs_passes_witness:
  "\<exists>ks'. test_vfs ex_kstate = Inr ([], ks') \<and> ramfs_look (k_ramfs ks') ''/tmp/test.txt'' = Some ''Hello from RAMFS!''"
proof -
  have slot: "first_index (\<lambda>f. \<not> rf_used f) (k_ramfs ex_kstate) = Some 0"
    by (simp add: ramfs_init_numeral zero_ramfs_file_def)
  have k: "kalloc sizeof_vfs_file (k_heap ex_kstate) = (Some 0, 304)"
    by (simp add: kalloc_def)
  show ?thesis
    using test_vfs_passes [OF _ _ slot k] ramfs_init_ok by auto
qed

end
