(* ===== verification/Process_Test.thy ===== *)
theory Process_Test
  imports Kernel
begin

text \<open>
  The programs of \<open>process_test.c\<close>, which run as processes and use the file systems and bindings; each
  ends with \<open>process_exit\<close>. What they print is left out.
\<close>

section \<open>The programs\<close>

text \<open>
  The end of a program. \<open>process_exit\<close> never returns to a program that runs as the current process.
\<close>

definition exit_with :: "int \<Rightarrow> kstate \<Rightarrow> kstate res" where
  "exit_with status ks = map_res (\<lambda>pt. ks\<lparr>k_pt := pt\<rparr>) (process_exit status (k_pt ks))"

definition process1 :: "kstate \<Rightarrow> kstate res" where
  "process1 ks =
     bind_res (vfs_mkdir ''/tmp/data'' ks) (\<lambda>(_, ks1).
     bind_res (vfs_mkdir ''/private'' ks1) (\<lambda>(_, ks2).
     case ramfs_create_file ''/tmp/data/test.txt'' ''Hello from RAMFS!'' (k_ramfs ks2) of (r, files) \<Rightarrow>
       let ks3 = ks2\<lparr>k_ramfs := files\<rparr> in
       if r < 0 then exit_with 1 ks3
       else
         bind_res (bind ''/tmp/data'' ''/private'' MREPL ks3) (\<lambda>(r, ks4).
         if r < 0 then exit_with 1 ks4
         else
           bind_res (vfs_open ''/private/test.txt'' ks4) (\<lambda>(fd, ks5).
           if fd < 0 then exit_with 1 ks5
           else
             bind_res (vfs_read fd 128 ks5) (\<lambda>(n, _, ks6).
             if n < 0 then exit_with 1 ks6
             else
               bind_res (vfs_read_dir ''/tmp/data'' 32 ks6) (\<lambda>(_, _, ks7).
               bind_res (vfs_read_dir ''/private'' 32 ks7) (\<lambda>(_, _, ks8). exit_with 0 ks8)))))))"

text \<open>The loop over the three paths.\<close>

fun try_paths :: "string list \<Rightarrow> kstate \<Rightarrow> kstate res" where
  "try_paths [] ks = Inr ks"
| "try_paths (p # ps) ks =
     bind_res (vfs_open p ks) (\<lambda>(fd, ks1).
     bind_res (if fd \<ge> 0 then map_res (\<lambda>(_, _, ks2). ks2) (vfs_read fd 128 ks1) else Inr ks1) (try_paths ps))"

definition process2 :: "kstate \<Rightarrow> kstate res" where
  "process2 ks =
     bind_res (bind ''/tmp'' ''/data'' MREPL ks) (\<lambda>(_, ks1).
     bind_res (bind ''/tmp'' ''/backup'' MREPL ks1) (\<lambda>(_, ks2).
     let ks3 = ks2\<lparr>k_ramfs := snd (ramfs_create_file ''/tmp/shared.txt'' ''Shared through namespaces'' (k_ramfs ks2))\<rparr> in
     bind_res (try_paths [''/tmp/shared.txt'', ''/data/shared.txt'', ''/backup/shared.txt''] ks3) (exit_with 0)))"

definition process3 :: "kstate \<Rightarrow> kstate res" where
  "process3 ks = exit_with 0 ks"

section \<open>The process table\<close>

definition table_ok :: "kstate \<Rightarrow> bool" where
  "table_ok ks \<longleftrightarrow> (\<exists>h ps. sched_inv h ps (k_pt ks))"

lemma table_ok_cong: "k_pt ks' = k_pt ks \<Longrightarrow> table_ok ks' = table_ok ks"
  by (simp add: table_ok_def)

lemma exit_with_fails: "table_ok ks \<Longrightarrow> exit_with status ks \<noteq> Inr ks'"
  unfolding table_ok_def exit_with_def by (elim exE, drule process_exit_faults [where status = status]) auto

lemma vfs_mkdir_table: "vfs_mkdir p ks = Inr (r, ks') \<Longrightarrow> k_pt ks' = k_pt ks"
  unfolding vfs_mkdir_def fs_mkdir_def bind_res_Inr_iff
  by (elim exE conjE, split option.split_asm, simp, split filesystem_type.split_asm) (auto simp: res_Inr_iffs)

lemma vfs_read_table: "vfs_read fd n ks = Inr (r, bs, ks') \<Longrightarrow> k_pt ks' = k_pt ks"
  by (auto simp: vfs_read_def res_Inr_iffs split: option.splits)

lemma resolve_table: "resolve_namespace_path p ks = Inr (q, ks') \<Longrightarrow> k_pt ks' = k_pt ks"
  by (auto simp: resolve_namespace_path_def res_Inr_iffs Let_def split: option.splits prod.splits)

lemma vfs_read_dir_table: "vfs_read_dir p n ks = Inr (r, es, ks') \<Longrightarrow> k_pt ks' = k_pt ks"
  by (auto simp: vfs_read_dir_def res_Inr_iffs split: option.splits dest: resolve_table)

lemma bind_table:
  assumes "bind old new flags ks = Inr (r, ks')" and "table_ok ks"
  shows "table_ok ks'"
proof -
  obtain r1 es ks1 where 1: "vfs_read_dir old 1 ks = Inr (r1, es, ks1)"
    using assms(1) by (auto simp: bind_def res_Inr_iffs)
  note t1 = vfs_read_dir_table [OF 1]
  show ?thesis
  proof (cases "r1 < 0")
    case True
    then show ?thesis
      using assms 1 t1 by (simp add: bind_def table_ok_def)
  next
    case False
    then obtain r2 es2 ks2 where 2: "vfs_read_dir new (length es) ks1 = Inr (r2, es2, ks2)"
      using assms(1) 1 by (auto simp: bind_def res_Inr_iffs)
    have t2: "k_pt ks2 = k_pt ks"
      using vfs_read_dir_table [OF 2] t1 by simp
    obtain h ps where inv: "sched_inv h ps (k_pt ks)"
      using assms(2) by (auto simp: table_ok_def)
    have "sched_inv h ps (upd_proc cur (\<lambda>p. p\<lparr>ns_mounts := e # ns_mounts p\<rparr>) (k_pt ks))" for cur e
      by (rule sched_inv_upd [OF inv]) (simp_all add: keeps_links_def)
    then have "sched_inv h ps (k_pt ks')"
      using assms(1) 1 2 t2 inv False by (auto simp: bind_def split: if_splits option.splits prod.splits)
    then show ?thesis
      unfolding table_ok_def by blast
  qed
qed

lemma try_paths_table: "try_paths ps ks = Inr ks' \<Longrightarrow> k_pt ks' = k_pt ks"
proof (induction ps arbitrary: ks)
  case (Cons p ps)
  then obtain fd ks1 ks2 where o: "vfs_open p ks = Inr (fd, ks1)"
    and r: "(if fd \<ge> 0 then map_res (\<lambda>(_, _, ks2). ks2) (vfs_read fd 128 ks1) else Inr ks1) = Inr ks2"
    and t: "try_paths ps ks2 = Inr ks'"
    by (auto simp: res_Inr_iffs)
  have "k_pt ks2 = k_pt ks1"
    using r by (auto simp: res_Inr_iffs dest: vfs_read_table split: if_splits)
  then show ?case
    using Cons.IH [OF t] vfs_open_keeps(1) [OF o] by simp
qed simp

section \<open>Properties\<close>

text \<open>
  None of the three test programs ends: run as processes of a reachable table, they stop at
  the latest in \<open>process_exit\<close>, which goes through a null pointer or finds no process to run.
\<close>

theorem process_tests_never_exit:
  assumes "kreach process_stacks m (h, k_pt ks)"
  shows "process1 ks \<noteq> Inr ks' \<and> process2 ks \<noteq> Inr ks' \<and> process3 ks \<in> {Inl Null_Deref, Inl Hang}"
proof -
  obtain ps where inv: "sched_inv h ps (k_pt ks)"
    using assms by (rule kreachD)
  then have t: "table_ok ks"
    by (auto simp: table_ok_def)
  have "process3 ks \<in> {Inl Null_Deref, Inl Hang}"
    using process_exit_faults [OF inv, of 0] by (auto simp: process3_def exit_with_def)
  moreover have "process1 ks \<noteq> Inr ks'"
  proof
    assume p: "process1 ks = Inr ks'"
    obtain r1 ks1 where 1: "vfs_mkdir ''/tmp/data'' ks = Inr (r1, ks1)"
      using p by (auto simp: process1_def res_Inr_iffs)
    then obtain r2 ks2 where 2: "vfs_mkdir ''/private'' ks1 = Inr (r2, ks2)"
      using p by (auto simp: process1_def res_Inr_iffs)
    obtain r files where f: "ramfs_create_file ''/tmp/data/test.txt'' ''Hello from RAMFS!'' (k_ramfs ks2) = (r, files)"
      by (cases "ramfs_create_file ''/tmp/data/test.txt'' ''Hello from RAMFS!'' (k_ramfs ks2)")
    let ?ks3 = "ks2\<lparr>k_ramfs := files\<rparr>"
    have t3: "table_ok ?ks3"
      using t vfs_mkdir_table [OF 1] vfs_mkdir_table [OF 2] by (simp add: table_ok_def)
    then obtain r4 ks4 where 4: "bind ''/tmp/data'' ''/private'' MREPL ?ks3 = Inr (r4, ks4)" "0 \<le> r"
      using p 1 2 f exit_with_fails [OF t3] by (auto simp: process1_def res_Inr_iffs Let_def split: if_splits)
    have t4: "table_ok ks4"
      by (rule bind_table [OF 4(1) t3])
    then obtain fd ks5 where 5: "vfs_open ''/private/test.txt'' ks4 = Inr (fd, ks5)" "0 \<le> r4"
      using p 1 2 f 4 exit_with_fails [OF t4] by (auto simp: process1_def res_Inr_iffs Let_def split: if_splits)
    have t5: "table_ok ks5"
      using t4 vfs_open_keeps(1) [OF 5(1)] by (simp add: table_ok_def)
    then obtain n bs ks6 where 6: "vfs_read fd 128 ks5 = Inr (n, bs, ks6)" "0 \<le> fd"
      using p 1 2 f 4 5 exit_with_fails [OF t5] by (auto simp: process1_def res_Inr_iffs Let_def split: if_splits)
    have t6: "table_ok ks6"
      using t5 vfs_read_table [OF 6(1)] by (simp add: table_ok_def)
    have "0 \<le> n"
      using p 1 2 f 4 5 6 exit_with_fails [OF t6] by (auto simp: process1_def Let_def split: if_splits)
    then obtain ks8 where "k_pt ks8 = k_pt ks6" "exit_with 0 ks8 = Inr ks'"
      using p 1 2 f 4 5 6 by (auto simp: process1_def res_Inr_iffs Let_def split: if_splits dest!: vfs_read_dir_table)
    then show False
      using exit_with_fails t6 table_ok_cong by blast
  qed
  moreover have "process2 ks \<noteq> Inr ks'"
  proof
    assume p: "process2 ks = Inr ks'"
    obtain r1 ks1 where 1: "bind ''/tmp'' ''/data'' MREPL ks = Inr (r1, ks1)"
      using p by (auto simp: process2_def res_Inr_iffs)
    then obtain r2 ks2 where 2: "bind ''/tmp'' ''/backup'' MREPL ks1 = Inr (r2, ks2)"
      using p by (auto simp: process2_def res_Inr_iffs)
    have t2: "table_ok ks2"
      by (rule bind_table [OF 2 bind_table [OF 1 t]])
    obtain ks4 where 4: "k_pt ks4 = k_pt ks2" "exit_with 0 ks4 = Inr ks'"
      using p 1 2 by (auto simp: process2_def bind_res_Inr_iff Let_def simp del: try_paths.simps dest!: try_paths_table)
    then show False
      using exit_with_fails t2 table_ok_cong [OF 4(1)] by blast
  qed
  ultimately show ?thesis
    by blast
qed

section \<open>Concrete runs\<close>

theorem process_tests_never_exit_witness:
  "process1 ex_kstate \<noteq> Inr ex_kstate \<and> process3 ex_kstate \<in> {Inl Null_Deref, Inl Hang}"
proof -
  have "k_pt ex_kstate = ex_boot"
    by (simp add: ex_kstate_def)
  then show ?thesis
    using process_tests_never_exit [of 0 ex_cpu 0 ex_kstate ex_kstate] ex_boot_reach by simp
qed

end
