(* ===== verification/Assembly.thy ===== *)
theory Assembly
  imports Exceptions
begin

text \<open>
  The instructions of \<open>exceptions.S\<close> and \<open>user_shell.S\<close> and what each does to the state of
  Exceptions; the table of \<open>exceptions.S\<close> as the assembler lays it out, and the run of the code at one of its
  offsets. \<open>sync_el0_64\<close> of Exceptions is what the code at offset 0x400 computes (\<open>vector_svc_equals_model\<close>).
\<close>

section \<open>Instructions\<close>

text \<open>
  \<open>B_self\<close> is \<open>b .\<close>, \<open>Fill\<close> the padding of \<open>.org\<close>. The offsets of loads and stores are in words of 8 bytes
  from \<open>sp\<close>. The operand of \<open>Goto\<close> is the index of the target.
\<close>

datatype insn =
    B_self
  | Fill
  | Goto nat
  | Mov_imm nat u64
  | Mov_reg nat nat
  | Mov_from_sp nat
  | Mov_to_sp nat
  | Ldr_stack_top nat
  | Sub_sp u64
  | Stp nat nat nat
  | Str nat nat
  | Ldp nat nat nat
  | Ldr nat nat
  | Mrs_elr nat
  | Mrs_spsr nat
  | Msr_elr nat
  | Msr_spsr nat
  | Bl_handler
  | Svc
  | Eret

text \<open>The instructions that only compute: None for the others.\<close>

fun effect :: "u64 \<Rightarrow> insn \<Rightarrow> el1_state \<Rightarrow> el1_state option" where
  "effect stack_top (Mov_imm r v) m = Some (m\<lparr>gregs := (gregs m)[r := v]\<rparr>)"
| "effect stack_top (Mov_reg r s) m = Some (m\<lparr>gregs := (gregs m)[r := gregs m ! s]\<rparr>)"
| "effect stack_top (Mov_from_sp r) m = Some (m\<lparr>gregs := (gregs m)[r := sp_el1 m]\<rparr>)"
| "effect stack_top (Mov_to_sp r) m = Some (m\<lparr>sp_el1 := gregs m ! r\<rparr>)"
| "effect stack_top (Ldr_stack_top r) m = Some (m\<lparr>gregs := (gregs m)[r := stack_top]\<rparr>)"
| "effect stack_top (Sub_sp n) m = Some (m\<lparr>sp_el1 := sp_el1 m - n\<rparr>)"
| "effect stack_top (Stp r s k) m = Some (m\<lparr>stack_mem := (stack_mem m)
     (frame_word (sp_el1 m) k := gregs m ! r, frame_word (sp_el1 m) (Suc k) := gregs m ! s)\<rparr>)"
| "effect stack_top (Str r k) m = Some (m\<lparr>stack_mem := (stack_mem m)(frame_word (sp_el1 m) k := gregs m ! r)\<rparr>)"
| "effect stack_top (Ldp r s k) m = Some (m\<lparr>gregs := (gregs m)
     [r := stack_mem m (frame_word (sp_el1 m) k), s := stack_mem m (frame_word (sp_el1 m) (Suc k))]\<rparr>)"
| "effect stack_top (Ldr r k) m = Some (m\<lparr>gregs := (gregs m)[r := stack_mem m (frame_word (sp_el1 m) k)]\<rparr>)"
| "effect stack_top (Mrs_elr r) m = Some (m\<lparr>gregs := (gregs m)[r := elr_el1 m]\<rparr>)"
| "effect stack_top (Mrs_spsr r) m = Some (m\<lparr>gregs := (gregs m)[r := spsr_el1 m]\<rparr>)"
| "effect stack_top (Msr_elr r) m = Some (m\<lparr>elr_el1 := gregs m ! r\<rparr>)"
| "effect stack_top (Msr_spsr r) m = Some (m\<lparr>spsr_el1 := gregs m ! r\<rparr>)"
| "effect stack_top _ m = None"

section \<open>The table of vectors\<close>

text \<open>The code at \<open>sync_el0_64\<close>: entry and frame, the call, the way back.\<close>

definition svc_entry :: "insn list" where
  "svc_entry = [Mov_from_sp 21, Ldr_stack_top 22, Mov_to_sp 22, Sub_sp (32 * 8)]"

definition svc_save :: "insn list" where
  "svc_save = [Stp 0 1 0, Stp 2 3 2, Stp 4 5 4, Stp 6 7 6, Stp 8 9 8, Stp 10 11 10, Stp 12 13 12, Stp 14 15 14,
     Stp 16 17 16, Stp 18 19 18, Stp 20 21 20, Stp 22 23 22, Stp 24 25 24, Stp 26 27 26, Stp 28 29 28, Str 30 30]"

definition svc_call :: "insn list" where
  "svc_call = [Mrs_elr 0, Str 0 31, Mrs_spsr 0, Str 0 32, Ldr 0 0, Ldr 1 8, Bl_handler, Str 0 0]"

definition svc_restore :: "insn list" where
  "svc_restore = [Ldp 0 1 0, Ldp 2 3 2, Ldp 4 5 4, Ldp 6 7 6, Ldp 8 9 8, Ldp 10 11 10, Ldp 12 13 12, Ldp 14 15 14,
     Ldp 16 17 16, Ldp 18 19 18, Ldp 20 21 20, Ldp 22 23 22, Ldp 24 25 24, Ldp 26 27 26, Ldp 28 29 28, Ldr 30 30]"

definition svc_return :: "insn list" where
  "svc_return = [Ldr 0 31, Msr_elr 0, Ldr 0 32, Msr_spsr 0, Mov_to_sp 21, Eret]"

text \<open>\<open>.org off\<close> pads the section up to the offset; an instruction has 4 bytes.\<close>

definition org :: "nat \<Rightarrow> insn list \<Rightarrow> insn list" where
  "org off code = code @ replicate (off div 4 - length code) Fill"

definition exception_vector_table :: "insn list" where
  "exception_vector_table =
     org 0x400 (fold (\<lambda>off code. org off code @ [B_self]) [0x000, 0x080, 0x100, 0x180, 0x200, 0x280, 0x300, 0x380] [])
       @ svc_entry @ svc_save @ svc_call @ svc_restore @ svc_return"

text \<open>
  The run of a list of instructions up to \<open>eret\<close>. The C function gets the registers \<open>x0\<close> and \<open>x1\<close>;
  \<open>clob\<close> is what it leaves in the registers besides its result. None is an endless loop: \<open>b .\<close>, a call that
  does not return, and the padding, which is undefined and traps to offset 0x200, a \<open>b .\<close>. What lies
  behind the table is not part of it.
\<close>

fun run_code :: "device \<Rightarrow> (string \<Rightarrow> u64) \<Rightarrow> u64 \<Rightarrow> u64 \<Rightarrow> (nat \<Rightarrow> u64) \<Rightarrow> insn list \<Rightarrow> el1_state \<Rightarrow> mmio_trace \<Rightarrow>
    (el1_state \<times> mmio_trace) option" where
  "run_code dev lit stack_top esr clob [] m tr = None"
| "run_code dev lit stack_top esr clob (i # code) m tr =
     (case i of
        Eret \<Rightarrow> Some (m, tr)
      | Bl_handler \<Rightarrow>
          Option.bind (handle_sync_exception dev lit esr (gregs m ! 0) (gregs m ! 1) tr) (\<lambda>(r, tr1).
            run_code dev lit stack_top esr clob code (m\<lparr>gregs := (map clob [0..<31])[0 := r]\<rparr>) tr1)
      | _ \<Rightarrow> Option.bind (effect stack_top i m) (\<lambda>m1. run_code dev lit stack_top esr clob code m1 tr))"

definition run_vector :: "device \<Rightarrow> (string \<Rightarrow> u64) \<Rightarrow> u64 \<Rightarrow> u64 \<Rightarrow> (nat \<Rightarrow> u64) \<Rightarrow> nat \<Rightarrow> el1_state \<Rightarrow> mmio_trace \<Rightarrow>
    (el1_state \<times> mmio_trace) option" where
  "run_vector dev lit stack_top esr clob off = run_code dev lit stack_top esr clob (drop (off div 4) exception_vector_table)"

section \<open>Runs of code\<close>

text \<open>A block of instructions that only compute.\<close>

fun effects :: "u64 \<Rightarrow> insn list \<Rightarrow> el1_state \<Rightarrow> el1_state option" where
  "effects stack_top [] m = Some m"
| "effects stack_top (i # code) m = Option.bind (effect stack_top i m) (effects stack_top code)"

lemma run_code_block:
  "effects stack_top code m = Some m1 \<Longrightarrow>
    run_code dev lit stack_top esr clob (code @ rest) m tr = run_code dev lit stack_top esr clob rest m1 tr"
proof (induction code arbitrary: m)
  case (Cons i code)
  then show ?case
    by (cases i) (auto simp: bind_eq_Some_conv)
qed simp

lemma effects_append:
  "effects stack_top (c1 @ c2) m = Option.bind (effects stack_top c1 m) (effects stack_top c2)"
  by (induction c1 arbitrary: m) (simp_all cong: Option.bind_cong)

lemma upt_31: "[0..<31] = [0, 1, 2, 3, 4, 5, 6, 7, 8, 9, 10, 11, 12, 13, 14, 15, 16, 17, 18, 19, 20, 21, 22, 23, 24, 25, 26,
    27, 28, 29, 30]"
  by (simp add: upt_rec)

lemma svc_save_effects:
  "effects stack_top svc_save m = Some (m\<lparr>stack_mem := save_frame (sp_el1 m) (gregs m) (stack_mem m)\<rparr>)"
  by (simp add: svc_save_def save_frame_def upt_31)

text \<open>Updates at the indices from \<open>i\<close> to \<open>n\<close>.\<close>

lemma fold_list_update:
  "i \<le> n \<Longrightarrow> n \<le> length xs \<Longrightarrow>
    fold (\<lambda>k ys. ys[k := f k]) [i..<n] xs = take i xs @ map f [i..<n] @ drop n xs"
proof (induction n)
  case (Suc n)
  then show ?case
    by (cases "i = Suc n") (auto simp: list_update_append Cons_nth_drop_Suc [symmetric] upt_Suc)
qed simp

lemma svc_restore_effects:
  assumes "length (gregs m) = 31"
  shows "effects stack_top svc_restore m = Some (m\<lparr>gregs := load_frame (sp_el1 m) (stack_mem m)\<rparr>)"
proof -
  have "effects stack_top svc_restore m =
      Some (m\<lparr>gregs := fold (\<lambda>k xs. xs[k := stack_mem m (frame_word (sp_el1 m) k)]) [0..<31] (gregs m)\<rparr>)"
    by (simp add: svc_restore_def upt_31)
  then show ?thesis
    using assms by (simp add: fold_list_update load_frame_def)
qed

text \<open>The code on both sides of the call.\<close>

lemma svc_before_call:
  fixes m :: el1_state and stack_top :: u64
  assumes "length (gregs m) = 31"
  defines "xs \<equiv> (gregs m)[21 := sp_el1 m, 22 := stack_top]" and "sp \<equiv> stack_top - 256"
  defines "mm \<equiv> (save_frame sp xs (stack_mem m))(frame_word sp 31 := elr_el1 m, frame_word sp 32 := spsr_el1 m)"
  shows "effects stack_top (svc_entry @ svc_save @ take 6 svc_call) m =
    Some (m\<lparr>gregs := xs[0 := mm (frame_word sp 0), 1 := mm (frame_word sp 8)], sp_el1 := sp, stack_mem := mm\<rparr>)"
proof -
  have "effects stack_top svc_entry m = Some (m\<lparr>gregs := xs, sp_el1 := sp\<rparr>)"
    using assms(1) by (simp add: svc_entry_def xs_def sp_def)
  moreover have "effects stack_top (take 6 svc_call) (m\<lparr>gregs := xs, sp_el1 := sp, stack_mem := save_frame sp xs (stack_mem m)\<rparr>) =
      Some (m\<lparr>gregs := xs[0 := mm (frame_word sp 0), 1 := mm (frame_word sp 8)], sp_el1 := sp, stack_mem := mm\<rparr>)"
    using assms(1) by (simp add: svc_call_def xs_def mm_def)
  ultimately show ?thesis
    by (simp add: effects_append svc_save_effects)
qed

lemma svc_after_call:
  fixes m :: el1_state
  assumes "length (gregs m) = 31"
  defines "mm \<equiv> (stack_mem m)(frame_word (sp_el1 m) 0 := gregs m ! 0)"
  defines "xs \<equiv> load_frame (sp_el1 m) mm"
  shows "run_code dev lit stack_top esr clob (drop 7 svc_call @ svc_restore @ svc_return) m tr =
    Some (\<lparr>gregs = xs[0 := mm (frame_word (sp_el1 m) 32)], sp_el1 = xs ! 21, elr_el1 = mm (frame_word (sp_el1 m) 31),
      spsr_el1 = mm (frame_word (sp_el1 m) 32), stack_mem = mm\<rparr>, tr)"
proof -
  have "length xs = 31"
    by (simp add: xs_def load_frame_def)
  moreover have "effects stack_top (drop 7 svc_call @ svc_restore) m = Some (m\<lparr>gregs := xs, stack_mem := mm\<rparr>)"
    using svc_restore_effects [of "m\<lparr>stack_mem := mm\<rparr>"] assms(1)
    by (simp add: effects_append svc_call_def xs_def mm_def)
  ultimately show ?thesis
    using run_code_block [of stack_top "drop 7 svc_call @ svc_restore" m]
    by (simp add: svc_return_def)
qed

end
