(* ===== verification/User_Shell.thy ===== *)
theory User_Shell
  imports Exceptions
begin

text \<open>
  \<open>user_shell.c\<close>, the program that runs in user mode: it sends a prompt and then each character that it
  gets, through the system calls of \<open>exceptions.S\<close>. The machine is the state at EL1 around the calls;
  \<open>esr\<close> is the syndrome of the instruction \<open>svc\<close>.
\<close>

section \<open>The program\<close>

definition sys_putc ::
  "device \<Rightarrow> (string \<Rightarrow> u64) \<Rightarrow> u64 \<Rightarrow> u64 \<Rightarrow> char \<Rightarrow> el1_state \<Rightarrow> mmio_trace \<Rightarrow> (el1_state \<times> mmio_trace) option" where
  "sys_putc dev lit stack_top esr c m tr =
     sync_el0_64 dev lit stack_top esr (m\<lparr>gregs := (gregs m)[0 := of_nat (of_char c), 8 := 1]\<rparr>) tr"

definition sys_getc ::
  "device \<Rightarrow> (string \<Rightarrow> u64) \<Rightarrow> u64 \<Rightarrow> u64 \<Rightarrow> el1_state \<Rightarrow> mmio_trace \<Rightarrow> (char \<times> el1_state \<times> mmio_trace) option" where
  "sys_getc dev lit stack_top esr m tr =
     map_option (\<lambda>(m', tr'). (char_of (unat (gregs m' ! 0)), m', tr'))
       (sync_el0_64 dev lit stack_top esr (m\<lparr>gregs := (gregs m)[8 := 2]\<rparr>) tr)"

text \<open>\<open>n\<close> turns of the endless loop.\<close>

fun user_loop ::
  "device \<Rightarrow> (string \<Rightarrow> u64) \<Rightarrow> u64 \<Rightarrow> u64 \<Rightarrow> nat \<Rightarrow> el1_state \<Rightarrow> mmio_trace \<Rightarrow> (el1_state \<times> mmio_trace) option" where
  "user_loop dev lit stack_top esr 0 m tr = Some (m, tr)"
| "user_loop dev lit stack_top esr (Suc n) m tr =
     Option.bind (sys_getc dev lit stack_top esr m tr) (\<lambda>(c, m1, tr1).
     Option.bind (sys_putc dev lit stack_top esr c m1 tr1) (\<lambda>(m2, tr2). user_loop dev lit stack_top esr n m2 tr2))"

definition user_start ::
  "device \<Rightarrow> (string \<Rightarrow> u64) \<Rightarrow> u64 \<Rightarrow> u64 \<Rightarrow> nat \<Rightarrow> el1_state \<Rightarrow> mmio_trace \<Rightarrow> (el1_state \<times> mmio_trace) option" where
  "user_start dev lit stack_top esr n m tr =
     Option.bind (sys_putc dev lit stack_top esr (CHR ''$'') m tr) (\<lambda>(m1, tr1). user_loop dev lit stack_top esr n m1 tr1)"

section \<open>Its calls\<close>

definition svc_line :: string where
  "svc_line = ''[SVC]'' @ [CR, LF]"

text \<open>The state that user code is in between calls, with the saved status \<open>st\<close>.\<close>

definition user_ok :: "u64 \<Rightarrow> el1_state \<Rightarrow> bool" where
  "user_ok st m \<longleftrightarrow> length (gregs m) = 31 \<and> spsr_el1 m = st"

lemma svc_trace_line:
  assumes "drains dev FR_TXFF" and "drains dev FR_BUSY"
  obtains ev where "uart_puts dev (lit (''[SVC]'' @ [LF])) (''[SVC]'' @ [LF]) tr = Some (tr @ ev)" "sent ev = svc_line"
    "careful False ev"
  using sendsD [OF puts_sends [OF assms]] by (fastforce simp: svc_line_def)

lemma sys_putc_sends:
  assumes dev: "drains dev FR_TXFF" "drains dev FR_BUSY" and m: "user_ok st m"
    and esr: "drop_bit 26 esr AND 0x3F = 0x15"
  obtains m' ev where "sys_putc dev lit stack_top esr c m tr = Some (m', tr @ ev)" "sent ev = svc_line @ [c]"
    "careful False ev" "user_ok st m'"
proof -
  let ?m = "m\<lparr>gregs := (gregs m)[0 := of_nat (of_char c), 8 := 1]\<rparr>"
  have len: "length (gregs ?m) = 31"
    using m by (simp add: user_ok_def)
  have "(of_char c :: nat) < 2 ^ 64"
    by (rule less_trans [of _ 256]) simp_all
  then have c: "char_of (unat (gregs ?m ! 0)) = c" "gregs ?m ! 8 = 1"
    using m by (simp_all add: user_ok_def unat_of_nat)
  obtain e1 where 1: "uart_puts dev (lit (''[SVC]'' @ [LF])) (''[SVC]'' @ [LF]) tr = Some (tr @ e1)" "sent e1 = svc_line"
    "careful False e1"
    by (rule svc_trace_line [OF dev])
  obtain e2 where 2: "uart_putc dev c (tr @ e1) = Some ((tr @ e1) @ e2)" "sent e2 = [c]" "careful False e2"
    using sendsD [OF putc_sends [OF dev(1)]] by blast
  have h: "handle_sync_exception dev lit esr (gregs ?m ! 0) (gregs ?m ! 8) tr = Some (0, tr @ e1 @ e2)"
    using 1(1) 2(1) esr unfolding handle_sync_exception_def c by (simp add: Let_def)
  obtain m' where "sync_el0_64 dev lit stack_top esr ?m tr = Some (m', tr @ e1 @ e2)" "user_ok st m'"
    using sync_el0_64_eq [OF len, of dev lit stack_top esr tr] m unfolding h by (auto simp: user_ok_def)
  then show thesis
    using that [of m' "e1 @ e2"] 1 2 by (simp add: sys_putc_def careful_append)
qed

lemma sys_getc_result:
  assumes dev: "drains dev FR_TXFF" "drains dev FR_BUSY" "drains dev FR_RXFE" and m: "user_ok st m"
    and esr: "drop_bit 26 esr AND 0x3F = 0x15"
  obtains m' ev where "sys_getc dev lit stack_top esr m tr = Some (char_of (unat st), m', tr @ ev)" "sent ev = svc_line"
    "careful False ev" "user_ok st m'"
proof -
  let ?m = "m\<lparr>gregs := (gregs m)[8 := 2]\<rparr>"
  have len: "length (gregs ?m) = 31" "gregs ?m ! 8 = 2"
    using m by (simp_all add: user_ok_def)
  obtain e1 where 1: "uart_puts dev (lit (''[SVC]'' @ [LF])) (''[SVC]'' @ [LF]) tr = Some (tr @ e1)" "sent e1 = svc_line"
    "careful False e1"
    by (rule svc_trace_line [OF dev(1,2)])
  obtain e2 v where 2: "poll dev UART_FR FR_RXFE (tr @ e1) = Some ((tr @ e1) @ e2 @ [Read UART_FR v])" "sent e2 = []"
    "careful False e2"
    using poll_ends [OF dev(3), of "tr @ e1"] by blast
  let ?tr = "(tr @ e1) @ e2 @ [Read UART_FR v]"
  let ?e = "e1 @ e2 @ [Read UART_FR v, Read UART_DR (dev ?tr UART_DR)]"
  have g: "uart_getc dev (tr @ e1) = Some (char_of (unat (dev ?tr UART_DR AND 0xFF)), tr @ ?e)"
    unfolding uart_getc_def 2(1) by (simp add: mmio_read_def)
  obtain r where h: "handle_sync_exception dev lit esr (gregs ?m ! 0) (gregs ?m ! 8) tr = Some (r, tr @ ?e)"
    using 1(1) g esr unfolding handle_sync_exception_def len by (simp add: Let_def)
  obtain m' where "sync_el0_64 dev lit stack_top esr ?m tr = Some (m', tr @ ?e)" "user_ok st m'" "gregs m' ! 0 = st"
    using sync_el0_64_eq [OF len(1), of dev lit stack_top esr tr] m unfolding h by (auto simp: user_ok_def)
  moreover have "careful False ?e" "sent ?e = svc_line"
    using 1 2 by (simp_all add: careful_append)
  ultimately show thesis
    using that [of m' ?e] by (simp add: sys_getc_def)
qed

lemma user_loop_sends:
  assumes dev: "drains dev FR_TXFF" "drains dev FR_BUSY" "drains dev FR_RXFE" and esr: "drop_bit 26 esr AND 0x3F = 0x15"
  shows "user_ok st m \<Longrightarrow> \<exists>m' ev. user_loop dev lit stack_top esr n m tr = Some (m', tr @ ev) \<and>
    sent ev = concat (replicate n (svc_line @ svc_line @ [char_of (unat st)])) \<and> careful False ev"
proof (induction n arbitrary: m tr)
  case (Suc n)
  obtain m1 e1 where 1: "sys_getc dev lit stack_top esr m tr = Some (char_of (unat st), m1, tr @ e1)" "sent e1 = svc_line"
    "careful False e1" "user_ok st m1"
    by (rule sys_getc_result [OF dev Suc.prems esr])
  obtain m2 e2 where 2: "sys_putc dev lit stack_top esr (char_of (unat st)) m1 (tr @ e1) = Some (m2, (tr @ e1) @ e2)"
    "sent e2 = svc_line @ [char_of (unat st)]" "careful False e2" "user_ok st m2"
    by (rule sys_putc_sends [OF dev(1,2) 1(4) esr])
  obtain m3 e3 where "user_loop dev lit stack_top esr n m2 (tr @ e1 @ e2) = Some (m3, (tr @ e1 @ e2) @ e3)"
    "sent e3 = concat (replicate n (svc_line @ svc_line @ [char_of (unat st)]))" "careful False e3"
    using Suc.IH [OF 2(4)] by blast
  then show ?case
    using 1 2 by (intro exI [of _ m3] exI [of _ "e1 @ e2 @ e3"]) (simp add: careful_append)
qed simp

section \<open>Properties\<close>

text \<open>
  Property C35. The user's shell never echoes what is typed: after the prompt it sends, in each turn, the
  low byte of its own saved status register, whatever characters the device delivers, because the
  result of the system call is lost on the way back.
\<close>

theorem user_shell_echoes_status:
  assumes "drains dev FR_TXFF" and "drains dev FR_BUSY" and "drains dev FR_RXFE"
    and "drop_bit 26 esr AND 0x3F = 0x15" and "length (gregs m) = 31"
  shows "\<exists>m' ev. user_start dev lit stack_top esr n m tr = Some (m', tr @ ev) \<and> careful False ev \<and>
    sent ev = svc_line @ ''$'' @ concat (replicate n (svc_line @ svc_line @ [char_of (unat (spsr_el1 m))]))"
proof -
  have ok: "user_ok (spsr_el1 m) m"
    using assms(5) by (simp add: user_ok_def)
  obtain m1 e1 where 1: "sys_putc dev lit stack_top esr (CHR ''$'') m tr = Some (m1, tr @ e1)" "sent e1 = svc_line @ ''$''"
    "careful False e1" "user_ok (spsr_el1 m) m1"
    by (rule sys_putc_sends [OF assms(1,2) ok assms(4)])
  obtain m2 e2 where "user_loop dev lit stack_top esr n m1 (tr @ e1) = Some (m2, (tr @ e1) @ e2)"
    "sent e2 = concat (replicate n (svc_line @ svc_line @ [char_of (unat (spsr_el1 m))]))" "careful False e2"
    using user_loop_sends [OF assms(1-4) 1(4)] by blast
  then show ?thesis
    using 1 by (intro exI [of _ m2] exI [of _ "e1 @ e2"]) (simp add: user_start_def careful_append)
qed

section \<open>Concrete runs\<close>

theorem user_shell_echoes_status_witness:
  "\<exists>m' ev. user_start ex_device (\<lambda>_. 0) 0x40080000 0x56000000 2 (ex_el1 0) [] = Some (m', ev) \<and>
    sent ev = svc_line @ ''$'' @ concat (replicate 2 (svc_line @ svc_line @ [char_of (0x3C0 :: nat)]))"
proof -
  have "drop_bit 26 0x56000000 AND 0x3F = (0x15 :: u64)"
    by (simp add: drop_bit_eq_div)
  then show ?thesis
    using user_shell_echoes_status [OF ex_device_drains ex_device_drains ex_device_drains, where esr = "0x56000000"
        and m = "ex_el1 0" and lit = "\<lambda>_. 0" and stack_top = "0x40080000" and n = 2 and tr = "[]"]
    by (auto simp: ex_el1_def)
qed

end
