(* ===== verification/User_Asm.thy ===== *)
theory User_Asm
  imports Assembly User_Shell
begin

text \<open>
  \<open>user_shell.S\<close>, the program that the build puts into the kernel image and that runs in user mode, as
  its instructions. It does what \<open>user_shell.c\<close> of User_Shell does, turn by turn.
\<close>

section \<open>The program\<close>

definition user_shell_code :: "insn list" where
  "user_shell_code = [Mov_imm 0 0x24, Mov_imm 8 1, Svc,
     Mov_imm 8 2, Svc, Mov_reg 1 0, Mov_reg 0 1, Mov_imm 8 1, Svc, Goto 3]"

type_synonym user_config = "nat \<times> el1_state \<times> mmio_trace"

text \<open>One instruction; None where a system call does not return.\<close>

definition user_step :: "device \<Rightarrow> (string \<Rightarrow> u64) \<Rightarrow> u64 \<Rightarrow> u64 \<Rightarrow> user_config \<Rightarrow> user_config option" where
  "user_step dev lit stack_top esr c =
     (case c of (pc, m, tr) \<Rightarrow>
        if pc < length user_shell_code then
          case user_shell_code ! pc of
            Goto t \<Rightarrow> Some (t, m, tr)
          | Svc \<Rightarrow> map_option (\<lambda>(m', tr'). (Suc pc, m', tr')) (sync_el0_64 dev lit stack_top esr m tr)
          | i \<Rightarrow> map_option (\<lambda>m'. (Suc pc, m', tr)) (effect stack_top i m)
        else None)"

fun user_run :: "device \<Rightarrow> (string \<Rightarrow> u64) \<Rightarrow> u64 \<Rightarrow> u64 \<Rightarrow> nat \<Rightarrow> user_config \<Rightarrow> user_config option" where
  "user_run dev lit stack_top esr 0 c = Some c"
| "user_run dev lit stack_top esr (Suc n) c = Option.bind (user_step dev lit stack_top esr c) (user_run dev lit stack_top esr n)"

section \<open>Turns\<close>

lemma user_run_add:
  "user_run dev lit stack_top esr (k + n) c =
    Option.bind (user_run dev lit stack_top esr k c) (user_run dev lit stack_top esr n)"
  by (induction k arbitrary: c) (simp_all cong: Option.bind_cong)

text \<open>
  States that agree up to the registers \<open>ks\<close> and the stack. A system call sees the caller through the low
  byte of \<open>x0\<close> and through \<open>x8\<close>; the two programs differ in \<open>x1\<close>, which neither reads.
\<close>

definition same_but :: "nat set \<Rightarrow> el1_state \<Rightarrow> el1_state \<Rightarrow> bool" where
  "same_but ks m m' \<longleftrightarrow> length (gregs m) = 31 \<and> length (gregs m') = 31 \<and>
     (\<forall>k\<in>{..<31} - ks. gregs m ! k = gregs m' ! k) \<and>
     sp_el1 m = sp_el1 m' \<and> elr_el1 m = elr_el1 m' \<and> spsr_el1 m = spsr_el1 m'"

definition same_run :: "el1_state \<times> mmio_trace \<Rightarrow> el1_state \<times> mmio_trace \<Rightarrow> bool" where
  "same_run = (\<lambda>(m, tr) (m', tr'). same_but {1} m m' \<and> tr = tr')"

definition low_char :: "u64 \<Rightarrow> char" where
  "low_char v = char_of (unat v)"

lemma low_char_of: "low_char (of_nat (of_char c)) = c"
proof -
  have "(of_char c :: nat) < 2 ^ 64"
    by (rule less_trans [of _ 256]) simp_all
  then show ?thesis
    by (simp add: low_char_def unat_of_nat)
qed

lemma handle_low_char:
  "low_char x = low_char y \<Longrightarrow>
    handle_sync_exception dev lit esr x call tr = handle_sync_exception dev lit esr y call tr"
  unfolding handle_sync_exception_def low_char_def by (simp only:)

lemma svc_gregs_nth:
  "length xs = 31 \<Longrightarrow> k < 31 \<Longrightarrow> xs[0 := a, 21 := b, 22 := c] ! k =
    (if k = 22 then c else if k = 21 then b else if k = 0 then a else xs ! k)"
  by (simp add: nth_list_update)

lemma svc_same:
  assumes same: "same_but {0, 1} m m'" and x0: "low_char (gregs m ! 0) = low_char (gregs m' ! 0)"
  shows "rel_option same_run (sync_el0_64 dev lit stack_top esr m tr) (sync_el0_64 dev lit stack_top esr m' tr)"
proof -
  note s = same [unfolded same_but_def]
  have "gregs m ! 8 = gregs m' ! 8"
    using s by simp
  then have h: "handle_sync_exception dev lit esr (gregs m ! 0) (gregs m ! 8) tr =
      handle_sync_exception dev lit esr (gregs m' ! 0) (gregs m' ! 8) tr"
    using handle_low_char [OF x0] by simp
  obtain mm mm' where
    1: "sync_el0_64 dev lit stack_top esr m tr = map_option (\<lambda>(r, tr1).
      (\<lparr>gregs = (gregs m)[0 := spsr_el1 m, 21 := sp_el1 m, 22 := stack_top], sp_el1 = sp_el1 m, elr_el1 = elr_el1 m,
        spsr_el1 = spsr_el1 m, stack_mem = mm(frame_word (stack_top - 256) 0 := r)\<rparr>, tr1))
      (handle_sync_exception dev lit esr (gregs m ! 0) (gregs m ! 8) tr)" and
    2: "sync_el0_64 dev lit stack_top esr m' tr = map_option (\<lambda>(r, tr1).
      (\<lparr>gregs = (gregs m')[0 := spsr_el1 m', 21 := sp_el1 m', 22 := stack_top], sp_el1 = sp_el1 m', elr_el1 = elr_el1 m',
        spsr_el1 = spsr_el1 m', stack_mem = mm'(frame_word (stack_top - 256) 0 := r)\<rparr>, tr1))
      (handle_sync_exception dev lit esr (gregs m' ! 0) (gregs m' ! 8) tr)"
    using sync_el0_64_eq [of m dev lit stack_top esr tr] sync_el0_64_eq [of m' dev lit stack_top esr tr] s by blast
  have "same_but {1} \<lparr>gregs = (gregs m)[0 := spsr_el1 m, 21 := sp_el1 m, 22 := stack_top], sp_el1 = sp_el1 m,
      elr_el1 = elr_el1 m, spsr_el1 = spsr_el1 m, stack_mem = f\<rparr>
    \<lparr>gregs = (gregs m')[0 := spsr_el1 m', 21 := sp_el1 m', 22 := stack_top], sp_el1 = sp_el1 m', elr_el1 = elr_el1 m',
      spsr_el1 = spsr_el1 m', stack_mem = g\<rparr>" for f g
    using s by (simp add: same_but_def svc_gregs_nth)
  then show ?thesis
    unfolding 1 2 h by (cases "handle_sync_exception dev lit esr (gregs m' ! 0) (gregs m' ! 8) tr") (auto simp: same_run_def)
qed

text \<open>The three instructions before the loop and the seven of a turn.\<close>

lemma nat_steps: "3 = Suc (Suc (Suc 0))" "7 = Suc (Suc (Suc (Suc (Suc (Suc (Suc 0))))))"
  by simp_all

lemma user_run_prompt:
  "user_run dev lit stack_top esr 3 (0, m, tr) =
    map_option (\<lambda>(m', tr'). (3, m', tr'))
      (sync_el0_64 dev lit stack_top esr (m\<lparr>gregs := (gregs m)[0 := 0x24, 8 := 1]\<rparr>) tr)"
  unfolding nat_steps(1)
  by (cases "sync_el0_64 dev lit stack_top esr (m\<lparr>gregs := (gregs m)[0 := 0x24, 8 := 1]\<rparr>) tr")
    (auto simp: user_step_def user_shell_code_def)

lemma user_run_turn:
  "user_run dev lit stack_top esr 7 (3, m, tr) =
    Option.bind (sync_el0_64 dev lit stack_top esr (m\<lparr>gregs := (gregs m)[8 := 2]\<rparr>) tr) (\<lambda>(m1, tr1).
      map_option (\<lambda>(m2, tr2). (3, m2, tr2)) (sync_el0_64 dev lit stack_top esr
        (m1\<lparr>gregs := (gregs m1)[1 := gregs m1 ! 0, 0 := (gregs m1)[1 := gregs m1 ! 0] ! 1, 8 := 1]\<rparr>) tr1))"
proof (cases "sync_el0_64 dev lit stack_top esr (m\<lparr>gregs := (gregs m)[8 := 2]\<rparr>) tr")
  case None
  then show ?thesis
    unfolding nat_steps by (simp add: user_step_def user_shell_code_def)
next
  case (Some r)
  obtain m1 tr1 where r: "r = (m1, tr1)"
    by (cases r)
  let ?m1 = "m1\<lparr>gregs := (gregs m1)[1 := gregs m1 ! 0, 0 := (gregs m1)[1 := gregs m1 ! 0] ! 1, 8 := 1]\<rparr>"
  show ?thesis
    using Some unfolding nat_steps r
    by (cases "sync_el0_64 dev lit stack_top esr ?m1 tr1") (auto simp: user_step_def user_shell_code_def)
qed

lemma rel_option_bindI:
  "rel_option R x y \<Longrightarrow> (\<And>a b. R a b \<Longrightarrow> rel_option S (f a) (g b)) \<Longrightarrow> rel_option S (Option.bind x f) (Option.bind y g)"
  by (cases x; cases y) auto

lemma same_but_regs:
  "same_but {1} m m' \<Longrightarrow> same_but {0, 1} (m\<lparr>gregs := (gregs m)[8 := v]\<rparr>) (m'\<lparr>gregs := (gregs m')[8 := v]\<rparr>)"
  by (auto simp: same_but_def nth_list_update)

definition same_config :: "el1_state \<times> mmio_trace \<Rightarrow> user_config \<Rightarrow> bool" where
  "same_config r c \<longleftrightarrow> fst c = 3 \<and> same_run r (snd c)"

lemma same_config_bind:
  assumes "rel_option same_config x y"
    and "\<And>m m' tr. same_but {1} m m' \<Longrightarrow> rel_option R (f m tr) (g (3, m', tr))"
  shows "rel_option R (Option.bind x (\<lambda>(m, tr). f m tr)) (Option.bind y g)"
proof (rule rel_option_bindI [OF assms(1)])
  fix r c
  assume "same_config r c"
  then obtain m m' tr where "r = (m, tr)" "c = (3, m', tr)" "same_but {1} m m'"
    by (cases r, cases c) (auto simp: same_config_def same_run_def)
  then show "rel_option R (case r of (m, tr) \<Rightarrow> f m tr) (g c)"
    using assms(2) by simp
qed

lemma turn_same:
  assumes "same_but {1} m m'"
  shows "rel_option same_config
    (Option.bind (sys_getc dev lit stack_top esr m tr) (\<lambda>(c, m1, tr1). sys_putc dev lit stack_top esr c m1 tr1))
    (user_run dev lit stack_top esr 7 (3, m', tr))"
proof -
  have len: "length (gregs m) = 31" "length (gregs m') = 31"
    using assms by (simp_all add: same_but_def)
  have x0: "gregs m ! 0 = gregs m' ! 0"
    using assms by (simp add: same_but_def)
  have get: "rel_option same_run (sync_el0_64 dev lit stack_top esr (m\<lparr>gregs := (gregs m)[8 := 2]\<rparr>) tr)
      (sync_el0_64 dev lit stack_top esr (m'\<lparr>gregs := (gregs m')[8 := 2]\<rparr>) tr)"
    by (rule svc_same [OF same_but_regs [OF assms]]) (simp add: x0)
  have put: "rel_option same_config (sys_putc dev lit stack_top esr (char_of (unat (gregs m1 ! 0))) m1 tr1)
      (map_option (\<lambda>(m2, tr2). (3, m2, tr2)) (sync_el0_64 dev lit stack_top esr
        (m1'\<lparr>gregs := (gregs m1')[1 := gregs m1' ! 0, 0 := (gregs m1')[1 := gregs m1' ! 0] ! 1, 8 := 1]\<rparr>) tr1))"
    if "same_but {1} m1 m1'" for m1 m1' tr1
  proof -
    let ?a = "m1\<lparr>gregs := (gregs m1)[0 := of_nat (of_char (char_of (unat (gregs m1 ! 0)))), 8 := 1]\<rparr>"
    let ?b = "m1'\<lparr>gregs := (gregs m1')[1 := gregs m1' ! 0, 0 := (gregs m1')[1 := gregs m1' ! 0] ! 1, 8 := 1]\<rparr>"
    have "same_but {0, 1} ?a ?b"
      using that by (auto simp: same_but_def nth_list_update)
    moreover have "low_char (gregs ?a ! 0) = low_char (gregs ?b ! 0)"
    proof -
      have r: "gregs m1 ! 0 = gregs m1' ! 0" "length (gregs m1) = 31" "length (gregs m1') = 31"
        using that by (simp_all add: same_but_def)
      have "gregs ?a ! 0 = of_nat (of_char (char_of (unat (gregs m1 ! 0))))"
        using r by (simp del: of_char_of)
      moreover have "gregs ?b ! 0 = gregs m1 ! 0"
        using r by simp
      ultimately show ?thesis
        by (simp only: low_char_of) (simp add: low_char_def)
    qed
    ultimately have "rel_option same_run (sync_el0_64 dev lit stack_top esr ?a tr1) (sync_el0_64 dev lit stack_top esr ?b tr1)"
      by (rule svc_same)
    then show ?thesis
      unfolding sys_putc_def option.rel_map
      by (rule option.rel_mono_strong) (auto simp: same_config_def)
  qed
  show ?thesis
    unfolding user_run_turn sys_getc_def bind_map_option Option.bind_assoc
  proof (rule rel_option_bindI [OF get])
    fix r r'
    assume "same_run r r'"
    then obtain m1 m1' tr1 where "r = (m1, tr1)" "r' = (m1', tr1)" "same_but {1} m1 m1'"
      by (auto simp: same_run_def)
    then show "rel_option same_config
        (((\<lambda>(c, m1, tr1). sys_putc dev lit stack_top esr c m1 tr1) \<circ> (\<lambda>(m', tr'). (char_of (unat (gregs m' ! 0)), m', tr'))) r)
        (case r' of (m1, tr1) \<Rightarrow> map_option (\<lambda>(m2, tr2). (3, m2, tr2)) (sync_el0_64 dev lit stack_top esr
          (m1\<lparr>gregs := (gregs m1)[1 := gregs m1 ! 0, 0 := (gregs m1)[1 := gregs m1 ! 0] ! 1, 8 := 1]\<rparr>) tr1))"
      using put by simp
  qed
qed

lemma loop_same:
  "same_but {1} m m' \<Longrightarrow>
    rel_option same_config (user_loop dev lit stack_top esr n m tr) (user_run dev lit stack_top esr (7 * n) (3, m', tr))"
proof (induction n arbitrary: m m' tr)
  case 0
  then show ?case
    by (simp add: same_config_def same_run_def)
next
  case (Suc n)
  have "user_loop dev lit stack_top esr (Suc n) m tr = Option.bind
      (Option.bind (sys_getc dev lit stack_top esr m tr) (\<lambda>(c, m1, tr1). sys_putc dev lit stack_top esr c m1 tr1))
      (\<lambda>(m2, tr2). user_loop dev lit stack_top esr n m2 tr2)"
    by (simp add: Option.bind_assoc case_prod_unfold)
  moreover have "user_run dev lit stack_top esr (7 * Suc n) (3, m', tr) =
      Option.bind (user_run dev lit stack_top esr 7 (3, m', tr)) (user_run dev lit stack_top esr (7 * n))"
    by (simp add: user_run_add [symmetric])
  ultimately show ?case
    by (simp only:) (rule same_config_bind [OF turn_same [OF Suc.prems]], rule Suc.IH)
qed

section \<open>Properties\<close>

text \<open>
  Property C34. \<open>user_shell.S\<close>, which the build puts into the kernel, is equivalent to \<open>user_shell.c\<close>: after the prompt
  and \<open>n\<close> turns of the loop, which are 3 and 7 instructions, the same characters have gone to the device,
  and the states agree up to \<open>x1\<close> and the stack; one hangs in a system call if the other does.
\<close>

theorem user_shell_asm_equals_c:
  assumes "length (gregs m) = 31"
  shows "rel_option same_config (user_start dev lit stack_top esr n m tr)
    (user_run dev lit stack_top esr (3 + 7 * n) (0, m, tr))"
proof -
  have c: "of_nat (of_char (CHR ''$'')) = (0x24 :: u64)"
    by simp
  have "same_but {1} m m"
    using assms by (simp add: same_but_def)
  then have "same_but {0, 1} (m\<lparr>gregs := (gregs m)[0 := 0x24, 8 := 1]\<rparr>) (m\<lparr>gregs := (gregs m)[0 := 0x24, 8 := 1]\<rparr>)"
    by (simp add: same_but_def)
  then have "rel_option same_run (sys_putc dev lit stack_top esr (CHR ''$'') m tr)
      (sync_el0_64 dev lit stack_top esr (m\<lparr>gregs := (gregs m)[0 := 0x24, 8 := 1]\<rparr>) tr)"
    unfolding sys_putc_def c by (rule svc_same) (rule refl)
  then have prompt: "rel_option same_config (sys_putc dev lit stack_top esr (CHR ''$'') m tr)
      (user_run dev lit stack_top esr 3 (0, m, tr))"
    unfolding user_run_prompt option.rel_map by (rule option.rel_mono_strong) (auto simp: same_config_def)
  show ?thesis
    unfolding user_start_def user_run_add
    by (rule same_config_bind [OF prompt], rule loop_same)
qed

section \<open>Concrete runs\<close>

text \<open>The prompt and a turn on a device that drains: ten instructions, as the program in C.\<close>

theorem user_shell_asm_equals_c_witness:
  "rel_option same_config (user_start ex_device (\<lambda>_. 0) 0x40080000 0x56000000 1 (ex_el1 0) [])
    (user_run ex_device (\<lambda>_. 0) 0x40080000 0x56000000 10 (0, ex_el1 0, []))"
  using user_shell_asm_equals_c [of "ex_el1 0" ex_device "\<lambda>_. 0" "0x40080000" "0x56000000" 1 "[]"]
  by (simp add: ex_el1_def)

end
