(* ===== verification/Vectors.thy ===== *)
theory Vectors
  imports Assembly Kernel
begin

text \<open>
  \<open>boot.S\<close>, and interrupts at the table of \<open>exceptions.S\<close>. The vector of system calls computes
  \<open>sync_el0_64\<close>. The source has no vector that calls \<open>handle_irq\<close>: what an interrupt does instead, in the
  kernel and in user mode.
\<close>

section \<open>Start\<close>

text \<open>\<open>_start\<close>: the vectors, the interrupt mask and the stack, then \<open>kernel_main\<close>.\<close>

definition start_state :: "u64 \<Rightarrow> u64 \<Rightarrow> board \<Rightarrow> board" where
  "start_state vectors stack_top b =
     (let pt = k_pt (b_ks b); m = pcpu pt in
      b\<lparr>b_mmu := (b_mmu b)\<lparr>vbar_el1 := vectors\<rparr>,
        b_ks := (b_ks b)\<lparr>k_pt := pt\<lparr>pcpu := m\<lparr>xregs := (xregs m)[0 := stack_top], cpu_sp := stack_top,
          cpu_daif := cpu_daif m AND NOT (push_bit 7 1)\<rparr>\<rparr>\<rparr>\<rparr>)"

text \<open>\<open>kernel_main\<close> leaves to user mode; if it came back, \<open>hang\<close> would loop for ever.\<close>

definition start :: "char list \<Rightarrow> u64 \<Rightarrow> u64 \<Rightarrow> u64 \<Rightarrow> u64 \<Rightarrow> u64 \<Rightarrow> u64 \<Rightarrow> board \<Rightarrow> (user_state \<times> board) res" where
  "start bin table vectors stack_top cntfrq process_stacks cur_el b =
     kernel_main bin table vectors cntfrq process_stacks cur_el (start_state vectors stack_top b)"

section \<open>Taking an interrupt\<close>

text \<open>
  The processor enters the table at 0x280 from EL1 with its own stack pointer and at 0x480 from EL0, if
  bit 7 of the state does not mask the interrupt; otherwise the interrupt stays pending.
\<close>

definition irq_offset :: "bool \<Rightarrow> nat" where
  "irq_offset el0 = (if el0 then 0x480 else 0x280)"

definition take_irq :: "device \<Rightarrow> (string \<Rightarrow> u64) \<Rightarrow> u64 \<Rightarrow> u64 \<Rightarrow> (nat \<Rightarrow> u64) \<Rightarrow> bool \<Rightarrow> u64 \<Rightarrow> el1_state \<Rightarrow> mmio_trace \<Rightarrow>
    (el1_state \<times> mmio_trace) option" where
  "take_irq dev lit stack_top esr clob el0 status m tr =
     (if bit status 7 then Some (m, tr) else run_vector dev lit stack_top esr clob (irq_offset el0) m tr)"

section \<open>The layout of the table\<close>

lemma length_org [simp]: "length (org off code) = max (length code) (off div 4)"
  by (simp add: org_def)

lemma vector_code:
  "drop 256 exception_vector_table = svc_entry @ svc_save @ svc_call @ svc_restore @ svc_return"
  "drop 288 exception_vector_table = drop 4 svc_restore @ svc_return"
proof -
  have "length (org 0x400 (fold (\<lambda>off code. org off code @ [B_self]) [0x000, 0x080, 0x100, 0x180, 0x200, 0x280, 0x300, 0x380] [])) = 256"
    by simp
  moreover have "length svc_entry = 4" "length svc_save = 16" "length svc_call = 8" "length svc_restore = 16"
    by (simp_all add: svc_entry_def svc_save_def svc_call_def svc_restore_def)
  ultimately show "drop 256 exception_vector_table = svc_entry @ svc_save @ svc_call @ svc_restore @ svc_return"
    "drop 288 exception_vector_table = drop 4 svc_restore @ svc_return"
    unfolding exception_vector_table_def by simp_all
qed

text \<open>A branch to itself does not end.\<close>

lemma run_vector_loop:
  assumes "off div 4 < length exception_vector_table" and "exception_vector_table ! (off div 4) = B_self"
  shows "run_vector dev lit stack_top esr clob off m tr = None"
proof -
  have "drop (off div 4) exception_vector_table = B_self # drop (Suc (off div 4)) exception_vector_table"
    using Cons_nth_drop_Suc [OF assms(1)] assms(2) by simp
  then show ?thesis
    by (simp add: run_vector_def)
qed

lemma vector_loops: "off \<in> {0x000, 0x080, 0x100, 0x180, 0x200, 0x280, 0x300, 0x380} \<Longrightarrow>
    run_vector dev lit stack_top esr clob off m tr = None"
proof (rule run_vector_loop)
  have "length exception_vector_table = 306"
    by code_simp
  then show "off div 4 < length exception_vector_table" if "off \<in> {0x000, 0x080, 0x100, 0x180, 0x200, 0x280, 0x300, 0x380}"
    using that by auto
  have "\<forall>off \<in> set [0x000, 0x080, 0x100, 0x180, 0x200, 0x280, 0x300, 0x380]. exception_vector_table ! (off div 4) = B_self"
    by code_simp
  then show "exception_vector_table ! (off div 4) = B_self" if "off \<in> {0x000, 0x080, 0x100, 0x180, 0x200, 0x280, 0x300, 0x380}"
    using that by auto
qed

text \<open>The code at 0x480, in the middle of the way back, loads \<open>x8\<close> to \<open>x30\<close>.\<close>

lemma restore_tail_effects:
  assumes "length (gregs m) = 31"
  shows "effects stack_top (drop 4 svc_restore) m =
    Some (m\<lparr>gregs := take 8 (gregs m) @ map (\<lambda>k. stack_mem m (frame_word (sp_el1 m) k)) [8..<31]\<rparr>)"
proof -
  have "[8..<31] = [8, 9, 10, 11, 12, 13, 14, 15, 16, 17, 18, 19, 20, 21, 22, 23, 24, 25, 26, 27, 28, 29, 30 :: nat]"
    by (simp add: upt_rec)
  then have "effects stack_top (drop 4 svc_restore) m =
      Some (m\<lparr>gregs := fold (\<lambda>k xs. xs[k := stack_mem m (frame_word (sp_el1 m) k)]) [8..<31] (gregs m)\<rparr>)"
    by (simp add: svc_restore_def)
  moreover have "fold (\<lambda>k xs. xs[k := f k]) [8..<31] (gregs m) = take 8 (gregs m) @ map f [8..<31]" for f
    using assms by (subst fold_list_update) simp_all
  ultimately show ?thesis
    by (simp only:)
qed

section \<open>Properties\<close>

text \<open>
  Property C33. The instructions of \<open>exceptions.S\<close> at offset 0x400 compute \<open>sync_el0_64\<close>, whatever the C
  function leaves in the registers.
\<close>

theorem vector_svc_equals_model:
  assumes "length (gregs m) = 31"
  shows "run_vector dev lit stack_top esr clob 0x400 m tr = sync_el0_64 dev lit stack_top esr m tr"
proof -
  let ?sp = "stack_top - 256" and ?xs = "(gregs m)[21 := sp_el1 m, 22 := stack_top]"
  let ?mm = "(save_frame ?sp ?xs (stack_mem m))(frame_word ?sp 31 := elr_el1 m, frame_word ?sp 32 := spsr_el1 m)"
  let ?m = "m\<lparr>gregs := ?xs[0 := ?mm (frame_word ?sp 0), 1 := ?mm (frame_word ?sp 8)], sp_el1 := ?sp, stack_mem := ?mm\<rparr>"
  let ?rest = "drop 7 svc_call @ svc_restore @ svc_return"
  have split: "svc_entry @ svc_save @ svc_call @ svc_restore @ svc_return = (svc_entry @ svc_save @ take 6 svc_call) @ Bl_handler # ?rest"
    by (simp add: svc_call_def)
  have "run_vector dev lit stack_top esr clob 0x400 m tr =
      run_code dev lit stack_top esr clob (svc_entry @ svc_save @ svc_call @ svc_restore @ svc_return) m tr"
    by (simp add: run_vector_def vector_code)
  also have "\<dots> = run_code dev lit stack_top esr clob ((svc_entry @ svc_save @ take 6 svc_call) @ Bl_handler # ?rest) m tr"
    by (simp only: split)
  also have "\<dots> = run_code dev lit stack_top esr clob (Bl_handler # ?rest) ?m tr"
    by (rule run_code_block [OF svc_before_call [OF assms]])
  also have "\<dots> = sync_el0_64 dev lit stack_top esr m tr"
    using assms unfolding run_code.simps insn.case
    by (auto simp: sync_el0_64_def Let_def svc_after_call map_option_case split: option.split prod.split)
  finally show ?thesis .
qed

text \<open>
  Property C18. No interrupt is ever handled, although they are unmasked from \<open>_start\<close> on. Taken in the kernel,
  the first one is an endless loop. Taken in user mode, which \<open>enter_usermode\<close> starts with interrupts on, it
  runs the second half of the way back from a system call: it touches no device, so the interrupt is
  not acknowledged, and continues with a return address, a status, a stack pointer and registers
  loaded from the kernel's stack, where nothing was saved.
\<close>

theorem irq_never_handled:
  assumes "length (gregs m) = 31"
  shows "take_irq dev lit stack_top esr clob False
      (cpu_daif (pcpu (k_pt (b_ks (start_state vectors stack_top b))))) m tr = None \<and>
    take_irq dev lit stack_top esr clob True (user_pstate (enter_usermode pc usp)) m tr =
      Some (let fr = (\<lambda>k. stack_mem m (frame_word (sp_el1 m) k)) in
        (m\<lparr>gregs := (take 8 (gregs m) @ map fr [8..<31])[0 := fr 32], sp_el1 := fr 21, elr_el1 := fr 31, spsr_el1 := fr 32\<rparr>, tr))"
proof
  have "run_vector dev lit stack_top esr clob 0x280 m tr = None"
    by (rule vector_loops) simp
  then show "take_irq dev lit stack_top esr clob False
      (cpu_daif (pcpu (k_pt (b_ks (start_state vectors stack_top b))))) m tr = None"
    by (simp add: take_irq_def irq_offset_def start_state_def Let_def bit_simps)
  let ?xs = "take 8 (gregs m) @ map (\<lambda>k. stack_mem m (frame_word (sp_el1 m) k)) [8..<31]"
  have "?xs ! 21 = stack_mem m (frame_word (sp_el1 m) 21)"
    using assms by (simp add: nth_append)
  then show "take_irq dev lit stack_top esr clob True (user_pstate (enter_usermode pc usp)) m tr =
      Some (let fr = (\<lambda>k. stack_mem m (frame_word (sp_el1 m) k)) in
        (m\<lparr>gregs := (take 8 (gregs m) @ map fr [8..<31])[0 := fr 32], sp_el1 := fr 21, elr_el1 := fr 31, spsr_el1 := fr 32\<rparr>, tr))"
    using assms
    by (simp add: take_irq_def irq_offset_def enter_usermode_def run_vector_def vector_code
        run_code_block [OF restore_tail_effects] svc_return_def Let_def)
qed

section \<open>Concrete runs\<close>

theorem vector_svc_equals_model_witness:
  "run_vector ex_device (\<lambda>_. 0) 0x40080000 0x56000000 (\<lambda>_. 7) 0x400 (ex_el1 1) [] =
    sync_el0_64 ex_device (\<lambda>_. 0) 0x40080000 0x56000000 (ex_el1 1) []"
  by (rule vector_svc_equals_model) (simp add: ex_el1_def)

text \<open>With an empty stack, the user's program continues at address 0.\<close>

theorem irq_never_handled_witness:
  "\<exists>m'. take_irq ex_device (\<lambda>_. 0) 0x40080000 0 (\<lambda>_. 7) True (user_pstate (enter_usermode 0x80000000 0x80010000)) (ex_el1 1) [] =
    Some (m', []) \<and> elr_el1 m' = 0 \<and> sp_el1 m' = 0"
  using irq_never_handled [of "ex_el1 1" ex_device "\<lambda>_. 0" "0x40080000" 0 "\<lambda>_. 7"]
  by (auto simp: ex_el1_def Let_def)

end
