(* ===== verification/Console.thy ===== *)
theory Console
  imports Vectors
begin

text \<open>
  What \<open>kernel_main\<close> itself prints, \<open>print_mmu_blocks\<close>, \<open>debug_dir_entry\<close> of \<open>abyssfs.c\<close>, and two programs
  that the kernel does not start, \<open>_user_entry\<close> and \<open>user_stub.S\<close>: sequences of calls to the UART driver.
\<close>

section \<open>Sequences of calls\<close>

type_synonym print = "mmio_trace \<Rightarrow> mmio_trace option"

fun in_order :: "print list \<Rightarrow> print" where
  "in_order [] tr = Some tr"
| "in_order (f # fs) tr = Option.bind (f tr) (in_order fs)"

text \<open>A string constant, at the address \<open>lit\<close> gives it, and a number.\<close>

definition say :: "device \<Rightarrow> (string \<Rightarrow> u64) \<Rightarrow> string \<Rightarrow> print" where
  "say dev lit s = uart_puts dev (lit s) s"

definition say_hex :: "device \<Rightarrow> (string \<Rightarrow> u64) \<Rightarrow> u64 \<Rightarrow> print" where
  "say_hex dev lit n = uart_hex dev (lit ''0x'') n"

section \<open>\<open>kernel.c\<close>\<close>

definition print_mmu_blocks :: "device \<Rightarrow> (string \<Rightarrow> u64) \<Rightarrow> mmu_state \<Rightarrow> print" where
  "print_mmu_blocks dev lit m = in_order
     [say dev lit ''MMU L1 Block 0: '', say_hex dev lit (mmu_get_l1_block 0 m), say dev lit [LF],
      say dev lit ''MMU L1 Block 1: '', say_hex dev lit (mmu_get_l1_block 1 m), say dev lit [LF]]"

text \<open>The two loops over the first 16 bytes of the user's program.\<close>

definition print_bytes :: "device \<Rightarrow> (string \<Rightarrow> u64) \<Rightarrow> mem \<Rightarrow> print" where
  "print_bytes dev lit m = in_order
     (concat (map (\<lambda>i. [say_hex dev lit (of_nat (of_char (m (USER_BASE + i)))), say dev lit '' '']) [0..<16]))"

text \<open>\<open>kernel_main\<close> from the copied program, of \<open>len\<close> bytes, to \<open>uart_init\<close>.\<close>

definition boot_report :: "device \<Rightarrow> (string \<Rightarrow> u64) \<Rightarrow> u64 \<Rightarrow> mem \<Rightarrow> print" where
  "boot_report dev lit len m = in_order
     [say dev lit ''User shell loaded to 0x80000000, size: '', say_hex dev lit len, say dev lit ('' bytes (hex)'' @ [LF]),
      say dev lit ''First 16 bytes of user shell: '', print_bytes dev lit m, say dev lit [LF]]"

definition boot_uart :: "device \<Rightarrow> (string \<Rightarrow> u64) \<Rightarrow> u64 \<Rightarrow> mem \<Rightarrow> print" where
  "boot_uart dev lit len m tr = map_option uart_init (boot_report dev lit len m tr)"

text \<open>
  Its reports between the creation of the user's process and the jump to user mode; at a level other
  than EL1 it prints a line and does not return.
\<close>

definition user_report :: "device \<Rightarrow> (string \<Rightarrow> u64) \<Rightarrow> mem \<Rightarrow> mmu_state \<Rightarrow> u64 \<Rightarrow> u64 \<Rightarrow> u64 \<Rightarrow> u64 \<Rightarrow> print" where
  "user_report dev lit m mmu cur_el stack_top bss_end usp tr =
     Option.bind (in_order
       [say dev lit ''user code @ 0x80000000: '', print_bytes dev lit m, say dev lit [LF], print_mmu_blocks dev lit mmu,
        say dev lit ''CurrentEL before eret: '', say_hex dev lit cur_el, say dev lit [LF]] tr) (\<lambda>tr1.
     if cur_el AND 4 = 0 then Option.bind (say dev lit (''PANIC: not in EL1!'' @ [LF]) tr1) (\<lambda>_. None)
     else in_order
       [say dev lit ''stack_top: '', say_hex dev lit stack_top, say dev lit [LF],
        say dev lit ''_bss_end: '', say_hex dev lit bss_end, say dev lit [LF],
        say dev lit ''user_shell at: '', say_hex dev lit (of_nat USER_BASE), say dev lit [LF],
        say dev lit ''user stack top: '', say_hex dev lit usp, say dev lit [LF]] tr1)"

text \<open>\<open>_user_entry\<close> is \<open>brk #0\<close>; at EL1 that enters the table at 0x200.\<close>

definition user_entry :: "device \<Rightarrow> (string \<Rightarrow> u64) \<Rightarrow> u64 \<Rightarrow> u64 \<Rightarrow> (nat \<Rightarrow> u64) \<Rightarrow> el1_state \<Rightarrow> mmio_trace \<Rightarrow>
    (el1_state \<times> mmio_trace) option" where
  "user_entry dev lit stack_top esr clob = run_vector dev lit stack_top esr clob 0x200"

section \<open>\<open>abyssfs.c\<close> and \<open>user_stub.S\<close>\<close>

text \<open>The name of the entry at offset \<open>e\<close> of the image; the image lies at \<open>base\<close>.\<close>

definition debug_dir_entry :: "device \<Rightarrow> (string \<Rightarrow> u64) \<Rightarrow> u64 \<Rightarrow> abyss \<Rightarrow> nat \<Rightarrow> print" where
  "debug_dir_entry dev lit base ab e = in_order
     [say dev lit ''Dir entry: inode='', uart_putc dev (char_of (48 + unat (get32 (disk ab) e))), say dev lit '', name='',
      uart_puts dev (base + of_nat (e + 6)) (cstring (mem_slice (disk ab) (e + 6) (DISK_SIZE - (e + 6)))), say dev lit [LF]]"

text \<open>Up to the loop of \<open>wfi\<close> at the end.\<close>

definition user_stub :: "device \<Rightarrow> (string \<Rightarrow> u64) \<Rightarrow> print" where
  "user_stub dev lit = in_order [say dev lit ''Hello from EL0'', uart_putc dev LF]"

section \<open>What is sent\<close>

lemma sends_in_order: "list_all2 sends fs ss \<Longrightarrow> sends (in_order fs) (concat ss)"
proof (induction fs ss rule: list_all2_induct)
  case Nil
  then show ?case
    using sends_nothing by (simp add: sends_def)
next
  case (Cons f fs s ss)
  then show ?case
    using sends_bind [of f s "in_order fs" "concat ss"] by (simp add: sends_def)
qed

lemma say_sends: "drains dev FR_TXFF \<Longrightarrow> drains dev FR_BUSY \<Longrightarrow> sends (say dev lit s) (crlf s)"
  by (simp add: say_def puts_sends)

definition hex_number :: "u64 \<Rightarrow> string" where
  "hex_number n = ''0x'' @ hex_digits n 16"

lemma say_hex_sends:
  assumes "drains dev FR_TXFF" and "drains dev FR_BUSY"
  shows "sends (say_hex dev lit n) (hex_number n)"
  using sends_bind [OF puts_sends [OF assms] hex_loop_sends [OF assms(1)], of "lit ''0x''" "''0x''" n 16]
  by (simp add: say_hex_def uart_hex_def hex_number_def sends_def)

lemma print_bytes_sends:
  assumes "drains dev FR_TXFF" and "drains dev FR_BUSY"
  shows "sends (print_bytes dev lit m)
    (concat (map (\<lambda>i. hex_number (of_nat (of_char (m (USER_BASE + i)))) @ '' '') [0..<16]))"
proof -
  have "list_all2 sends
      (concat (map (\<lambda>i. [say_hex dev lit (of_nat (of_char (m (USER_BASE + i)))), say dev lit '' '']) is))
      (concat (map (\<lambda>i. [hex_number (of_nat (of_char (m (USER_BASE + i)))), crlf '' '']) is))" for "is"
    using say_hex_sends [OF assms] say_sends [OF assms, of lit "'' ''"] by (induction "is") simp_all
  note list = sends_in_order [OF this, of "[0..<16]"]
  have eq: "concat (concat (map (\<lambda>i. [f i, crlf '' '']) is)) = concat (map (\<lambda>i. f i @ '' '') is)" for f "is"
    by (induction "is") simp_all
  show ?thesis
    using list unfolding print_bytes_def eq .
qed

section \<open>What is written\<close>

text \<open>Printing writes to the data register only, whether or not it ends.\<close>

definition only_data :: "mmio_trace \<Rightarrow> bool" where
  "only_data ev \<longleftrightarrow> (\<forall>reg v. Write reg v \<in> set ev \<longrightarrow> reg = UART_DR)"

definition data_only :: "print \<Rightarrow> bool" where
  "data_only f \<longleftrightarrow> (\<forall>tr tr'. f tr = Some tr' \<longrightarrow> (\<exists>ev. tr' = tr @ ev \<and> only_data ev))"

lemma data_only_bind:
  assumes "data_only f" and "data_only g"
  shows "data_only (\<lambda>tr. Option.bind (f tr) g)"
  unfolding data_only_def
proof (intro allI impI)
  fix tr tr'
  assume "Option.bind (f tr) g = Some tr'"
  then obtain tr1 where "f tr = Some tr1" "g tr1 = Some tr'"
    by (auto simp: bind_eq_Some_conv)
  then obtain e1 e2 where "tr1 = tr @ e1" "only_data e1" "tr' = tr1 @ e2" "only_data e2"
    using assms unfolding data_only_def by blast
  then show "\<exists>ev. tr' = tr @ ev \<and> only_data ev"
    by (intro exI [of _ "e1 @ e2"]) (auto simp: only_data_def)
qed

lemma data_only_Some [simp]: "data_only Some"
  by (auto simp: data_only_def only_data_def)

lemma data_only_in_order: "\<forall>f \<in> set fs. data_only f \<Longrightarrow> data_only (in_order fs)"
proof (induction fs)
  case Nil
  have "in_order [] = Some"
    by (rule ext) simp
  then show ?case
    by (simp only: data_only_Some)
next
  case (Cons f fs)
  have "in_order (f # fs) = (\<lambda>tr. Option.bind (f tr) (in_order fs))"
    by (rule ext) simp
  then show ?case
    using Cons data_only_bind by simp
qed

lemma data_only_poll: "data_only (poll dev reg flag)"
  unfolding data_only_def
proof (intro allI impI)
  fix tr tr'
  let ?Q = "\<lambda>(((dev :: device, reg :: u64), flag :: u32), tr) tr'. \<exists>ev. tr' = tr @ ev \<and> only_data ev"
  assume p: "poll dev reg flag tr = Some tr'"
  have "?Q (((dev, reg), flag), tr) tr'"
  proof (rule poll.raw_induct [OF _ p])
    fix w and dev :: device and reg :: u64 and flag :: u32 and tr tr'
    assume IH: "\<And>dev reg flag tr tr'. w dev reg flag tr = Some tr' \<Longrightarrow> ?Q (((dev, reg), flag), tr) tr'"
      and eq: "(case mmio_read dev reg tr of (v, tr1) \<Rightarrow> if v AND flag \<noteq> 0 then w dev reg flag tr1 else Some tr1) = Some tr'"
    let ?e = "Read reg (dev tr reg)"
    have e: "only_data (?e # ev) \<longleftrightarrow> only_data ev" for ev
      by (simp add: only_data_def)
    show "?Q (((dev, reg), flag), tr) tr'"
    proof (cases "dev tr reg AND flag \<noteq> 0")
      case True
      then have "w dev reg flag (tr @ [?e]) = Some tr'"
        using eq by (simp add: mmio_read_def)
      from IH [OF this] obtain ev where "tr' = (tr @ [?e]) @ ev" "only_data ev"
        by auto
      then show ?thesis
        using e by (auto intro!: exI [of _ "?e # ev"])
    next
      case False
      then show ?thesis
        using eq e [of "[]"] by (auto simp: mmio_read_def only_data_def)
    qed
  qed
  then show "\<exists>ev. tr' = tr @ ev \<and> only_data ev"
    by simp
qed

lemma data_only_putc: "data_only (uart_putc dev c)"
proof -
  have "data_only (\<lambda>tr. Some (mmio_write UART_DR (of_nat (of_char c)) tr))"
    by (auto simp: data_only_def mmio_write_def only_data_def)
  from data_only_bind [OF data_only_poll this, of dev UART_FR FR_TXFF] show ?thesis
    by (simp add: uart_putc_def [abs_def] map_conv_bind_option o_def)
qed

lemma data_only_puts: "data_only (uart_puts dev a s)"
proof -
  have "data_only (uart_puts_loop dev a s)" for a
  proof (induction s arbitrary: a)
    case Nil
    show ?case
      by (auto simp: data_only_def only_data_def)
  next
    case (Cons c s)
    have cr: "data_only (\<lambda>tr. if c = LF then uart_putc dev CR tr else Some tr)"
      using data_only_putc data_only_Some by (simp add: data_only_def)
    have idle: "data_only (\<lambda>tr. if (a + 1) mod 8 = 0 then poll dev UART_FR FR_BUSY tr else Some tr)"
      using data_only_poll data_only_Some by (simp add: data_only_def)
    note data_only_bind [OF cr data_only_bind [OF data_only_putc [of dev c] data_only_bind [OF idle Cons [of "a + 1"]]]]
    moreover have "uart_puts_loop dev a (c # s) = (\<lambda>tr. Option.bind (if c = LF then uart_putc dev CR tr else Some tr)
        (\<lambda>tr. Option.bind (uart_putc dev c tr) (\<lambda>tr.
          Option.bind (if (a + 1) mod 8 = 0 then poll dev UART_FR FR_BUSY tr else Some tr) (uart_puts_loop dev (a + 1) s))))"
      by (rule ext) simp
    ultimately show ?case
      by (simp only:)
  qed
  then show ?thesis
    using data_only_bind [OF _ data_only_poll] by (simp add: uart_puts_def [abs_def])
qed

lemma data_only_hex: "data_only (uart_hex dev a n)"
proof -
  have "data_only (uart_hex_loop dev n k)" for k
  proof (induction k)
    case (Suc k)
    have "uart_hex_loop dev n (Suc k) = (\<lambda>tr. Option.bind (uart_putc dev (hex_digit n (4 * k)) tr) (uart_hex_loop dev n k))"
      by (rule ext) simp
    then show ?case
      using data_only_bind [OF data_only_putc Suc] by (simp only:)
  qed (auto simp: data_only_def only_data_def)
  then show ?thesis
    using data_only_bind [OF data_only_puts] by (simp add: uart_hex_def [abs_def])
qed

lemma data_only_say [simp]: "data_only (say dev lit s)" "data_only (say_hex dev lit n)"
  using data_only_puts data_only_hex by (simp_all add: say_def [abs_def] say_hex_def [abs_def])

lemma digit_chars: "char_of (48 :: nat) = CHR ''0''" "char_of (49 :: nat) = CHR ''1''" "char_of (52 :: nat) = CHR ''4''"
  "char_of (53 :: nat) = CHR ''5''" "char_of (58 :: nat) = CHR '':''"
  by code_simp+

section \<open>Properties\<close>

text \<open>
  After \<open>mmu_init\<close>, \<open>print_mmu_blocks\<close> prints the descriptors of the device block and of the kernel's
  block as they are in the table.
\<close>

theorem mmu_blocks_printed:
  assumes "drains dev FR_TXFF" and "drains dev FR_BUSY" and "l1 m = boot_l1"
  shows "\<exists>ev. print_mmu_blocks dev lit (mmu_init table vectors m) tr = Some (tr @ ev) \<and> careful False ev \<and>
    sent ev = ''MMU L1 Block 0: 0x0040000000000445'' @ [CR, LF] @ ''MMU L1 Block 1: 0x0000000040000401'' @ [CR, LF]"
proof -
  let ?d0 = "0x0040000000000445 :: u64" and ?d1 = "0x0000000040000401 :: u64"
  have d: "mmu_get_l1_block 0 (mmu_init table vectors m) = ?d0" "mmu_get_l1_block 1 (mmu_init table vectors m) = ?d1"
    using boot_mmu_table [OF assms(3), of table vectors 0] boot_mmu_table [OF assms(3), of table vectors 1]
    by (simp_all add: mmu_get_l1_block_def L1_DESC_def ATTRIDX_def)
  have h: "hex_number ?d0 = ''0x0040000000000445''" "hex_number ?d1 = ''0x0000000040000401''"
    by (simp_all add: hex_number_def hex_digits_def hex_digit_nibble Let_def upt_rec digit_chars)
  note S = say_sends [OF assms(1,2)] and H = say_hex_sends [OF assms(1,2)]
  have "sends (print_mmu_blocks dev lit (mmu_init table vectors m)) (concat
      [crlf ''MMU L1 Block 0: '', hex_number ?d0, crlf [LF], crlf ''MMU L1 Block 1: '', hex_number ?d1, crlf [LF]])"
    unfolding print_mmu_blocks_def d by (rule sends_in_order) (simp only: list.rel_inject S H list.rel_intros simp_thms)
  from sendsD [OF this, of tr] show ?thesis
    unfolding h by auto
qed

text \<open>
  \<open>kernel_main\<close> prints before it initialises the UART: on a device that drains, the whole report
  of the loaded program has been written to the data register, and nothing to the control register,
  when \<open>uart_init\<close> begins.
\<close>

theorem report_before_uart_init:
  assumes "drains dev FR_TXFF" and "drains dev FR_BUSY"
  shows "\<exists>ev. boot_uart dev lit len m tr = Some (uart_init (tr @ ev)) \<and> only_data ev \<and>
    sent ev = ''User shell loaded to 0x80000000, size: '' @ hex_number len @ '' bytes (hex)'' @ [CR, LF] @
      ''First 16 bytes of user shell: '' @
      concat (map (\<lambda>i. hex_number (of_nat (of_char (m (USER_BASE + i)))) @ '' '') [0..<16]) @ [CR, LF]"
proof -
  note S = say_sends [OF assms] and H = say_hex_sends [OF assms]
  let ?bytes = "concat (map (\<lambda>i. hex_number (of_nat (of_char (m (USER_BASE + i)))) @ '' '') [0..<16])"
  have "sends (boot_report dev lit len m) (concat [crlf ''User shell loaded to 0x80000000, size: '', hex_number len,
      crlf ('' bytes (hex)'' @ [LF]), crlf ''First 16 bytes of user shell: '', ?bytes, crlf [LF]])"
    unfolding boot_report_def
    by (rule sends_in_order) (simp only: list.rel_inject S H print_bytes_sends [OF assms] list.rel_intros simp_thms)
  from sendsD [OF this, of tr] obtain ev where ev: "boot_report dev lit len m tr = Some (tr @ ev)"
    "sent ev = concat [crlf ''User shell loaded to 0x80000000, size: '', hex_number len, crlf ('' bytes (hex)'' @ [LF]),
      crlf ''First 16 bytes of user shell: '', ?bytes, crlf [LF]]"
    by blast
  have "data_only (print_bytes dev lit m)"
    unfolding print_bytes_def by (rule data_only_in_order) auto
  then have "data_only (boot_report dev lit len m)"
    unfolding boot_report_def by (intro data_only_in_order) simp
  then have "only_data ev"
    using ev(1) by (auto simp: data_only_def)
  then show ?thesis
    using ev by (intro exI [of _ ev]) (simp add: boot_uart_def)
qed

text \<open>
  \<open>debug_dir_entry\<close> means to print the number of the inode and prints one character: a digit up to
  inode 9, a colon for inode 10, which is the first file after eight others.
\<close>

theorem debug_entry_sends:
  assumes "drains dev FR_TXFF" and "drains dev FR_BUSY"
  shows "\<exists>ev. debug_dir_entry dev lit base ab e tr = Some (tr @ ev) \<and> careful False ev \<and>
    sent ev = ''Dir entry: inode='' @ [char_of (48 + unat (get32 (disk ab) e))] @ '', name='' @
      crlf (cstring (mem_slice (disk ab) (e + 6) (DISK_SIZE - (e + 6)))) @ [CR, LF]"
proof -
  let ?name = "cstring (mem_slice (disk ab) (e + 6) (DISK_SIZE - (e + 6)))"
  note S = say_sends [OF assms]
  have "sends (debug_dir_entry dev lit base ab e) (concat [crlf ''Dir entry: inode='',
      [char_of (48 + unat (get32 (disk ab) e))], crlf '', name='', crlf ?name, crlf [LF]])"
    unfolding debug_dir_entry_def
    by (rule sends_in_order) (simp only: list.rel_inject S putc_sends [OF assms(1)] puts_sends [OF assms] list.rel_intros simp_thms)
  from sendsD [OF this, of tr] show ?thesis
    by auto
qed

lemma user_entry_hangs: "user_entry dev lit stack_top esr clob m tr = None"
  unfolding user_entry_def by (rule vector_loops) simp

lemma user_stub_sends: "drains dev FR_TXFF \<Longrightarrow> drains dev FR_BUSY \<Longrightarrow> sends (user_stub dev lit) (''Hello from EL0'' @ [LF])"
  using sends_in_order [of "[say dev lit ''Hello from EL0'', uart_putc dev LF]" "[crlf ''Hello from EL0'', [LF]]"]
    say_sends [of dev lit "''Hello from EL0''"] putc_sends [of dev LF]
  by (simp add: user_stub_def)

section \<open>Concrete runs\<close>

theorem mmu_blocks_printed_witness:
  "\<exists>ev. print_mmu_blocks ex_device (\<lambda>_. 0) (mmu_init 0 0 ex_mmu) [] = Some ev \<and>
    sent ev = ''MMU L1 Block 0: 0x0040000000000445'' @ [CR, LF] @ ''MMU L1 Block 1: 0x0000000040000401'' @ [CR, LF]"
  using mmu_blocks_printed [OF ex_device_drains ex_device_drains, of ex_mmu "\<lambda>_. 0" 0 0 "[]"]
  by (auto simp: ex_mmu_def)

theorem report_before_uart_init_witness:
  "\<exists>ev. boot_uart ex_device (\<lambda>_. 0) 40 zero_mem [] = Some (uart_init ev) \<and> only_data ev \<and> ev \<noteq> []"
proof -
  obtain ev where "boot_uart ex_device (\<lambda>_. 0) 40 zero_mem [] = Some (uart_init ([] @ ev))" "only_data ev" "sent ev \<noteq> []"
    using report_before_uart_init [OF ex_device_drains ex_device_drains, of "\<lambda>_. 0" 40 zero_mem "[]"] by auto
  then show ?thesis
    by auto
qed

text \<open>An entry for inode 10 with an empty name.\<close>

theorem debug_entry_sends_witness:
  "\<exists>ev. debug_dir_entry ex_device (\<lambda>_. 0) 0 (zero_abyss\<lparr>disk := put32 zero_mem 0 10\<rparr>) 0 [] = Some ev \<and>
    take 18 (sent ev) = ''Dir entry: inode=:''"
  using debug_entry_sends [OF ex_device_drains ex_device_drains, of "\<lambda>_. 0" 0 "zero_abyss\<lparr>disk := put32 zero_mem 0 10\<rparr>" 0 "[]"]
  by (auto simp: digit_chars)

end
