(* ===== verification/Shell_Run.thy ===== *)
theory Shell_Run
  imports Shell_Spec
begin

text \<open>
  The whole shell on what is typed into it: the loop over characters of \<open>shell\<close> against a batch
  interpreter that is given the lines.
\<close>

section \<open>Lines\<close>

text \<open>The reference: the commands of the lines in order, until one of them is \<open>exit\<close>.\<close>

fun batch :: "char list \<Rightarrow> (dirent list \<Rightarrow> dirent list) \<Rightarrow> u64 \<Rightarrow> string list \<Rightarrow> kstate \<Rightarrow> command_result" where
  "batch junk left process_stacks [] ks = Inr ([], ks)"
| "batch junk left process_stacks (line # lines) ks =
     bind_res (run_command junk left process_stacks (fst (command_of line)) (snd (command_of line)) ks) (\<lambda>nx.
       case nx of
         Exited ks1 \<Rightarrow> Inr ([], ks1)
       | Continue out ks1 \<Rightarrow>
           map_res (\<lambda>(out', ks2). (out @ out', ks2)) (batch junk left process_stacks lines ks1))"

text \<open>Keys that do not fill the line or end it.\<close>

definition keys :: "char list \<Rightarrow> bool" where
  "keys cs \<longleftrightarrow> length cs < 255 \<and> (\<forall>c \<in> set cs. \<not> ends_line c)"

lemma read_line_waits:
  assumes "keys cs" and "length input = 256"
  shows "read_line input 0 cs = None"
proof -
  let ?s = "fold type_char cs []"
  have "length ?s < 255"
    using fold_type_char_length [of cs "[]"] assms(1) by (simp add: keys_def)
  moreover obtain i where "read_line input 0 cs = read_line i (length ?s) []"
    using read_line_typed [of cs "[]" input "[]"] assms by (auto simp: keys_def)
  ultimately show ?thesis
    by (simp add: read_line.simps)
qed

lemma shell_batch:
  assumes "length input = 256" and "\<forall>(cs, e) \<in> set typed. keys cs \<and> ends_line e" and "keys rest"
  shows "shell junk left process_stacks input (concat (map (\<lambda>(cs, e). cs @ [e]) typed) @ rest) ks =
    batch junk left process_stacks (map (\<lambda>(cs, e). fold type_char cs []) typed) ks"
  using assms(1,2)
proof (induction typed arbitrary: input ks)
  case Nil
  then show ?case
    using read_line_waits [OF assms(3)] by (subst shell.simps) simp
next
  case (Cons t typed)
  obtain cs e where t: "t = (cs, e)"
    by (cases t)
  let ?line = "fold type_char cs []"
  let ?rest = "concat (map (\<lambda>(cs, e). cs @ [e]) typed) @ rest"
  obtain i where i: "read_line input 0 (cs @ e # ?rest) = Some (i, length ?line, ?rest)"
    "split_line i (length ?line) = Inr (command_of ?line)" "length i = 256"
    using line_typed [of input cs e ?rest] Cons.prems by (auto simp: t keys_def)
  have IH: "shell junk left process_stacks i ?rest ks1 =
      batch junk left process_stacks (map (\<lambda>(cs, e). fold type_char cs []) typed) ks1" for ks1
    using Cons.IH [OF i(3)] Cons.prems(2) by simp
  have "shell junk left process_stacks input (cs @ e # ?rest) ks =
      bind_res (run_command junk left process_stacks (fst (command_of ?line)) (snd (command_of ?line)) ks) (\<lambda>nx.
        case nx of Exited ks1 \<Rightarrow> Inr ([], ks1)
        | Continue out ks1 \<Rightarrow> map_res (\<lambda>(out', ks2). (out @ out', ks2)) (shell junk left process_stacks i ?rest ks1))"
    using i(1,2) by (subst shell.simps) (simp add: split_beta)
  then show ?case
    by (simp add: t IH cong: shell_next.case_cong)
qed

section \<open>Properties\<close>


section \<open>Concrete runs\<close>


end
