(* ===== verification/Shell_Files.thy ===== *)
theory Shell_Files
  imports Shell_Run Shell_Copy
begin

text \<open>
  Commands of the shell on files of /tmp, from the typed characters down to the map from paths to
  contents: through the line editor, the dispatch of commands, the system calls, the mounts and the RAM
  file system.
\<close>

section \<open>Listings\<close>

text \<open>
  A listing that is not cut off: the two dots and the names directly below the directory. Two dots and
  sixteen files fit into the 32 entries of a request.
\<close>

lemma ramfs_listing_names:
  assumes "ramfs_ok files"
  shows "d_name ` set (snd (ramfs_read_dir d 32 files)) =
    {''.'', ''..''} \<union> {b. CHR ''/'' \<notin> set b \<and> ramfs_look files (d @ ''/'' @ b) \<noteq> None}"
proof -
  have "length (ramfs_entries d 0 files) \<le> length files"
    unfolding ramfs_entries_def by (rule order_trans [OF length_filter_le]) simp
  then have "length (map ramfs_dirent (ramfs_entries d 0 files)) \<le> 30"
    using ramfs_ok_length [OF assms] by simp
  then have all: "snd (ramfs_read_dir d 32 files) = \<lparr>d_inode = 1, d_name = ''.''\<rparr> # \<lparr>d_inode = 1, d_name = ''..''\<rparr> #
      map ramfs_dirent (ramfs_entries d 0 files)"
    by (simp add: ramfs_read_dir_eq)
  have "d_name ` ramfs_dirent ` set (ramfs_entries d 0 files) = {b. CHR ''/'' \<notin> set b \<and> ramfs_look files (d @ ''/'' @ b) \<noteq> None}"
    (is "?l = ?r")
  proof (intro equalityI subsetI)
    fix b
    assume "b \<in> ?l"
    then obtain i f where f: "(i, f) \<in> set (List.enumerate 0 files)" "rf_used f" "is_file_in_dir (rf_path f) d"
      "b = get_basename (rf_path f)"
      by (auto simp: ramfs_entries_def ramfs_dirent_def)
    then obtain b' where b': "rf_path f = d @ CHR ''/'' # b'" "CHR ''/'' \<notin> set b'"
      by (auto simp: is_file_in_dir_iff)
    moreover have "f \<in> set files"
      using f(1) by (auto simp: in_set_enumerate_eq)
    ultimately show "b \<in> ?r"
      using f(2,4) by (auto simp: get_basename_eq ramfs_look_def ramfs_index_def first_index_None)
  next
    fix b
    assume b: "b \<in> ?r"
    then obtain i where i: "i < length files" "rf_used (files ! i)" "rf_path (files ! i) = d @ CHR ''/'' # b"
      by (auto simp: ramfs_look_def dest: ramfs_index_SomeD)
    then have "(i, files ! i) \<in> set (ramfs_entries d 0 files)"
      using b by (auto simp: ramfs_entries_def in_set_enumerate_eq is_file_in_dir_iff)
    moreover have "d_name (ramfs_dirent (i, files ! i)) = b"
      using b i(3) by (simp add: ramfs_dirent_def get_basename_eq)
    ultimately show "b \<in> ?l"
      by force
  qed
  then show ?thesis
    unfolding all by (auto simp: image_image)
qed

section \<open>The commands\<close>

lemma tmp_path:
  assumes "prefix ''/tmp/'' p"
  shows "p \<noteq> []" "prefix ''/'' p" "prefix ''/tmp'' p"
  using assms by (auto elim!: prefixE)

text \<open>\<open>touch\<close> fills the first free slot and leaves no open descriptor, though one fewer.\<close>

lemma cmd_touch_tmp:
  assumes p: "prefix ''/tmp/'' p" "length p < MAX_PATH" and slot: "first_index (\<lambda>f. \<not> rf_used f) (k_ramfs ks) = Some i"
    and heap: "kalloc sizeof_vfs_file (k_heap ks) = (Some a, h)" and fds: "next_fd ks < MAX_FD" "length (fd_table ks) = MAX_FD"
  obtains ks' where "cmd_touch (Some p) ks = Inr ([], ks')" "k_heap ks' = h"
    "k_ramfs ks' = (k_ramfs ks)[i := new_ramfs_file p (k_ramfs ks ! i)]" "next_fd ks' = next_fd ks + 1"
    "length (fd_table ks') = MAX_FD" "k_pt ks' = k_pt ks" "mount_points ks' = mount_points ks" "k_abyss ks' = k_abyss ks"
proof -
  let ?ks1 = "ks\<lparr>k_heap := h, k_ramfs := (k_ramfs ks)[i := new_ramfs_file p (k_ramfs ks ! i)]\<rparr>"
  let ?ks2 = "snd (alloc_fd (tmp_handle [] i) ?ks1)" and ?fd = "int (next_fd ks)"
  note a = alloc_fd_some [where ks = ?ks1 and f = "tmp_handle [] i"]
  have "vfs_create p ks = Inr (?fd, ?ks2)"
    using vfs_create_tmp_eq [OF p slot heap] a(1) fds by (simp add: prod_eq_iff)
  moreover have "vfs_close ?fd ?ks2 = (0, set_file ?fd None ?ks2)"
    using a(2) fds by (simp add: vfs_close_def)
  ultimately have "cmd_touch (Some p) ks = Inr ([], set_file ?fd None ?ks2)"
    using tmp_path(1) [OF p(1)] by (simp add: cmd_touch_def)
  then show thesis
    using a(3,4) fds by (intro that [of "set_file ?fd None ?ks2"]) simp_all
qed

lemma cmd_rm_tmp:
  assumes p: "prefix ''/tmp/'' p" "length p < VFS_MAX_PATH" "CHR '' '' \<notin> set p" and m: "booted_mounts ks"
    and u: "ramfs_unlink p (k_ramfs ks) = (0, files)"
  shows "cmd_rm (Some p) ks = Inr ([], ks\<lparr>k_ramfs := files\<rparr>)"
proof -
  note path = tmp_path [OF p(1)]
  obtain mp where "find_mount p ks = Some mp" "mp_fs mp = Ramfs_Type"
    using find_mount_booted [OF m path(2)] path by auto
  then have "vfs_unlink p ks = Inr (0, ks\<lparr>k_ramfs := files\<rparr>)"
    using path(2) p(2) u by (simp add: vfs_unlink_def absolute_path_abs fs_unlink_def)
  moreover have "tokens {CHR '' ''} p = [p]" "p \<noteq> ''-r''"
    using path(1) p by (auto intro!: tokens_single elim!: prefixE)
  ultimately show ?thesis
    using path(1) by (simp add: cmd_rm_def)
qed

text \<open>\<open>ls\<close> prints what is left of the entries in the dead frame of the handler.\<close>

lemma cmd_ls_tmp:
  assumes ns: "current_ns ks = Some []" and m: "booted_mounts ks"
  shows "cmd_ls left process_stacks (Some ''/tmp'') ks =
    Inr (concat (map (\<lambda>d. d_name d @ [NEWLINE]) (left (snd (ramfs_read_dir ''/tmp'' 32 (k_ramfs ks))))), ks)"
proof -
  obtain mp where "find_mount ''/tmp'' ks = Some mp" "mp_fs mp = Ramfs_Type"
    using find_mount_booted [OF m, of "''/tmp''"] by auto
  moreover have "fst (ramfs_read_dir ''/tmp'' 32 (k_ramfs ks)) = 0"
    by (simp add: ramfs_read_dir_eq)
  ultimately have "vfs_read_dir ''/tmp'' 32 ks = Inr (0, snd (ramfs_read_dir ''/tmp'' 32 (k_ramfs ks)), ks)"
    using ns by (simp add: vfs_read_dir_def resolve_namespace_path_def fs_read_dir_def prod_eq_iff split_beta)
  then show ?thesis
    by (simp add: cmd_ls_def send_message_def handle_read_dir_message_def zero_message_def)
qed

section \<open>Typed lines\<close>

definition printable :: "string \<Rightarrow> bool" where
  "printable s \<longleftrightarrow> (\<forall>c \<in> set s. 32 \<le> (of_char c :: nat) \<and> (of_char c :: nat) \<le> 126)"

definition type_lines :: "string list \<Rightarrow> string" where
  "type_lines ls = concat (map (\<lambda>l. l @ [NEWLINE]) ls)"

lemma printable_append [simp]: "printable (s @ t) \<longleftrightarrow> printable s \<and> printable t"
  by (auto simp: printable_def)

lemma printable_typed: "printable l \<Longrightarrow> fold type_char l s = s @ l"
proof (induction l arbitrary: s)
  case (Cons c l)
  then have "type_char c s = s @ [c]"
    by (auto simp: printable_def type_char_def)
  then show ?case
    using Cons by (simp add: printable_def)
qed simp

lemma printable_keys: "printable l \<Longrightarrow> length l < 255 \<Longrightarrow> keys l"
  by (auto simp: printable_def keys_def)

lemma shell_type_lines:
  assumes "length input = 256" and "\<forall>l \<in> set ls. printable l \<and> length l < 255"
  shows "shell junk left process_stacks input (type_lines ls) ks = batch junk left process_stacks ls ks"
proof -
  let ?typed = "map (\<lambda>l. (l, NEWLINE)) ls"
  have k: "\<forall>(cs, e) \<in> set ?typed. keys cs \<and> ends_line e" "keys []"
    using assms(2) printable_keys by (auto simp: keys_def)
  have "map (\<lambda>l. fold type_char l []) ls = ls"
    using assms(2) by (intro map_idI) (simp add: printable_typed)
  then have l: "map (\<lambda>(cs, e). fold type_char cs []) ?typed = ls"
    by (simp add: o_def)
  have t: "concat (map (\<lambda>(cs, e). cs @ [e]) ?typed) @ [] = type_lines ls"
    by (simp add: type_lines_def o_def)
  show ?thesis
    using shell_batch [OF assms(1) k, of junk left process_stacks ks] unfolding l t .
qed

lemma command_of_words [simp]: "CHR '' '' \<notin> set w \<Longrightarrow> command_of (w @ '' '' @ a) = (w, Some a)"
  by (simp add: command_of_def takeWhile_append dropWhile_append)

section \<open>A path in two slots\<close>

text \<open>The slots that hold a path; the lowest one is what the path means.\<close>

definition holders :: "ramfs_file list \<Rightarrow> string \<Rightarrow> nat set" where
  "holders fs p = {k. k < length fs \<and> rf_used (fs ! k) \<and> rf_path (fs ! k) = p}"

lemma finite_holders [simp]: "finite (holders fs p)"
  by (simp add: holders_def)

lemma ramfs_index_holders: "ramfs_index fs p = Some i \<longleftrightarrow> i \<in> holders fs p \<and> (\<forall>k \<in> holders fs p. i \<le> k)"
  unfolding ramfs_index_def first_index_Some holders_def
  by (auto simp: not_less [symmetric] dest: less_trans)

lemma ramfs_look_holders: "i \<in> holders fs p \<Longrightarrow> \<forall>k \<in> holders fs p. i \<le> k \<Longrightarrow> ramfs_look fs p = Some (rf_data (fs ! i))"
  using ramfs_index_holders [of fs p i] by (simp add: ramfs_look_def)

lemma holders_unique: "ramfs_unique fs \<Longrightarrow> ramfs_index fs p = Some i \<Longrightarrow> holders fs p = {i}"
  using ramfs_index_SomeD [of fs p i] by (auto simp: holders_def ramfs_unique_def)

lemma holders_new: "j < length fs \<Longrightarrow> \<not> rf_used (fs ! j) \<Longrightarrow> holders (fs[j := new_ramfs_file p (fs ! j)]) p = insert j (holders fs p)"
  by (auto simp: holders_def nth_list_update new_ramfs_file_def split: if_splits)

text \<open>Removing a path frees its lowest slot and keeps the rest.\<close>

lemma unlink_lowest:
  assumes "i \<in> holders fs p" and "\<forall>k \<in> holders fs p. i \<le> k"
  shows "\<exists>fs'. ramfs_unlink p fs = (0, fs') \<and> holders fs' p = holders fs p - {i} \<and> length fs' = length fs \<and>
    (\<forall>k. k \<noteq> i \<longrightarrow> fs' ! k = fs ! k) \<and> (\<forall>r. r \<noteq> p \<longrightarrow> ramfs_look fs' r = ramfs_look fs r)"
proof -
  let ?f = "(fs ! i)\<lparr>rf_used := False, rf_size := 0\<rparr>"
  have i: "ramfs_index fs p = Some i"
    using assms by (simp add: ramfs_index_holders)
  note d = ramfs_index_SomeD [OF i]
  have "ramfs_unlink p fs = (0, fs[i := ?f])"
    using i by (simp add: ramfs_unlink_def ramfs_index_def)
  moreover have "holders (fs[i := ?f]) p = holders fs p - {i}"
    using d by (auto simp: holders_def nth_list_update split: if_splits)
  moreover have "ramfs_look (fs[i := ?f]) r = ramfs_look fs r" if "r \<noteq> p" for r
    using d that by (intro ramfs_look_update_other) auto
  ultimately show ?thesis
    by (intro exI [of _ "fs[i := ?f]"]) simp
qed

section \<open>Properties\<close>


text \<open>
  Property C37. \<open>touch\<close> of a file that exists makes a second one of the same path. The one in the lower slot hides the
  other: either the old content is hidden at once, or the empty file is there after the old one was
  removed. It takes two \<open>rm\<close> to remove the path.
\<close>

theorem touch_duplicates:
  assumes ok: "ramfs_unique (k_ramfs ks)" and p: "prefix ''/tmp/'' p" "length p < MAX_PATH" "CHR '' '' \<notin> set p"
    and i: "ramfs_index (k_ramfs ks) p = Some i" and slot: "first_index (\<lambda>f. \<not> rf_used f) (k_ramfs ks) = Some j"
    and heap: "kalloc sizeof_vfs_file (k_heap ks) = (Some a, h)"
    and fds: "next_fd ks < MAX_FD" "length (fd_table ks) = MAX_FD" and m: "booted_mounts ks"
  defines "d \<equiv> rf_data (k_ramfs ks ! i)"
  shows "\<exists>ks1 ks2 ks3. cmd_touch (Some p) ks = Inr ([], ks1) \<and> cmd_rm (Some p) ks1 = Inr ([], ks2) \<and>
      cmd_rm (Some p) ks2 = Inr ([], ks3) \<and>
    ramfs_look (k_ramfs ks1) p = Some (if j < i then [] else d) \<and>
    ramfs_look (k_ramfs ks2) p = Some (if j < i then d else []) \<and>
    ramfs_look (k_ramfs ks3) = (ramfs_look (k_ramfs ks))(p := None)"
proof -
  let ?fs = "k_ramfs ks"
  define fs1 where "fs1 = ?fs[j := new_ramfs_file p (?fs ! j)]"
  have j: "j < length ?fs" "\<not> rf_used (?fs ! j)" and ij: "i \<noteq> j"
    using first_index_SomeD [OF slot] ramfs_index_SomeD [OF i] by auto
  obtain ks1 where t: "cmd_touch (Some p) ks = Inr ([], ks1)" "k_ramfs ks1 = fs1" "mount_points ks1 = mount_points ks"
    by (rule cmd_touch_tmp [OF p(1,2) slot heap fds]) (simp add: fs1_def)
  have h1: "holders fs1 p = {i, j}"
    using holders_new [OF j, of p] holders_unique [OF ok i] by (auto simp: fs1_def)
  have new: "rf_data (fs1 ! j) = []" "fs1 ! i = ?fs ! i"
    using j ij by (simp_all add: fs1_def rf_data_def new_ramfs_file_def mem_slice_def)
  have other: "ramfs_look fs1 r = ramfs_look ?fs r" if "r \<noteq> p" for r
    unfolding fs1_def using j that by (intro ramfs_look_update_other) (simp_all add: new_ramfs_file_def)
  let ?k = "min i j" and ?l = "max i j"
  have lk: "?l \<noteq> ?k" "{i, j} - {?k} = {?l}"
    using ij by (auto simp: min_def max_def)
  obtain fs2 where u1: "ramfs_unlink p fs1 = (0, fs2)" "holders fs2 p = {?l}" "fs2 ! ?l = fs1 ! ?l"
    "\<forall>r. r \<noteq> p \<longrightarrow> ramfs_look fs2 r = ramfs_look fs1 r"
    using unlink_lowest [of ?k fs1 p] h1 lk by (auto simp: min_def max_def split: if_splits)
  obtain fs3 where u2: "ramfs_unlink p fs2 = (0, fs3)" "holders fs3 p = {}" "\<forall>r. r \<noteq> p \<longrightarrow> ramfs_look fs3 r = ramfs_look fs2 r"
    using unlink_lowest [of ?l fs2 p] u1(2) by auto
  have m': "booted_mounts ks1" "booted_mounts (ks1\<lparr>k_ramfs := fs2\<rparr>)"
    using m t(3) by (simp_all add: booted_mounts_def)
  have r1: "cmd_rm (Some p) ks1 = Inr ([], ks1\<lparr>k_ramfs := fs2\<rparr>)"
    using p u1(1) t(2) by (intro cmd_rm_tmp [OF _ _ _ m'(1)]) simp_all
  have r2: "cmd_rm (Some p) (ks1\<lparr>k_ramfs := fs2\<rparr>) = Inr ([], ks1\<lparr>k_ramfs := fs3\<rparr>)"
    using cmd_rm_tmp [OF p(1) _ p(3) m'(2), of fs3] p(2) u2(1) by simp
  have "ramfs_look fs1 p = Some (rf_data (fs1 ! ?k))" "ramfs_look fs2 p = Some (rf_data (fs1 ! ?l))"
    using ramfs_look_holders [of ?k fs1 p] ramfs_look_holders [of ?l fs2 p] h1 u1(2,3) by (auto simp: min_def)
  then have "ramfs_look fs1 p = Some (if j < i then [] else d)" "ramfs_look fs2 p = Some (if j < i then d else [])"
    using new(1,2) ij by (auto simp: d_def min_def max_def)
  moreover have "ramfs_index fs3 p = None"
    using ramfs_index_holders [of fs3 p] u2(2) by (cases "ramfs_index fs3 p") auto
  then have "ramfs_look fs3 = (ramfs_look ?fs)(p := None)"
    using u1(4) u2(3) other by (auto simp: fun_eq_iff ramfs_look_def)
  ultimately show ?thesis
    using t(1,2) r1 r2
    by (intro exI [of _ ks1] exI [of _ "ks1\<lparr>k_ramfs := fs2\<rparr>"] exI [of _ "ks1\<lparr>k_ramfs := fs3\<rparr>"]) simp
qed

section \<open>Concrete runs\<close>

lemma ex_with_file_kalloc: "kalloc sizeof_vfs_file (k_heap ex_with_file) = (Some 0, 304)"
  by (simp add: kalloc_def ex_with_file_facts)


theorem touch_duplicates_witness:
  "\<exists>ks1 ks2. cmd_touch (Some ''/tmp/a'') ex_with_file = Inr ([], ks1) \<and> cmd_rm (Some ''/tmp/a'') ks1 = Inr ([], ks2) \<and>
    ramfs_look (k_ramfs ks1) ''/tmp/a'' = Some ''hi!'' \<and> ramfs_look (k_ramfs ks2) ''/tmp/a'' = Some []"
proof -
  obtain i where i: "ramfs_index (k_ramfs ex_with_file) ''/tmp/a'' = Some i" "rf_data (k_ramfs ex_with_file ! i) = ''hi!''"
    using ex_with_file_facts(6) by (auto simp: ramfs_look_def)
  have "i \<noteq> 1"
    using ramfs_index_SomeD [OF i(1)] first_index_SomeD [OF ex_with_file_facts(8)] by auto
  moreover have "\<not> 1 < i"
    using i(1) by (auto simp: ex_with_file_def ramfs_index_def ramfs_init_numeral new_ramfs_file_def)
  ultimately show ?thesis
    using touch_duplicates [OF ex_with_file_ok(2) _ _ _ i(1) ex_with_file_facts(8) ex_with_file_kalloc _ ex_with_file_facts(3,5)]
      ex_with_file_facts(2) i(2) by auto
qed

end
