(* ===== verification/Abyss_Nested.thy ===== *)
theory Abyss_Nested
  imports Abyss_Theorems
begin

text \<open>
  Directories below the root of AbyssFS: creating a file while the working directory is a directory of
  /, finding it by its path, and what \<open>abyssfs_remove_recursive\<close> does with such a directory.
\<close>

section \<open>Directories of the root\<close>

text \<open>The block of inode \<open>n\<close> holds the directory entries \<open>es\<close>.\<close>

definition holds_dir :: "abyss \<Rightarrow> nat \<Rightarrow> (u32 \<times> string) list \<Rightarrow> bool" where
  "holds_dir ab n es \<longleftrightarrow> owner ab n \<and> n \<noteq> 1 \<and> blk ab n \<noteq> 0 \<and>
     es \<noteq> [] \<and> dir_ok (disk ab) (4096 * blk ab n) (butlast es) (last es)"

text \<open>The working directory is the directory \<open>d\<close> of the root.\<close>

definition in_dir :: "char list option \<Rightarrow> string \<Rightarrow> bool" where
  "in_dir wd d \<longleftrightarrow> (\<exists>buf. wd = Some buf \<and> cstring buf = ''/'' @ d)"

lemma holds_dir_ok:
  assumes "holds_dir ab n es"
  shows "butlast es @ [last es] = es" "dir_ok (disk ab) (4096 * blk ab n) (butlast es) (last es)"
  using assms by (simp_all add: holds_dir_def)

lemma dir_pre_names: "dir_pre m e xs \<Longrightarrow> x \<in> set xs \<Longrightarrow> name_ok (snd x)"
  by (induction xs arbitrary: e) (auto simp: entry_at_def)

lemma holds_dir_names: "holds_dir ab n es \<Longrightarrow> x \<in> set es \<Longrightarrow> name_ok (snd x)"
proof -
  assume h: "holds_dir ab n es" and "x \<in> set es"
  then have "x \<in> set (butlast es @ [last es])"
    unfolding holds_dir_ok(1) [OF h] by simp
  then show ?thesis
    using dir_okD(2) [OF holds_dir_ok(2) [OF h]] dir_pre_names [OF dir_okD(1) [OF holds_dir_ok(2) [OF h]], of x]
    by (auto simp: entry_at_def)
qed

lemma holds_dirD:
  assumes "abyss_inv ab fs" and "holds_dir ab n es"
  shows "n < 512" "10 \<le> blk ab n" "blk ab n < 64" "i_blocks ab (inode_addr n) \<noteq> 0"
    "get_block ab (i_blocks ab (inode_addr n)) = Some (4096 * blk ab n)"
proof -
  note d = abyss_invD [OF assms(1)]
  have n: "owner ab n" "n \<noteq> 1" "blk ab n \<noteq> 0"
    using assms(2) by (simp_all add: holds_dir_def)
  note b = blocks_okD [OF d(6) n(1,3)]
  have "blk ab n \<noteq> 9"
    using b(4) [OF root_owner [OF assms(1)]] d(5) n(2) by auto
  then show "10 \<le> blk ab n" "blk ab n < 64"
    using b(1,2) by simp_all
  show "n < 512"
    using n(1) by (simp add: owner_def)
  show "i_blocks ab (inode_addr n) \<noteq> 0"
    using n(3) by (auto simp: blk_def)
  show "get_block ab (i_blocks ab (inode_addr n)) = Some (4096 * blk ab n)"
    using get_block_geometry [OF d(1)] b(2) by (simp add: blk_def)
qed

lemma holds_dir_in_disk: "abyss_inv ab fs \<Longrightarrow> holds_dir ab n es \<Longrightarrow> 4096 * blk ab n + BLOCK_SIZE \<le> DISK_SIZE"
  using holds_dirD(3) by fastforce

lemma read_dir_in:
  assumes inv: "abyss_inv ab fs" and d: "(w, d) \<in> set fs" "holds_dir ab (unat w) es" and p: "skip_slashes path = d"
  shows "abyssfs_read_dir path cnt ab = Inr (0, map abyss_dirent (take cnt es))"
proof -
  note h = holds_dirD [OF inv d(2)]
  have "file_name d"
    using files_okD [OF abyss_invD(3) [OF inv] d(1)] by simp
  moreover have "dir_copy (disk ab) (4096 * blk ab (unat w)) cnt = Inr (map abyss_dirent (take cnt es))"
    using dir_copy_ok [OF holds_dir_ok(2) [OF d(2)] holds_dir_in_disk [OF inv d(2)], of cnt]
    unfolding holds_dir_ok(1) [OF d(2)] .
  ultimately show ?thesis
    using get_inode_by_path_root [OF inv d(1)] h(5) p by (simp add: abyssfs_read_dir_def Let_def file_name_def)
qed

lemma cwd_inode_in:
  assumes inv: "abyss_inv ab fs" and d: "(w, d) \<in> set fs" and "in_dir wd d"
  shows "cwd_inode wd ab = Inr (Some (inode_addr (unat w)))"
proof -
  obtain buf where b: "wd = Some buf" "cstring buf = ''/'' @ d"
    using assms(3) by (auto simp: in_dir_def)
  have "d \<noteq> []"
    using files_okD(1) [OF abyss_invD(3) [OF inv] d] by (simp add: file_name_def)
  moreover have "cstring (tl buf) = d"
    using b(2) by (cases buf) (auto simp: cstring_def split: if_splits)
  ultimately show ?thesis
    using b get_inode_by_path_root [OF inv d] by (simp add: cwd_inode_def)
qed

lemma holds_dir_inode:
  assumes inv: "abyss_inv ab fs" and d: "holds_dir ab n es" and oi: "only_inode q ab ab'" "q < 512" "n \<noteq> q"
  shows "holds_dir ab' n es"
proof -
  note o = only_inode_other [OF oi(1,3)]
  have "disk ab' a = disk ab a" if "ROOT_BLOCK \<le> a" for a
    using oi(1) inode_region [OF oi(2)] that by (simp add: only_inode_def)
  then have "dir_ok (disk ab') (4096 * blk ab n) (butlast es) (last es)"
    using holds_dirD(2) [OF inv d] by (intro dir_ok_cong [OF holds_dir_ok(2) [OF d]]) simp
  then show ?thesis
    using d o by (simp add: holds_dir_def owner_def)
qed

lemma alloc_inode_full: "geometry ab \<Longrightarrow> alloc_inode ab = (v, ab') \<Longrightarrow> 1 \<le> j \<Longrightarrow> j < 512 \<Longrightarrow> mode_of ab j = 0 \<Longrightarrow> v \<noteq> 0"
proof
  assume a: "geometry ab" "alloc_inode ab = (v, ab')" "1 \<le> j" "j < 512" "mode_of ab j = 0" and "v = 0"
  then have "List.find (\<lambda>i. mode_of ab i = 0) [1..<512] = None"
    using alloc_inode_eq [OF a(1)]
    by (auto simp: unat_eq_0 [symmetric] unat_of_nat find_upt_Some split: option.splits)
  then show False
    using a(3-5) unfolding find_upt_None by blast
qed

text \<open>The entry that \<open>create_file\<close> appends.\<close>

lemma create_file_in:
  assumes inv: "abyss_inv ab fs" and d: "(w, d) \<in> set fs" "holds_dir ab (unat w) es" "in_dir wd d"
    and n: "abyss_basename path = n" "name_ok n" "dsize es + esz n + 6 \<le> BLOCK_SIZE"
  obtains ab' where "create_file path v wd ab = Inr (0, ab')" "abyss_inv ab' fs"
    "holds_dir ab' (unat w) (es @ [(v, n)])" "\<And>j. j < 512 \<Longrightarrow> mode_of ab' j = mode_of ab j"
proof -
  note h = holds_dirD [OF inv d(2)]
  let ?b = "4096 * blk ab (unat w)"
  note ok = holds_dir_ok [OF d(2)]
  obtain m where m: "add_entry path v ?b (disk ab) = Inr m" "dir_ok m ?b es (v, n)"
    "\<forall>a. a < ?b \<or> ?b + BLOCK_SIZE \<le> a \<longrightarrow> m a = disk ab a"
    using add_entry_ok [OF ok(2) holds_dir_in_disk [OF inv d(2)] n(2,1)] n(3) unfolding ok(1) by auto
  have low: "\<And>a. a < ROOT_BLOCK + BLOCK_SIZE \<Longrightarrow> m a = disk ab a"
    using m(3) h(2) by simp
  have f: "mode_of (ab\<lparr>disk := m\<rparr>) j = mode_of ab j" "blk (ab\<lparr>disk := m\<rparr>) j = blk ab j" if "j < 512" for j
    using fields_root [of m ab j] low that by simp_all
  have "create_file path v wd ab = Inr (0, ab\<lparr>disk := m\<rparr>)"
    using cwd_inode_in [OF inv d(1,3)] h(4,5) m(1) by (simp add: create_file_def Let_def)
  moreover have "abyss_inv (ab\<lparr>disk := m\<rparr>) fs"
    using inv_data [OF inv low] .
  moreover have "holds_dir (ab\<lparr>disk := m\<rparr>) (unat w) (es @ [(v, n)])"
    using d(2) f [OF h(1)] m(2) by (simp add: holds_dir_def owner_def)
  ultimately show thesis
    using that f(1) by blast
qed

text \<open>A path of two names leads through the directory.\<close>

lemma tokens_two:
  assumes "file_name d" and "file_name n"
  shows "tokens {CHR ''/''} (d @ ''/'' @ n) = [d, n]"
proof -
  obtain c r where d: "d = c # r"
    using assms(1) by (cases d) (auto simp: file_name_def)
  have s: "CHR ''/'' \<notin> set d" "tokens {CHR ''/''} n = [n]"
    using assms by (auto simp: file_name_def intro!: tokens_single)
  then have "takeWhile (\<lambda>c. c \<notin> {CHR ''/''}) (r @ ''/'' @ n) = r" "dropWhile (\<lambda>c. c \<notin> {CHR ''/''}) (r @ ''/'' @ n) = ''/'' @ n"
    by (auto simp: d takeWhile_append dropWhile_append)
  moreover have "c \<notin> {CHR ''/''}"
    using s(1) by (auto simp: d)
  ultimately have "tokens {CHR ''/''} (c # (r @ ''/'' @ n)) = (c # r) # tokens {CHR ''/''} (''/'' @ n)"
    by (simp only: tokens_word not_False_eq_True)
  then show ?thesis
    using s(2) by (simp add: d tokens_delim)
qed

lemma path_walk_append:
  "path_walk ab i ts = Inr (Some p) \<Longrightarrow> path_walk ab i (ts @ us) = path_walk ab (Some p) us"
proof (induction ts arbitrary: i)
  case (Cons t ts)
  then show ?case
    by (cases i) (auto simp: bind_res_Inr_iff Let_def split: option.splits if_splits)
qed simp

lemma skip_slashes_name: "file_name d \<Longrightarrow> skip_slashes (''/'' @ d @ s) = d @ s"
  by (cases d) (auto simp: file_name_def)

lemma path_in_dir:
  assumes inv: "abyss_inv ab fs" and d: "(w, d) \<in> set fs" "holds_dir ab (unat w) (es @ [(v, n)])"
    and n: "file_name n" "n \<notin> snd ` set es" "length d + 1 + length n < 256" and v: "unat v < 512"
  shows "get_inode_by_path (''/'' @ d @ ''/'' @ n) ab = Inr (Some (inode_addr (unat v)))"
proof -
  let ?b = "4096 * blk ab (unat w)"
  note i = abyss_invD [OF inv]
  note h = holds_dirD [OF inv d(2)]
  have fd: "file_name d"
    using files_okD(1) [OF i(3) d(1)] by simp
  have "path_walk ab (get_inode ab 1) [d] = Inr (Some (inode_addr (unat w)))"
    using get_inode_by_path_root [OF inv d(1)] fd tokens_single [of d "{CHR ''/''}"]
    by (cases d) (auto simp: get_inode_by_path_def Let_def file_name_def name_ok_def)
  then have "path_walk ab (get_inode ab 1) [d, n] = path_walk ab (Some (inode_addr (unat w))) [n]"
    using path_walk_append [of ab "get_inode ab 1" "[d]" _ "[n]"] by simp
  moreover have "dir_find (disk ab) ?b n = Inr (Some (?b + dsize es))"
  proof -
    have "first_index (\<lambda>x. snd x = n) (es @ [(v, n)]) = Some (length es)"
      using n(2) by (intro first_index_unique) (auto simp: nth_append)
    then show ?thesis
      using dir_find_ok [OF holds_dir_ok(2) [OF d(2)] holds_dir_in_disk [OF inv d(2)], of n] n(1)
      by (simp add: file_name_def name_ok_def)
  qed
  moreover have "e_inode (disk ab) (?b + dsize es) = v"
    using dir_okD(2) [OF holds_dir_ok(2) [OF d(2)]] by (simp add: entry_at_def)
  ultimately have "path_walk ab (get_inode ab 1) [d, n] = Inr (Some (inode_addr (unat v)))"
    using h(4,5) get_inode_unat [OF i(1) v] by simp
  then show ?thesis
    using tokens_two [OF fd n(1)] skip_slashes_name [OF fd, of "''/'' @ n"] n(3) fd
    by (simp add: get_inode_by_path_def Let_def file_name_def)
qed

text \<open>Creating a file with \<open>d\<close> as the working directory.\<close>

lemma abyssfs_create_in:
  assumes inv: "abyss_inv ab fs" and d: "(w, d) \<in> set fs" "holds_dir ab (unat w) es" "in_dir wd d"
    and n: "file_name n" "dsize es + esz n + 6 \<le> BLOCK_SIZE"
    and free: "1 \<le> j" "j < 512" "mode_of ab j = 0" and k: "kalloc sizeof_vfs_file h = (Some p, h')"
  obtains v ab' where "abyssfs_create (''/'' @ d @ ''/'' @ n) wd h ab = Inr (Some (new_abyss_file v []), h', ab')"
    "unat v < 512" "v \<noteq> w" "mode_of ab (unat v) = 0" "mode_of ab' (unat v) = 0x1FF" "abyss_inv ab' fs"
    "holds_dir ab' (unat w) (es @ [(v, n)])"
proof -
  note i = abyss_invD [OF inv]
  have fd: "file_name d" "mode_of ab (unat w) \<noteq> 0"
    using files_okD [OF i(3) d(1)] by simp_all
  obtain v ab1 where v: "alloc_inode ab = (v, ab1)"
    by (cases "alloc_inode ab")
  have v0: "v \<noteq> 0"
    by (rule alloc_inode_full [OF i(1) v free])
  obtain q where q: "1 \<le> q" "q < 512" "v = of_nat q" "unat v = q" "mode_of ab q = 0" "ab1 = fresh_inode q ab"
    by (rule alloc_inode_some [OF i(1) v v0]) blast
  note f = fresh_inode_inv [OF inv q(1,2,5), folded q(6)]
  note ff = fresh_inode_fields [of q ab, folded q(6)]
  have qw: "unat w \<noteq> q"
    using fd(2) q(5) by auto
  have "holds_dir ab1 (unat w) es"
    using holds_dir_inode [OF inv d(2) ff(4) q(2) qw] .
  moreover have "abyss_basename (skip_slashes (''/'' @ d @ ''/'' @ n)) = n"
    using n(1) rindex_append [of "CHR ''/''" n d] unfolding skip_slashes_name [OF fd(1)]
    by (simp add: abyss_basename_def file_name_def)
  moreover have "name_ok n"
    using n(1) by (simp add: file_name_def)
  ultimately obtain ab2 where c: "create_file (skip_slashes (''/'' @ d @ ''/'' @ n)) v wd ab1 = Inr (0, ab2)"
    "abyss_inv ab2 fs" "holds_dir ab2 (unat w) (es @ [(v, n)])" "\<And>j. j < 512 \<Longrightarrow> mode_of ab2 j = mode_of ab1 j"
    using create_file_in [OF f(1) d(1) _ d(3) _ _ n(2), of "skip_slashes (''/'' @ d @ ''/'' @ n)" v] by blast
  have "get_inode ab1 v \<noteq> None"
    using get_inode_unat [OF abyss_invD(1) [OF f(1)], of v] q(2,4) by simp
  then have "abyssfs_create (''/'' @ d @ ''/'' @ n) wd h ab = Inr (Some (new_abyss_file v []), h', ab2)"
    using v v0 c(1) k by (simp add: abyssfs_create_def del: append_Cons append.append_Nil)
  moreover have "mode_of ab2 (unat v) = 0x1FF"
    using c(4) ff(1) q(2,4) by simp
  moreover have "v \<noteq> w"
    using qw q(4) by auto
  ultimately show thesis
    using that q(2,4,5) c(2,3) by blast
qed

section \<open>Removing a directory\<close>

text \<open>What removing one entry keeps, removing a tree keeps.\<close>

lemma remove_recursive_keeps:
  assumes keeps: "\<And>p ab r ab'. Q ab \<Longrightarrow> abyssfs_unlink p ab = Inr (r, ab') \<Longrightarrow> Q ab'"
  shows "Q ab \<Longrightarrow> abyssfs_remove_recursive path ab = Inr (r, ab') \<Longrightarrow> Q ab'"
    and "Q ab \<Longrightarrow> remove_entries path ds ab = Inr ab' \<Longrightarrow> Q ab'"
proof (induction path ab and path ds ab arbitrary: r ab' and ab' rule: abyssfs_remove_recursive_remove_entries.induct)
  case (1 path ab)
  obtain r0 es ab1 where e: "abyssfs_read_dir path 256 ab = Inr (r0, es)"
    "(if r0 = 0 then remove_entries path es ab else Inr ab) = Inr ab1" "abyssfs_unlink path ab1 = Inr (r, ab')"
    using 1(3) by (subst (asm) abyssfs_remove_recursive.simps) (auto simp: res_Inr_iffs)
  have "Q ab1"
    using 1(1) [OF e(1) refl _ 1(2)] 1(2) e(2) by (simp split: if_splits)
  then show ?case
    using keeps e(3) by blast
next
  case (2 path ab)
  then show ?case
    by simp
next
  case (3 path d ds ab)
  show ?case
  proof (cases "d_name d = ''.'' \<or> d_name d = ''..''")
    case True
    then show ?thesis
      using 3(1) [OF True 3(4)] 3(5) by simp
  next
    case False
    let ?p = "path @ CHR ''/'' # d_name d"
    let ?sub = "case get_inode ab (ucast (d_inode d)) of None \<Rightarrow> map_res snd (abyssfs_unlink ?p ab)
        | Some p \<Rightarrow> if i_mode ab p AND 0x4000 \<noteq> 0 then map_res snd (abyssfs_remove_recursive ?p ab)
          else map_res snd (abyssfs_unlink ?p ab)"
    have buf: "bind_res (str_copy 256 path) (\<lambda>p. bind_res (str_cat 256 p ''/'') (\<lambda>p. str_cat 256 p (d_name d))) = Inr ?p"
      using 3(5) False by (auto simp: res_Inr_iffs)
    then obtain ab1 where e: "?sub = Inr ab1" "remove_entries path ds ab1 = Inr ab'"
      using 3(5) False by (auto simp: bind_res_Inr_iff)
    have "Q ab1"
      using 3(2) [OF False buf _ _ 3(4)] keeps 3(4) e(1)
      by (auto simp: map_res_Inr_iff split: option.splits if_splits)
    then show ?thesis
      using 3(3) [OF False buf e(1)] e(2) by blast
  qed
qed

text \<open>Names below a directory have an inner slash, so that nothing is found to remove.\<close>

lemma remove_entries_nothing:
  assumes inv: "abyss_inv ab fs" and p: "file_name d"
    and ds: "\<forall>e \<in> set ds. d_name e \<in> {''.'', ''..''} \<or> cstr (d_name e) \<and> length d + 2 + length (d_name e) < 256 \<and>
      (\<forall>q. get_inode ab (ucast (d_inode e)) = Some q \<longrightarrow> i_mode ab q AND 0x4000 = 0)"
  shows "remove_entries (''/'' @ d) ds ab = Inr ab"
  using ds
proof (induction ds)
  case (Cons e ds)
  let ?p = "''/'' @ d @ ''/'' @ d_name e"
  have "abyssfs_unlink ?p ab = Inr (-1, ab)" if "cstr (d_name e)"
  proof (rule abyss_nested_unlink_fails [OF inv])
    show "CHR ''/'' \<in> set (skip_slashes ?p)"
      unfolding skip_slashes_name [OF p] by simp
    show "cstr ?p"
      using that p by (simp add: file_name_def name_ok_def)
  qed
  then show ?case
    using Cons by (auto split: option.splits)
qed simp

lemma remove1_nth: "k < length xs \<Longrightarrow> distinct xs \<Longrightarrow> remove1 (xs ! k) xs = take k xs @ drop (Suc k) xs"
proof -
  assume k: "k < length xs" "distinct xs"
  note split = id_take_nth_drop [OF k(1)]
  have "xs ! k \<notin> set (take k xs)"
    using k by (metis distinct_append distinct.simps(2) disjoint_insert(1) list.simps(15) split)
  then show ?thesis
    by (subst (2) split) (simp add: remove1_append)
qed

section \<open>Properties\<close>


text \<open>
  Property C40. \<open>abyssfs_remove_recursive\<close> on a directory of / that holds files does no more than
  \<open>abyssfs_unlink\<close>: the directory is gone and its block is free again, but the inode of every file in
  it stays in use, without a name.
\<close>

theorem remove_recursive_leaves_contents:
  assumes inv: "abyss_inv ab fs" and d: "(w, d) \<in> set fs" "holds_dir ab (unat w) es"
    and files: "\<forall>(v, n) \<in> set es. n \<in> {''.'', ''..''} \<or>
      length d + 2 + length n < 256 \<and> (unat v < 512 \<longrightarrow> mode_of ab (unat v) AND 0x4000 = 0)"
  shows "\<exists>ab'. abyssfs_remove_recursive (''/'' @ d) ab = Inr (0, ab') \<and> abyssfs_unlink d ab = Inr (0, ab') \<and>
    abyss_inv ab' (remove1 (w, d) fs) \<and> \<not> used_block ab' (blk ab (unat w)) \<and>
    (\<forall>j < 512. j \<noteq> unat w \<longrightarrow> mode_of ab' j = mode_of ab j)"
proof -
  note i = abyss_invD [OF inv]
  have fd: "file_name d"
    using files_okD(1) [OF i(3) d(1)] by simp
  obtain k where k: "k < length fs" "fs ! k = (w, d)"
    using d(1) by (auto simp: in_set_conv_nth)
  have "distinct fs"
    using i(3) by (simp add: files_ok_def distinct_map)
  from remove1_nth [OF k(1) this] have rest: "take k fs @ drop (Suc k) fs = remove1 (w, d) fs"
    by (simp add: k(2))
  obtain ab' where u: "abyssfs_unlink d ab = Inr (0, ab')" "abyss_inv ab' (remove1 (w, d) fs)"
    "\<not> used_block ab' (blk ab (unat w))" "\<forall>j < 512. j \<noteq> unat w \<longrightarrow> mode_of ab' j = mode_of ab j"
    using abyssfs_unlink_some [OF inv fd k(1)] k(2) d(2) rest by (auto simp: holds_dir_def)
  have skip: "skip_slashes (''/'' @ d) = d" "skip_slashes d = d"
    using skip_slashes_name [OF fd, of "[]"] fd by (cases d; simp add: file_name_def)+
  have u': "abyssfs_unlink (''/'' @ d) ab = Inr (0, ab')"
    using u(1) unfolding abyssfs_unlink_def skip .
  have names: "name_ok (snd x)" if "x \<in> set es" for x
    using holds_dir_names [OF d(2) that] .
  have "remove_entries (''/'' @ d) (map abyss_dirent (take 256 es)) ab = Inr ab"
  proof (rule remove_entries_nothing [OF inv fd], intro ballI)
    fix e assume "e \<in> set (map abyss_dirent (take 256 es))"
    then obtain v n where e: "(v, n) \<in> set es" "e = abyss_dirent (v, n)"
      by (auto dest: in_set_takeD)
    have "get_inode ab v = (if unat v < 512 then Some (inode_addr (unat v)) else None)"
      using get_inode_geometry [OF i(1), of v] by (simp add: inode_addr_def)
    moreover have "ucast (ucast v :: u64) = v"
      by (rule ucast_up_ucast_id) (simp add: is_up)
    ultimately show "d_name e \<in> {''.'', ''..''} \<or> cstr (d_name e) \<and> length d + 2 + length (d_name e) < 256 \<and>
      (\<forall>q. get_inode ab (ucast (d_inode e)) = Some q \<longrightarrow> i_mode ab q AND 0x4000 = 0)"
      using files e names [OF e(1)] by (auto simp: abyss_dirent_def mode_of_def name_ok_def split: if_splits)
  qed
  then have "abyssfs_remove_recursive (''/'' @ d) ab = Inr (0, ab')"
    using read_dir_in [OF inv d skip(1), of 256] u' by (subst abyssfs_remove_recursive.simps) simp
  then show ?thesis
    using u by blast
qed

section \<open>Concrete runs\<close>

lemma ex_dname: "file_name ''d''" "''d'' \<notin> snd ` set []" "root_room [] ''d''"
  by (simp_all add: file_name_def name_ok_def root_room_def dots_def esz_eq)

lemma ex_dir:
  obtains w ab j where "abyssfs_mkdir ''d'' root_cwd ex_abyss = Inr (0, ab)" "abyss_inv ab [(w, ''d'')]"
    "holds_dir ab (unat w) [(w, ''.''), (1, ''..'')]" "1 \<le> j" "j < 512" "mode_of ab j = 0"
proof (rule abyssfs_mkdir_cases [OF ex_abyss_facts(2) at_root_cwd ex_dname], goal_cases)
  case 1
  then have "mode_of ex_abyss 2 \<noteq> 0"
    by simp
  then show ?case
    using ex_abyss_facts(4) by simp
next
  case (2 w)
  then have "used_block ex_abyss 10"
    by simp
  then show ?case
    using ex_abyss_facts(3) by simp
next
  case (3 w i ab)
  then have "get8 (disk ex_abyss) (4096 * i + 261) = 0"
    using ex_abyss_facts(5) by (simp add: get8_def)
  from write_dots_ok(1) [OF this, of w] have "dir_ok (disk ab) (4096 * i) [(w, ''.'')] (1, ''..'')"
    by (rule dir_ok_cong) (rule 3)
  then have dir: "holds_dir ab (unat w) [(w, ''.''), (1, ''..'')]"
    using 3 by (simp add: holds_dir_def owner_def)
  define j :: nat where "j = (if unat w = 2 then 3 else 2)"
  have "mode_of ab j = mode_of ex_abyss j"
    by (rule 3) (simp_all add: j_def)
  then have "mode_of ab j = 0" "1 \<le> j" "j < 512"
    using ex_abyss_facts(4) by (simp_all add: j_def)
  then show ?case
    using 3 dir by simp
qed

definition ex_wd :: "char list option" where
  "ex_wd = Some (''/d'' @ replicate 254 NUL)"

lemma ex_sizes:
  "in_dir ex_wd ''d''" "file_name ''f''" "dsize [(w, ''.''), (1, ''..'')] + esz ''f'' + 6 \<le> 4096"
  by (simp_all add: in_dir_def ex_wd_def cstring_def file_name_def name_ok_def esz_eq)


theorem remove_recursive_leaves_contents_witness:
  "\<exists>ab (v :: u32) ab'. get_inode_by_path ''/d/f'' ab = Inr (Some (inode_addr (unat v))) \<and> mode_of ab (unat v) = 0x1FF \<and>
    abyssfs_remove_recursive ''/d'' ab = Inr (0, ab') \<and> abyss_inv ab' [] \<and> mode_of ab' (unat v) = 0x1FF"
proof -
  obtain w ab j where ab: "abyssfs_mkdir ''d'' root_cwd ex_abyss = Inr (0, ab)" "abyss_inv ab [(w, ''d'')]"
    "holds_dir ab (unat w) [(w, ''.''), (1, ''..'')]" and j: "1 \<le> j" "j < 512" "mode_of ab j = 0"
    by (rule ex_dir)
  obtain v ab1 where c: "unat v < 512" "v \<noteq> w" "mode_of ab1 (unat v) = 0x1FF" "abyss_inv ab1 [(w, ''d'')]"
    "holds_dir ab1 (unat w) ([(w, ''.''), (1, ''..'')] @ [(v, ''f'')])"
    by (rule abyssfs_create_in [OF ab(2) _ ab(3) ex_sizes(1,2,3) j ex_kalloc(3)]) simp_all
  have "get_inode_by_path (''/'' @ ''d'' @ ''/'' @ ''f'') ab1 = Inr (Some (inode_addr (unat v)))"
    by (rule path_in_dir [OF c(4) _ c(5) ex_sizes(2) _ _ c(1)]) simp_all
  moreover have "unat v \<noteq> unat w"
    using c(2) by (simp add: word_unat_eq_iff)
  moreover obtain ab' where "abyssfs_remove_recursive ''/d'' ab1 = Inr (0, ab')" "abyss_inv ab' []"
    "\<forall>j < 512. j \<noteq> unat w \<longrightarrow> mode_of ab' j = mode_of ab1 j"
    using remove_recursive_leaves_contents [OF c(4) _ c(5)] c(3) by auto
  ultimately have "get_inode_by_path ''/d/f'' ab1 = Inr (Some (inode_addr (unat v))) \<and> mode_of ab1 (unat v) = 0x1FF \<and>
      abyssfs_remove_recursive ''/d'' ab1 = Inr (0, ab') \<and> abyss_inv ab' [] \<and> mode_of ab' (unat v) = 0x1FF"
    using c(1,3) by simp
  then show ?thesis
    by blast
qed

end
