(* ===== verification/Kernel_Types.thy ===== *)
theory Kernel_Types
  imports Shell_Run Shell_Copy Abyss_Nested
begin

text \<open>
  The types that C does not check: an open file belongs to the file system whose operations it
  carries and its private data is of that file system, descriptors are given out in order, every
  working directory is a terminated string in its buffer. Every system call and every command of the
  shell keeps them, whatever is typed.
\<close>

section \<open>Well-typed states\<close>

definition file_ok :: "vfs_file \<Rightarrow> bool" where
  "file_ok fl \<longleftrightarrow>
     (case (f_ops fl, f_private fl) of
        (Ramfs_Fops, Ramfs_Slot i) \<Rightarrow> i < MAX_FILES \<and> unat (f_pos fl) \<le> MAX_CONTENT
      | (Abyssfs_Fops, Abyss_Inode n) \<Rightarrow> unat n < 512
      | _ \<Rightarrow> False)"

definition buffer_ok :: "char list \<Rightarrow> bool" where
  "buffer_ok b \<longleftrightarrow> length b = VFS_MAX_PATH \<and> NUL \<in> set b"

definition cwds_ok :: "ptable \<Rightarrow> bool" where
  "cwds_ok pt \<longleftrightarrow> (\<forall>p. buffer_ok (cwd (procs pt p)))"

definition fds_ok :: "kstate \<Rightarrow> bool" where
  "fds_ok ks \<longleftrightarrow> length (fd_table ks) = MAX_FD \<and> next_fd ks \<le> MAX_FD \<and>
     (\<forall>fd fl. get_file fd ks = Some fl \<longrightarrow> fd < int (next_fd ks) \<and> file_ok fl)"

definition kernel_ok :: "kstate \<Rightarrow> bool" where
  "kernel_ok ks \<longleftrightarrow> heap_ok (k_heap ks) \<and> ramfs_ok (k_ramfs ks) \<and> geometry (k_abyss ks) \<and> fds_ok ks \<and>
     length (mount_points ks) \<le> MAX_MOUNTS \<and> cwds_ok (k_pt ks)"

lemma kernel_okD:
  assumes "kernel_ok ks"
  shows "heap_ok (k_heap ks)" "ramfs_ok (k_ramfs ks)" "geometry (k_abyss ks)" "fds_ok ks" "cwds_ok (k_pt ks)"
  using assms by (simp_all add: kernel_ok_def)

lemma fds_ok_update [simp]:
  "fds_ok (ks\<lparr>k_heap := h\<rparr>) = fds_ok ks" "fds_ok (ks\<lparr>k_ramfs := fs\<rparr>) = fds_ok ks"
  "fds_ok (ks\<lparr>k_abyss := ab\<rparr>) = fds_ok ks" "fds_ok (ks\<lparr>k_pt := pt\<rparr>) = fds_ok ks"
  by (simp_all add: fds_ok_def get_file_def)

text \<open>What changes one part of the state.\<close>

lemma kernel_ok_update:
  assumes "kernel_ok ks"
  shows "heap_ok h \<Longrightarrow> kernel_ok (ks\<lparr>k_heap := h\<rparr>)" "ramfs_ok fs \<Longrightarrow> kernel_ok (ks\<lparr>k_ramfs := fs\<rparr>)"
    "geometry ab \<Longrightarrow> kernel_ok (ks\<lparr>k_abyss := ab\<rparr>)" "cwds_ok pt \<Longrightarrow> kernel_ok (ks\<lparr>k_pt := pt\<rparr>)"
    "heap_ok h \<Longrightarrow> ramfs_ok fs \<Longrightarrow> kernel_ok (ks\<lparr>k_heap := h, k_ramfs := fs\<rparr>)"
    "heap_ok h \<Longrightarrow> geometry ab \<Longrightarrow> kernel_ok (ks\<lparr>k_heap := h, k_abyss := ab\<rparr>)"
    "heap_ok h \<Longrightarrow> cwds_ok pt \<Longrightarrow> kernel_ok (ks\<lparr>k_heap := h, k_pt := pt\<rparr>)"
  using assms by (simp_all add: kernel_ok_def)

lemma set_file_ok:
  assumes "kernel_ok ks" and "get_file fd ks = Some fl" and "case f of None \<Rightarrow> True | Some fl' \<Rightarrow> file_ok fl'"
  shows "kernel_ok (set_file fd f ks)"
proof -
  have fd: "0 \<le> fd" "fd < 32" "length (fd_table ks) = 32" "fd < int (next_fd ks)"
    using assms(1,2) by (auto simp: kernel_ok_def fds_ok_def get_file_def split: if_splits)
  have "fd' < int (next_fd ks) \<and> file_ok fl'" if "get_file fd' (set_file fd f ks) = Some fl'" for fd' fl'
  proof (cases "fd' = fd")
    case True
    then show ?thesis
      using that fd assms(3) by simp
  next
    case False
    have "0 \<le> fd'"
      using that by (simp add: get_file_def split: if_splits)
    then have "get_file fd' ks = Some fl'"
      using that False fd by simp
    then show ?thesis
      using assms(1) by (simp add: kernel_ok_def fds_ok_def)
  qed
  then show ?thesis
    using assms(1) by (simp add: kernel_ok_def fds_ok_def)
qed

lemma alloc_fd_ok:
  assumes "kernel_ok ks" and "file_ok fl" and "alloc_fd fl ks = (fd, ks')"
  shows "kernel_ok ks'"
proof (cases "next_fd ks < MAX_FD")
  case True
  have len: "length (fd_table ks) = MAX_FD"
    using assms(1) by (simp add: kernel_ok_def fds_ok_def)
  have ks': "ks' = snd (alloc_fd fl ks)"
    using assms(3) by simp
  note a = alloc_fd_some [OF True len, where f = fl]
  have "fd' < int (next_fd ks') \<and> file_ok fl'" if "get_file fd' ks' = Some fl'" for fd' fl'
  proof (cases "fd' = int (next_fd ks)")
    case True
    then show ?thesis
      using that a assms(2) by (simp add: ks')
  next
    case False
    then have "get_file fd' ks = Some fl'"
      using that a(5) by (simp add: ks')
    then have "fd' < int (next_fd ks)" "file_ok fl'"
      using assms(1) by (simp_all add: kernel_ok_def fds_ok_def)
    then show ?thesis
      using a(3) by (simp add: ks')
  qed
  then show ?thesis
    using assms(1) True a by (simp add: kernel_ok_def fds_ok_def ks')
next
  case False
  then show ?thesis
    using assms(1,3) by (simp add: alloc_fd_def)
qed

section \<open>The file systems\<close>

lemma ramfs_open_ok:
  assumes "ramfs_ok fs" and "heap_ok h" and "ramfs_open p h fs = (r, h')"
  shows "heap_ok h' \<and> (case r of None \<Rightarrow> True | Some fl \<Rightarrow> file_ok fl)"
proof -
  obtain k h1 where k: "kalloc sizeof_vfs_file h = (k, h1)"
    by (cases "kalloc sizeof_vfs_file h")
  then have "heap_ok h1"
    using kalloc_heap_ok [OF assms(2), of sizeof_vfs_file] by simp
  then show ?thesis
    using assms k ramfs_ok_length [OF assms(1)]
    by (cases k) (auto simp: ramfs_open_def file_ok_def dest: first_index_SomeD split: option.splits)
qed

lemma ramfs_create_typed:
  assumes "ramfs_ok fs" and "heap_ok h" and "ramfs_create p h fs = Inr (r, h', fs')"
  shows "heap_ok h' \<and> (case r of None \<Rightarrow> True | Some fl \<Rightarrow> file_ok fl)"
proof -
  obtain k h1 where k: "kalloc sizeof_vfs_file h = (k, h1)"
    by (cases "kalloc sizeof_vfs_file h")
  then have h1: "heap_ok h1"
    using kalloc_heap_ok [OF assms(2), of sizeof_vfs_file] by simp
  have len: "length fs = 16"
    by (rule ramfs_ok_length [OF assms(1)])
  show ?thesis
  proof (cases "first_index (\<lambda>f. \<not> rf_used f) fs")
    case None
    then show ?thesis
      using assms by (auto simp: ramfs_create_def res_Inr_iffs)
  next
    case (Some i)
    then show ?thesis
      using assms k h1 len first_index_SomeD [OF Some]
      by (cases k) (auto simp: ramfs_create_def res_Inr_iffs Let_def file_ok_def)
  qed
qed

lemma ramfs_read_ok:
  "ramfs_ok fs \<Longrightarrow> ramfs_read fl cnt fs = Inr (r, bs, fl') \<Longrightarrow> file_ok fl \<Longrightarrow> f_ops fl = Ramfs_Fops \<Longrightarrow> file_ok fl'"
  by (auto simp: ramfs_read_def res_Inr_iffs Let_def file_ok_def unat_plus_64 dest: ramfs_ok_slot
      split: if_splits private_data.splits)

lemma ramfs_write_file_ok:
  "ramfs_write fl b cnt fs = Inr (r, fl', fs') \<Longrightarrow> file_ok fl \<Longrightarrow> f_ops fl = Ramfs_Fops \<Longrightarrow> file_ok fl'"
  by (auto simp: ramfs_write_def res_Inr_iffs Let_def file_ok_def unat_plus_64 split: if_splits private_data.splits)

lemma abyssfs_read_ok: "abyssfs_read fl cnt ab = Inr (r, bs, fl') \<Longrightarrow> file_ok fl \<Longrightarrow> f_ops fl = Abyssfs_Fops \<Longrightarrow> file_ok fl'"
  by (auto simp: abyssfs_read_def res_Inr_iffs Let_def file_ok_def split: if_splits private_data.splits option.splits)

lemma alloc_inode_ok:
  assumes "geometry ab" and "alloc_inode ab = (n, ab')"
  shows "geometry ab'" "unat n < 512"
  using assms fresh_inode_fields(5)
  by (auto simp: alloc_inode_eq [OF assms(1)] find_upt_Some unat_of_nat split: option.splits)

lemma alloc_block_ok: "geometry ab \<Longrightarrow> geometry (snd (alloc_block ab))"
  by (auto simp: alloc_block_def geometry_def split: option.splits)

lemma free_block_ok: "geometry ab \<Longrightarrow> geometry (free_block b ab)"
  by (simp add: free_block_def geometry_def)

lemma create_file_ok: "geometry ab \<Longrightarrow> create_file n i wd ab = Inr (r, ab') \<Longrightarrow> geometry ab'"
  by (auto simp: create_file_def res_Inr_iffs Let_def split: option.splits if_splits)

lemma abyssfs_open_ok:
  assumes "heap_ok h" and "abyssfs_open p h = (r, h')"
  shows "heap_ok h' \<and> (case r of None \<Rightarrow> True | Some fl \<Rightarrow> file_ok fl)"
  using assms kalloc_heap_ok [of h sizeof_vfs_file]
  by (auto simp: abyssfs_open_def file_ok_def new_abyss_file_def split: option.splits prod.splits)

lemma abyssfs_create_ok:
  assumes "geometry ab" and "heap_ok h" and "abyssfs_create p wd h ab = Inr (r, h', ab')"
  shows "geometry ab' \<and> heap_ok h' \<and> (case r of None \<Rightarrow> True | Some fl \<Rightarrow> file_ok fl)"
proof -
  obtain n ab1 where a: "alloc_inode ab = (n, ab1)"
    by (cases "alloc_inode ab")
  obtain k h1 where k: "kalloc sizeof_vfs_file h = (k, h1)"
    by (cases "kalloc sizeof_vfs_file h")
  then have "heap_ok h1"
    using kalloc_heap_ok [OF assms(2), of sizeof_vfs_file] by simp
  then show ?thesis
    using assms k a alloc_inode_ok [OF assms(1) a]
    by (cases k) (auto simp: abyssfs_create_def file_ok_def new_abyss_file_def res_Inr_iffs
        dest: create_file_ok [rotated] split: if_splits)
qed

lemma release_inode_ok: "geometry ab \<Longrightarrow> geometry (release_inode n ab)"
  by (simp add: release_inode_def free_block_ok Let_def split: option.split)

lemma abyssfs_unlink_ok: "geometry ab \<Longrightarrow> abyssfs_unlink p ab = Inr (r, ab') \<Longrightarrow> geometry ab'"
  by (auto simp: abyssfs_unlink_def res_Inr_iffs Let_def release_inode_ok split: option.splits)

lemma write_to_blocks_ok:
  assumes "geometry ab" and "write_to_blocks p b cnt ab = Inr (n, ab')"
  shows "geometry ab'"
proof -
  obtain k ab1 where a: "alloc_block ab = (k, ab1)"
    by (cases "alloc_block ab")
  have "geometry ab1"
    using alloc_block_ok [OF assms(1)] a by simp
  moreover have "ab' \<in> {ab1} \<union> range (\<lambda>m. (set_blocks p k ab1)\<lparr>disk := m\<rparr>) \<union> range (\<lambda>m. ab\<lparr>disk := m\<rparr>)"
    using assms(2) a unfolding write_to_blocks_def Let_def
    by (cases "i_blocks ab p = 0"; cases "k = 0") (simp_all add: res_Inr_iffs, blast+)
  ultimately show ?thesis
    using assms(1) by auto
qed

lemma abyssfs_write_ok: "geometry ab \<Longrightarrow> abyssfs_write fl b cnt ab = Inr (r, ab') \<Longrightarrow> geometry ab'"
  unfolding abyssfs_write_def
  by (auto simp: res_Inr_iffs write_to_blocks_ok split: option.splits if_splits)

lemma abyssfs_mkdir_ok:
  assumes "geometry ab" and "abyssfs_mkdir p wd ab = Inr (r, ab')"
  shows "geometry ab'"
proof -
  obtain n ab1 where a: "alloc_inode ab = (n, ab1)"
    by (cases "alloc_inode ab")
  obtain b ab2 where b: "alloc_block ab1 = (b, ab2)"
    by (cases "alloc_block ab1")
  have "geometry ab1" "geometry ab2"
    using alloc_inode_ok [OF assms(1) a] alloc_block_ok [of ab1] b by simp_all
  then show ?thesis
    using assms a b
    by (auto simp: abyssfs_mkdir_def res_Inr_iffs Let_def dest: create_file_ok [rotated] split: option.splits if_splits)
qed

lemma abyssfs_remove_recursive_ok:
  "geometry ab \<Longrightarrow> abyssfs_remove_recursive path ab = Inr (r, ab') \<Longrightarrow> geometry ab'"
  by (rule remove_recursive_keeps(1)) (rule abyssfs_unlink_ok)

section \<open>The system calls\<close>

lemma fs_open_ok:
  assumes "kernel_ok ks" and "fs_open fs p ks = (r, ks')"
  shows "kernel_ok ks' \<and> (case r of None \<Rightarrow> True | Some fl \<Rightarrow> file_ok fl)"
  using assms kernel_okD [OF assms(1)]
  by (cases fs) (auto simp: fs_open_def kernel_ok_update dest: ramfs_open_ok abyssfs_open_ok split: prod.splits)

lemma fs_create_ok:
  assumes "kernel_ok ks" and "cstr p" and "fs_create fs p ks = Inr (r, ks')"
  shows "kernel_ok ks' \<and> (case r of None \<Rightarrow> True | Some fl \<Rightarrow> file_ok fl)"
  using assms kernel_okD [OF assms(1)]
  by (cases fs)
    (auto simp: fs_create_def res_Inr_iffs intro!: kernel_ok_update dest: ramfs_create_typed ramfs_create_ok abyssfs_create_ok)

lemma fs_unlink_ok:
  assumes "kernel_ok ks" and "fs_unlink fs p ks = Inr (r, ks')"
  shows "kernel_ok ks'"
proof -
  obtain q files where "ramfs_unlink p (k_ramfs ks) = (q, files)"
    by (cases "ramfs_unlink p (k_ramfs ks)")
  then show ?thesis
    using assms kernel_okD [OF assms(1)] ramfs_unlink_ok [of "k_ramfs ks" p]
    by (cases fs) (auto simp: fs_unlink_def res_Inr_iffs kernel_ok_update dest: abyssfs_unlink_ok)
qed

lemma fs_mkdir_ok: "kernel_ok ks \<Longrightarrow> cstr p \<Longrightarrow> fs_mkdir fs p ks = Inr (r, ks') \<Longrightarrow> kernel_ok ks'"
  by (cases fs)
    (auto simp: fs_mkdir_def res_Inr_iffs intro!: kernel_ok_update dest: kernel_okD ramfs_mkdir_ok [rotated 2] abyssfs_mkdir_ok [rotated])

lemma absolute_path_cstr: "cstr p \<Longrightarrow> absolute_path p ks = Inr q \<Longrightarrow> cstr q"
  by (auto simp: absolute_path_def res_Inr_iffs split: if_splits)

lemma alloc_opened_ok:
  assumes "kernel_ok ks \<and> (case r of None \<Rightarrow> True | Some fl \<Rightarrow> file_ok fl)"
    and "(case r of None \<Rightarrow> Inr (-1, ks) | Some fl \<Rightarrow> Inr (alloc_fd fl ks)) = (Inr (fd, ks') :: (int \<times> kstate) res)"
  shows "kernel_ok ks'"
proof (cases r)
  case (Some fl)
  then show ?thesis
    using assms alloc_fd_ok [of ks fl fd ks'] by simp
qed (use assms in simp)

lemma vfs_open_ok:
  assumes "kernel_ok ks" and "vfs_open p ks = Inr (fd, ks')"
  shows "kernel_ok ks'"
proof -
  obtain q where q: "resolve_path p ks = Inr q"
    using assms(2) by (auto simp: vfs_open_def bind_res_Inr_iff)
  let ?fs = "if prefix ''/tmp/'' q then Ramfs_Type else Abyssfs_Type"
  obtain r ks1 where r: "fs_open ?fs q ks = (r, ks1)"
    by (cases "fs_open ?fs q ks")
  then have "(case r of None \<Rightarrow> Inr (-1, ks1) | Some fl \<Rightarrow> Inr (alloc_fd fl ks1)) = (Inr (fd, ks') :: (int \<times> kstate) res)"
    using assms(2) q by (simp add: vfs_open_def Let_def)
  then show ?thesis
    by (rule alloc_opened_ok [OF fs_open_ok [OF assms(1) r]])
qed

lemma vfs_create_ok:
  assumes "kernel_ok ks" and "cstr p" and "vfs_create p ks = Inr (fd, ks')"
  shows "kernel_ok ks'"
proof -
  obtain q r ks1 where q: "absolute_path p ks = Inr q"
    "(if prefix ''/tmp/'' q \<or> q = ''/tmp'' then fs_create Ramfs_Type q ks
      else case find_mount q ks of None \<Rightarrow> Inr (None, ks) | Some mp \<Rightarrow> fs_create (mp_fs mp) q ks) = Inr (r, ks1)"
    "(case r of None \<Rightarrow> Inr (-1, ks1) | Some fl \<Rightarrow> Inr (alloc_fd fl ks1)) = (Inr (fd, ks') :: (int \<times> kstate) res)"
    using assms(3) by (auto simp only: vfs_create_def bind_res_Inr_iff split_beta fst_conv snd_conv)
  note c = fs_create_ok [OF assms(1) absolute_path_cstr [OF assms(2) q(1)]]
  have "kernel_ok ks1 \<and> (case r of None \<Rightarrow> True | Some fl \<Rightarrow> file_ok fl)"
    using q(2) c assms(1) by (cases "find_mount q ks") (simp_all split: if_splits)
  then show ?thesis
    using q(3) by (rule alloc_opened_ok)
qed

lemma vfs_close_ok: "kernel_ok ks \<Longrightarrow> kernel_ok (snd (vfs_close fd ks))"
  by (auto simp: vfs_close_def intro: set_file_ok split: option.split)

lemma vfs_read_ok:
  assumes "kernel_ok ks" and "vfs_read fd cnt ks = Inr (n, bs, ks')"
  shows "kernel_ok ks'"
proof (cases "get_file fd ks")
  case None
  then show ?thesis
    using assms by (simp add: vfs_read_def)
next
  case (Some fl)
  have fl: "file_ok fl"
    using assms(1) Some by (simp add: kernel_ok_def fds_ok_def)
  then show ?thesis
    using assms Some kernel_okD(2) [OF assms(1)]
    by (cases "f_ops fl") (auto simp: vfs_read_def res_Inr_iffs intro!: set_file_ok [OF assms(1) Some] dest: ramfs_read_ok abyssfs_read_ok)
qed

lemma vfs_write_ok:
  assumes "kernel_ok ks" and "vfs_write fd buf cnt ks = Inr (n, ks')"
  shows "kernel_ok ks'"
proof (cases "get_file fd ks")
  case None
  then show ?thesis
    using assms by (simp add: vfs_write_def)
next
  case (Some fl)
  have fl: "file_ok fl"
    using assms(1) Some by (simp add: kernel_ok_def fds_ok_def)
  show ?thesis
  proof (cases "f_ops fl")
    case Ramfs_Fops
    then obtain fl' files where w: "ramfs_write fl buf cnt (k_ramfs ks) = Inr (n, fl', files)"
      "ks' = set_file fd (Some fl') (ks\<lparr>k_ramfs := files\<rparr>)"
      using assms(2) Some by (auto simp: vfs_write_def res_Inr_iffs)
    have "kernel_ok (ks\<lparr>k_ramfs := files\<rparr>)"
      using kernel_okD(2) [OF assms(1)] ramfs_write_ok [OF _ w(1)] assms(1) by (intro kernel_ok_update) auto
    then show ?thesis
      unfolding w(2) using Some ramfs_write_file_ok [OF w(1) fl Ramfs_Fops] by (intro set_file_ok) simp_all
  next
    case Abyssfs_Fops
    then show ?thesis
      using assms Some abyssfs_write_ok [OF kernel_okD(3) [OF assms(1)]]
      by (auto simp: vfs_write_def res_Inr_iffs kernel_ok_update)
  qed
qed

lemma vfs_unlink_ok: "kernel_ok ks \<Longrightarrow> vfs_unlink p ks = Inr (r, ks') \<Longrightarrow> kernel_ok ks'"
  by (auto simp: vfs_unlink_def res_Inr_iffs dest: fs_unlink_ok split: option.splits)

lemma vfs_mkdir_ok: "kernel_ok ks \<Longrightarrow> cstr p \<Longrightarrow> vfs_mkdir p ks = Inr (r, ks') \<Longrightarrow> kernel_ok ks'"
  by (auto simp: vfs_mkdir_def res_Inr_iffs dest: fs_mkdir_ok absolute_path_cstr split: option.splits)

lemma fs_remove_recursive_ok:
  "kernel_ok ks \<Longrightarrow> fs_remove_recursive fs = Some rm \<Longrightarrow> rm p ks = Inr (r, ks') \<Longrightarrow> kernel_ok ks'"
  by (cases fs) (auto simp: fs_remove_recursive_def res_Inr_iffs
      intro!: kernel_ok_update abyssfs_remove_recursive_ok [OF kernel_okD(3)])

lemma vfs_remove_recursive_ok: "kernel_ok ks \<Longrightarrow> vfs_remove_recursive p ks = Inr (r, ks') \<Longrightarrow> kernel_ok ks'"
  by (auto simp: vfs_remove_recursive_def res_Inr_iffs dest: fs_remove_recursive_ok split: option.splits)

lemma resolve_namespace_path_ok:
  assumes "kernel_ok ks" and "resolve_namespace_path p ks = Inr (q, ks')"
  shows "kernel_ok ks'"
proof -
  obtain k h where k: "kalloc (of_nat 256) (k_heap ks) = (k, h)"
    by (cases "kalloc (of_nat 256) (k_heap ks)")
  then have "kernel_ok (ks\<lparr>k_heap := h\<rparr>)"
    using kalloc_heap_ok [OF kernel_okD(1) [OF assms(1)], of "of_nat 256"] assms(1) by (intro kernel_ok_update) auto
  moreover have "ks' \<in> {ks, ks\<lparr>k_heap := h\<rparr>}"
    using assms(2) unfolding resolve_namespace_path_def k Let_def
    by (auto simp: bind_res_Inr_iff split: option.splits)
  ultimately show ?thesis
    using assms(1) by auto
qed

lemma vfs_read_dir_ok: "kernel_ok ks \<Longrightarrow> vfs_read_dir p cnt ks = Inr (r, es, ks') \<Longrightarrow> kernel_ok ks'"
  by (auto simp: vfs_read_dir_def res_Inr_iffs dest: resolve_namespace_path_ok split: option.splits)

text \<open>Operations on the process table that leave the working directories.\<close>

lemma cwds_ok_upd: "cwds_ok pt \<Longrightarrow> (\<And>q. cwd (f q) = cwd q) \<Longrightarrow> cwds_ok (upd_proc p f pt)"
  by (simp add: cwds_ok_def upd_proc_def)

lemma create_namespace_heap: "heap_ok h \<Longrightarrow> create_namespace old new flags h = (r, h') \<Longrightarrow> heap_ok h'"
  unfolding create_namespace_def
  by (auto split: option.splits prod.splits) (metis kalloc_heap_ok snd_conv)+

lemma bind_typed:
  assumes "kernel_ok ks" and "bind old new flags ks = Inr (r, ks')"
  shows "kernel_ok ks'"
proof -
  obtain r1 es ks1 where r1: "vfs_read_dir old 1 ks = Inr (r1, es, ks1)"
    using assms(2) by (auto simp: bind_def bind_res_Inr_iff)
  note k1 = vfs_read_dir_ok [OF assms(1) r1]
  show ?thesis
  proof (cases "r1 < 0")
    case True
    then show ?thesis
      using assms(2) r1 k1 by (simp add: bind_def)
  next
    case False
    then obtain r2 es2 ks2 where r2: "vfs_read_dir new (length es) ks1 = Inr (r2, es2, ks2)"
      using assms(2) r1 by (auto simp: bind_def bind_res_Inr_iff)
    note k2 = vfs_read_dir_ok [OF k1 r2]
    obtain n h where n: "create_namespace old new flags (k_heap ks2) = (n, h)"
      by (cases "create_namespace old new flags (k_heap ks2)")
    have "heap_ok h"
      by (rule create_namespace_heap [OF kernel_okD(1) [OF k2] n])
    then show ?thesis
      using assms(2) r1 False r2 n k2 kernel_okD(5) [OF k2]
      by (auto simp: bind_def intro!: kernel_ok_update cwds_ok_upd split: if_splits option.splits)
  qed
qed

lemma unbind_ok: "kernel_ok ks \<Longrightarrow> unbind p ks = Inr (r, ks') \<Longrightarrow> kernel_ok ks'"
  by (auto simp: unbind_def res_Inr_iffs intro!: kernel_ok_update cwds_ok_upd dest: kernel_okD(5) split: option.splits)

lemma schedule_cwds:
  assumes "cwds_ok pt" and "schedule pt = Inr pt'"
  shows "cwds_ok pt'"
proof -
  obtain nx cur where "list_find pt (\<lambda>p. pstate p = PROC_READY) = Inr (Some nx)" "current_process pt = Some cur"
    using assms(2) by (auto simp: schedule_def res_Inr_iffs split: option.splits)
  then have "cwd (procs pt' p) = cwd (procs pt p)" for p
    using assms(2) by (auto simp: schedule_def Let_def upd_proc_def split: prod.splits if_splits)
  then show ?thesis
    using assms(1) by (simp add: cwds_ok_def)
qed

lemma exit_process_ok: "kernel_ok ks \<Longrightarrow> exit_process status (k_pt ks) = Inr pt \<Longrightarrow> kernel_ok (ks\<lparr>k_pt := pt\<rparr>)"
  unfolding exit_process_def bind_res_Inr_iff Let_def
  by (elim exE conjE, intro kernel_ok_update(4), assumption, erule schedule_cwds [rotated])
    (auto intro!: cwds_ok_upd dest: kernel_okD(5) split: option.splits)

section \<open>The commands of the shell\<close>

lemma tokens_cstr: "cstr s \<Longrightarrow> t \<in> set (tokens D s) \<Longrightarrow> cstr t"
proof -
  assume s: "cstr s" and t: "t \<in> set (tokens D s)"
  have "set t \<subseteq> set (concat (tokens D s))"
    using t by auto
  then show "cstr t"
    using s tokens_spec [of D s] by auto
qed

lemma two_words_cstr:
  assumes "\<forall>a. args = Some a \<longrightarrow> cstr a" and "two_words args = Inr (Some (p, q))"
  shows "cstr p" "cstr q"
proof -
  obtain a where a: "args = Some a" "(case tokens {CHR '' ''} a of w # v # _ \<Rightarrow> Some (w, v) | _ \<Rightarrow> None) = Some (p, q)"
    using assms(2) by (auto simp: two_words_def res_Inr_iffs)
  then have "p \<in> set (tokens {CHR '' ''} a)" "q \<in> set (tokens {CHR '' ''} a)"
    by (auto split: list.splits)
  then show "cstr p" "cstr q"
    using assms(1) a(1) tokens_cstr [of a _ "{CHR '' ''}"] by auto
qed

lemma strcpy_buffer: "strcpy dest src = Inr b \<Longrightarrow> length b = length dest \<and> NUL \<in> set b"
  by (induction dest src arbitrary: b rule: strcpy.induct) (auto simp: res_Inr_iffs split: if_splits)

lemma strlen_InrD: "strlen s = Inr n \<Longrightarrow> cstr (take n s) \<and> n < length s \<and> s ! n = NUL"
  by (induction s arbitrary: n) (auto simp: res_Inr_iffs split: if_splits)

lemma NUL_update: "NUL \<in> set b \<Longrightarrow> NUL \<in> set (b[i := NUL])"
  by (cases "i < length b") (simp_all add: set_update_memI list_update_beyond)

lemma NUL_root: "1 < length b \<Longrightarrow> NUL \<in> set (b[0 := c, 1 := NUL])"
  by (intro set_update_memI) simp

lemma get_parent_dir_buffer:
  assumes "get_parent_dir b = Inr b'" and "NUL \<in> set b"
  shows "length b' = length b" "NUL \<in> set b'"
proof -
  obtain n where n: "strlen b = Inr n"
    using assms(1) by (auto simp: get_parent_dir_def res_Inr_iffs)
  define p where "p = (if n > 1 \<and> b ! (n - 1) = CHR ''/'' then b[n - 1 := NUL] else b)"
  define l where "l = back_to_slash p (if n > 1 \<and> b ! (n - 1) = CHR ''/'' then n - 1 else n)"
  define q where "q = (if l > 0 then if l = 1 then p[1 := NUL] else p[l - 1 := NUL] else p)"
  have q: "length q = length b" "NUL \<in> set q"
    using assms(2) by (simp_all add: q_def p_def NUL_update)
  have "b' = b \<or> b' = q \<or> 1 < length q \<and> b' = q[0 := CHR ''/'', 1 := NUL]"
    using assms(1) n unfolding get_parent_dir_def Let_def q_def l_def p_def
    by (auto simp: res_Inr_iffs split: if_splits)
  then show "length b' = length b" "NUL \<in> set b'"
    using q assms(2) NUL_root [of q] by auto
qed

lemma set_cwd_ok:
  assumes "kernel_ok ks" and "current_cwd ks = Some b0" and "length b = length b0" and "NUL \<in> set b"
  shows "kernel_ok (set_cwd b ks)"
proof -
  obtain p where p: "current_process (k_pt ks) = Some p" "b0 = cwd (procs (k_pt ks) p)"
    using assms(2) by (auto simp: current_cwd_def)
  then have "buffer_ok b"
    using kernel_okD(5) [OF assms(1)] assms(3,4) by (simp add: cwds_ok_def buffer_ok_def)
  then have "cwds_ok (upd_proc p (\<lambda>q. q\<lparr>cwd := b\<rparr>) (k_pt ks))"
    using kernel_okD(5) [OF assms(1)] by (simp add: cwds_ok_def upd_proc_def)
  then show ?thesis
    using p(1) assms(1) by (simp add: set_cwd_def kernel_ok_update)
qed

lemma current_buffer: "kernel_ok ks \<Longrightarrow> current_cwd ks = Some b \<Longrightarrow> length b = 256 \<and> NUL \<in> set b"
  using kernel_okD(5) [of ks] by (auto simp: current_cwd_def cwds_ok_def buffer_ok_def)

lemma cd_home_ok:
  assumes "kernel_ok ks" and "cd_home ks = Inr (out, ks')"
  shows "kernel_ok ks'"
proof -
  obtain b where b: "current_cwd ks = Some b" "ks' = set_cwd (b[0 := CHR ''/'', 1 := NUL]) ks"
    using assms(2) by (auto simp: cd_home_def res_Inr_iffs)
  then show ?thesis
    using set_cwd_ok [OF assms(1) b(1)] NUL_root [of b] current_buffer [OF assms(1) b(1)] by simp
qed

lemma cmd_cd_ok:
  assumes "kernel_ok ks" and "cmd_cd junk args ks = Inr (out, ks')"
  shows "kernel_ok ks'"
proof -
  consider "args = None \<or> args = Some []" | "args = Some ''.''" | "args = Some ''..''"
    | p where "args = Some p" "p \<noteq> []" "p \<noteq> ''.''" "p \<noteq> ''..''"
    by (cases args) auto
  then show ?thesis
  proof cases
    case 1
    then show ?thesis
      using assms by (auto simp: cmd_cd_def intro: cd_home_ok)
  next
    case 2
    then show ?thesis
      using assms by (simp add: cmd_cd_def)
  next
    case 3
    then obtain b b' where up: "current_cwd ks = Some b" "get_parent_dir b = Inr b'" "ks' = set_cwd b' ks"
      using assms(2) by (auto simp: cmd_cd_def res_Inr_iffs)
    then show ?thesis
      using get_parent_dir_buffer [OF up(2)] current_buffer [OF assms(1) up(1)] set_cwd_ok [OF assms(1) up(1)] by simp
  next
    case 4
    obtain b where b: "current_cwd ks = Some b"
      using assms(2) 4 by (auto simp: cmd_cd_def bind_res_Inr_iff of_option_Inr_iff)
    obtain t where t: "bind_res (vfs_open (cstring t) ks) (\<lambda>(fd, ks1).
        if fd < 0 then Inr (''cd: no such directory: '' @ cstring t @ [NEWLINE], ks1)
        else map_res (\<lambda>b. ([], set_cwd b ks1)) (strcpy b t)) = Inr (out, ks')"
      using assms(2) unfolding cmd_cd_def 4(1) option.case if_not_P [OF 4(2)] if_not_P [OF 4(3)] if_not_P [OF 4(4)] b of_option_simps
      by (elim bind_res_Inr_iff [THEN iffD1, elim_format] exE conjE) (simp only: split_beta bind_res_Inr_iff, blast)
    then obtain fd ks1 where o: "vfs_open (cstring t) ks = Inr (fd, ks1)"
      by (auto simp: bind_res_Inr_iff)
    note k1 = vfs_open_ok [OF assms(1) o]
    have b1: "current_cwd ks1 = Some b"
      using b vfs_open_keeps(1) [OF o] by (simp add: current_cwd_def)
    show ?thesis
    proof (cases "fd < 0")
      case True
      then show ?thesis
        using t o k1 by simp
    next
      case False
      then obtain b' where "strcpy b t = Inr b'" "ks' = set_cwd b' ks1"
        using t o by (auto simp: res_Inr_iffs)
      then show ?thesis
        using strcpy_buffer [of b t b'] set_cwd_ok [OF k1 b1] by simp
    qed
  qed
qed

lemma cp_loop_ok:
  assumes "cp_loop sfd dfd ks = Some r" and "kernel_ok ks" and "r = Inr (out, ks')"
  shows "kernel_ok ks'"
proof -
  have "kernel_ok ks \<longrightarrow> (\<forall>out ks'. r = Inr (out, ks') \<longrightarrow> kernel_ok ks')"
    using assms(1)
  proof (rule cp_loop.raw_induct [where P = "\<lambda>s d ks r. kernel_ok ks \<longrightarrow> (\<forall>out ks'. r = Inr (out, ks') \<longrightarrow> kernel_ok ks')", rotated],
      intro impI allI)
    fix loop :: "int \<Rightarrow> int \<Rightarrow> kstate \<Rightarrow> command_result option" and sfd dfd ks r out ks'
    assume IH: "\<And>s d ks r. loop s d ks = Some r \<Longrightarrow> kernel_ok ks \<longrightarrow> (\<forall>out ks'. r = Inr (out, ks') \<longrightarrow> kernel_ok ks')"
      and eq: "(case vfs_read sfd 1024 ks of Inl e \<Rightarrow> Some (Inl e)
        | Inr (n, buf, ks1) \<Rightarrow>
            if n > 0 then
              (case vfs_write dfd buf (of_int n) ks1 of Inl e \<Rightarrow> Some (Inl e)
               | Inr (written, ks2) \<Rightarrow>
                   if written < 0 \<or> written \<noteq> n then Some (Inr (''cp: write error'' @ [NEWLINE], ks2))
                   else loop sfd dfd ks2)
            else Some (Inr (if n < 0 then ''cp: read error'' @ [NEWLINE] else [], ks1))) = Some r"
      and ok: "kernel_ok ks" and r: "r = Inr (out, ks')"
    obtain n buf ks1 where rd: "vfs_read sfd 1024 ks = Inr (n, buf, ks1)"
      using eq r by (auto split: sum.splits)
    note k1 = vfs_read_ok [OF ok rd]
    show "kernel_ok ks'"
    proof (cases "n > 0")
      case False
      then show ?thesis
        using eq r rd k1 by auto
    next
      case True
      then obtain w ks2 where wr: "vfs_write dfd buf (of_int n) ks1 = Inr (w, ks2)"
        using eq r rd by (auto split: sum.splits)
      then show ?thesis
        using vfs_write_ok [OF k1 wr] eq r rd True IH by (auto split: if_splits)
    qed
  qed
  then show ?thesis
    using assms(2,3) by blast
qed

lemma cmd_cp_ok:
  assumes "kernel_ok ks" and "\<forall>a. args = Some a \<longrightarrow> cstr a" and "cmd_cp args ks = Inr (out, ks')"
  shows "kernel_ok ks'"
proof -
  obtain ws where ws: "two_words args = Inr ws"
    using assms(3) by (auto simp: cmd_cp_def bind_res_Inr_iff)
  show ?thesis
  proof (cases ws)
    case None
    then show ?thesis
      using assms(1,3) ws by (simp add: cmd_cp_def)
  next
    case (Some pq)
    obtain p q where pq: "pq = (p, q)"
      by (cases pq)
    have q: "cstr q"
      using two_words_cstr(2) [OF assms(2)] ws Some pq by simp
    obtain fd ks1 where o: "vfs_open p ks = Inr (fd, ks1)"
      using assms(3) ws Some pq by (auto simp: cmd_cp_def bind_res_Inr_iff)
    note k1 = vfs_open_ok [OF assms(1) o]
    show ?thesis
    proof (cases "fd < 0")
      case True
      then show ?thesis
        using assms(3) ws Some pq o k1 by (auto simp: cmd_cp_def bind_res_Inr_iff)
    next
      case False
      then obtain dfd ks2 where c: "vfs_create q ks1 = Inr (dfd, ks2)"
        using assms(3) ws Some pq o by (auto simp: cmd_cp_def bind_res_Inr_iff)
      note k2 = vfs_create_ok [OF k1 q c]
      show ?thesis
        using assms(3) ws Some pq o c False k2
        by (auto simp: cmd_cp_def res_Inr_iffs split: if_splits dest: cp_loop_ok)
    qed
  qed
qed

text \<open>Every request of a process.\<close>

lemma create_process_cwds: "cwds_ok pt \<Longrightarrow> create_process st pt = Inr (q, pt') \<Longrightarrow> cwds_ok pt'"
  by (auto simp: create_process_def res_Inr_iffs Let_def cwds_ok_def upd_proc_def)

lemma send_wait_cwds: "cwds_ok pt \<Longrightarrow> send_wait msg pt = Inr (rep, pt') \<Longrightarrow> cwds_ok pt'"
  by (auto simp: send_wait_def res_Inr_iffs intro!: cwds_ok_upd dest: schedule_cwds [rotated] split: option.splits)

lemma handle_exec_cwds: "cwds_ok pt \<Longrightarrow> handle_exec_message msg pt = Inr (r, pt') \<Longrightarrow> cwds_ok pt'"
  by (auto simp: handle_exec_message_def res_Inr_iffs Let_def intro!: cwds_ok_upd split: option.splits)

lemma send_read_ok: "kernel_ok ks \<Longrightarrow> send_read msg ks = Inr (n, m, ks') \<Longrightarrow> kernel_ok ks'"
  by (auto simp: send_read_def res_Inr_iffs dest: vfs_read_ok split: if_splits)

lemma handle_read_dir_ok: "kernel_ok ks \<Longrightarrow> handle_read_dir_message msg ks = Inr (r, m, ks') \<Longrightarrow> kernel_ok ks'"
  by (auto simp: handle_read_dir_message_def res_Inr_iffs dest: vfs_read_dir_ok split: option.splits)

lemma send_message_ok:
  assumes "kernel_ok ks" and "send_message st msg ks = Inr (rep, ks')"
  shows "kernel_ok ks'"
  using assms(2) kernel_okD(5) [OF assms(1)] unfolding send_message_def
  using assms(1)
  by (auto simp: res_Inr_iffs intro!: kernel_ok_update [OF assms(1)]
      dest: vfs_open_ok [OF assms(1)] send_read_ok [OF assms(1)] handle_read_dir_ok [OF assms(1)] unbind_ok [OF assms(1)]
        create_process_cwds handle_exec_cwds send_wait_cwds split: if_splits)

text \<open>One command line.\<close>

lemma simple_commands_ok:
  assumes "kernel_ok ks" and "\<forall>a. args = Some a \<longrightarrow> cstr a"
  shows "cmd_echo args ks = Inr (out, ks') \<Longrightarrow> kernel_ok ks'" "cmd_pwd ks = Inr (out, ks') \<Longrightarrow> kernel_ok ks'"
    "cmd_ls left st args ks = Inr (out, ks') \<Longrightarrow> kernel_ok ks'"
    "cmd_touch args ks = Inr (out, ks') \<Longrightarrow> kernel_ok ks'"
    "cmd_rm args ks = Inr (out, ks') \<Longrightarrow> kernel_ok ks'"
    "cmd_mkdir args ks = Inr (out, ks') \<Longrightarrow> kernel_ok ks'"
    "cmd_unbind st args ks = Inr (out, ks') \<Longrightarrow> kernel_ok ks'"
proof -
  show "cmd_echo args ks = Inr (out, ks') \<Longrightarrow> kernel_ok ks'" "cmd_pwd ks = Inr (out, ks') \<Longrightarrow> kernel_ok ks'"
    using assms(1) by (auto simp: cmd_echo_def cmd_pwd_def res_Inr_iffs)
  show "kernel_ok ks'" if ls: "cmd_ls left st args ks = Inr (out, ks')"
  proof -
    obtain path rep ks1 where m: "send_message st (zero_message\<lparr>mtype := MSG_READ_DIR, mpath := Some path\<rparr>) ks = Inr (rep, ks1)"
      "(case rep of Waiting _ _ \<Rightarrow> Inr ([], ks1)
        | Reply r m \<Rightarrow>
            if r \<ge> 0 then Inr (concat (map (\<lambda>d. d_name d @ [NEWLINE]) (left (case_option [] id (mdirents m)))), ks1)
            else Inr (''ls: cannot access '' @ [CHR 0x27] @ path @ [CHR 0x27, NEWLINE], ks1)) = (Inr (out, ks') :: command_result)"
      using ls unfolding cmd_ls_def by (auto simp only: bind_res_Inr_iff split_beta fst_conv snd_conv)
    then have "ks' = ks1"
      by (auto split: reply.splits if_splits)
    then show ?thesis
      using send_message_ok [OF assms(1) m(1)] by simp
  qed
  show "cmd_touch args ks = Inr (out, ks') \<Longrightarrow> kernel_ok ks'"
    using assms by (auto simp: cmd_touch_def bind_res_Inr_iff split: option.splits if_splits
        dest!: vfs_create_ok [OF assms(1), rotated] intro: vfs_close_ok)
  show "cmd_rm args ks = Inr (out, ks') \<Longrightarrow> kernel_ok ks'"
    using assms(1) unfolding cmd_rm_def Let_def
    by (auto simp: bind_res_Inr_iff split: option.splits if_splits list.splits
        dest: vfs_remove_recursive_ok vfs_unlink_ok)
  show "cmd_mkdir args ks = Inr (out, ks') \<Longrightarrow> kernel_ok ks'"
    using assms by (auto simp: cmd_mkdir_def bind_res_Inr_iff split: option.splits if_splits dest: vfs_mkdir_ok)
  show "kernel_ok ks'" if u: "cmd_unbind st args ks = Inr (out, ks')"
  proof (cases args)
    case None
    then show ?thesis
      using u assms(1) by (simp add: cmd_unbind_def)
  next
    case (Some p)
    then obtain rep ks1 where m: "send_message st (zero_message\<lparr>mtype := MSG_UNBIND, mpath := Some p\<rparr>) ks = Inr (rep, ks1)"
      "(case rep of Waiting _ _ \<Rightarrow> Inr ([], ks1)
        | Reply r _ \<Rightarrow> Inr (if r < 0 then ''unbind: failed'' @ [NEWLINE] else ''Namespace unbound: '' @ p @ [NEWLINE], ks1)) =
       (Inr (out, ks') :: command_result)"
      using u unfolding cmd_unbind_def by (auto simp only: option.case bind_res_Inr_iff split_beta fst_conv snd_conv)
    then have "ks' = ks1"
      by (auto split: reply.splits)
    then show ?thesis
      using send_message_ok [OF assms(1) m(1)] by simp
  qed
qed

lemma cmd_mv_ok:
  assumes "kernel_ok ks" and "\<forall>a. args = Some a \<longrightarrow> cstr a" and "cmd_mv args ks = Inr (out, ks')"
  shows "kernel_ok ks'"
proof -
  obtain ws where ws: "two_words args = Inr ws"
    using assms(3) by (auto simp: cmd_mv_def bind_res_Inr_iff)
  show ?thesis
  proof (cases ws)
    case None
    then show ?thesis
      using assms(1,3) ws by (simp add: cmd_mv_def)
  next
    case (Some pq)
    obtain p q where pq: "pq = (p, q)"
      by (cases pq)
    have cs: "cstr p" "cstr q"
      using two_words_cstr [OF assms(2)] ws Some pq by simp_all
    obtain o1 ks1 r where c: "cmd_cp (Some (p @ '' '' @ q)) ks = Inr (o1, ks1)" "vfs_unlink p ks1 = Inr (r, ks')"
      using assms(3) ws Some pq by (auto simp: cmd_mv_def bind_res_Inr_iff)
    have "kernel_ok ks1"
      using cs by (intro cmd_cp_ok [OF assms(1) _ c(1)]) auto
    then show ?thesis
      using c(2) by (rule vfs_unlink_ok)
  qed
qed

lemma cmd_bind_ok: "kernel_ok ks \<Longrightarrow> cmd_bind args ks = Inr (out, ks') \<Longrightarrow> kernel_ok ks'"
  by (auto simp: cmd_bind_def bind_res_Inr_iff split: option.splits dest: bind_typed)

lemma if_cases: "(if b then x else y) = z \<Longrightarrow> (x = z \<Longrightarrow> P) \<Longrightarrow> (y = z \<Longrightarrow> P) \<Longrightarrow> P"
  by (simp split: if_splits)

lemma run_command_ok:
  assumes "kernel_ok ks" and "\<forall>a. args = Some a \<longrightarrow> cstr a"
    and "run_command junk left st cmd args ks = Inr nx"
  shows "case nx of Exited ks1 \<Rightarrow> kernel_ok ks1 | Continue out ks1 \<Rightarrow> kernel_ok ks1"
proof (cases "cmd = ''exit''")
  case True
  then show ?thesis
    using assms(3) exit_process_ok [OF assms(1)] by (auto simp: run_command_def cmd_exit_def map_res_Inr_iff)
next
  case False
  then obtain out ks1 where nx: "nx = Continue out ks1" and c:
    "(if cmd = ''echo'' then cmd_echo args ks
      else if cmd = ''pwd'' then cmd_pwd ks
      else if cmd = ''cd'' then cmd_cd junk args ks
      else if cmd = ''ls'' then cmd_ls left st args ks
      else if cmd = ''cp'' then cmd_cp args ks
      else if cmd = ''touch'' then cmd_touch args ks
      else if cmd = ''mv'' then cmd_mv args ks
      else if cmd = ''rm'' then cmd_rm args ks
      else if cmd = ''mkdir'' then cmd_mkdir args ks
      else if cmd = ''bind'' then cmd_bind args ks
      else if cmd = ''unbind'' then cmd_unbind st args ks
      else Inr (''Unknown command: '' @ cmd @ [NEWLINE], ks)) = Inr (out, ks1)"
    using assms(3) unfolding run_command_def if_not_P [OF False] map_res_Inr_iff split_beta
    by (elim exE conjE) (rule that, assumption, simp only: prod.collapse)
  note simple = simple_commands_ok [OF assms(1,2), where out = out and ks' = ks1]
  have "kernel_ok ks1"
    using c
    by (rule if_cases) (erule simple | erule cmd_cd_ok [OF assms(1)] | erule cmd_cp_ok [OF assms(1,2)] |
        erule cmd_mv_ok [OF assms(1,2)] | erule cmd_bind_ok [OF assms(1)] | erule if_cases | use assms(1) in auto)+
  then show ?thesis
    by (simp add: nx)
qed

lemma split_line_cstr: "split_line input pos = Inr (cmd, args) \<Longrightarrow> \<forall>a. args = Some a \<longrightarrow> cstr a"
  by (auto simp: split_line_def res_Inr_iffs Let_def dest: strlen_InrD split: option.splits)

lemma shell_ok: "kernel_ok ks \<Longrightarrow> shell junk left st input cs ks = Inr (out, ks') \<Longrightarrow> kernel_ok ks'"
proof (induction junk left st input cs ks arbitrary: out ks' rule: shell.induct)
  case (1 junk left st input cs ks)
  show ?case
  proof (cases "read_line input 0 cs")
    case None
    then show ?thesis
      using 1(2,3) by (subst (asm) shell.simps) simp
  next
    case (Some r)
    obtain i pos cs1 where r: "r = (i, pos, cs1)"
      by (cases r)
    obtain cmd args nx where n: "split_line i pos = Inr (cmd, args)" "run_command junk left st cmd args ks = Inr nx"
      "(case nx of Exited ks1 \<Rightarrow> Inr ([], ks1) | Continue o1 ks1 \<Rightarrow>
          map_res (\<lambda>(out', ks2). (o1 @ out', ks2)) (shell junk left st i cs1 ks1)) = (Inr (out, ks') :: command_result)"
      using 1(3) Some r by (subst (asm) shell.simps) (auto simp: bind_res_Inr_iff)
    note k = run_command_ok [OF 1(2) split_line_cstr [OF n(1)] n(2)]
    show ?thesis
    proof (cases nx)
      case (Exited ks1)
      then show ?thesis
        using k n(3) by simp
    next
      case (Continue o1 ks1)
      then show ?thesis
        using k n 1(1) [OF Some _ _ n(1) _ n(2) Continue] r by (auto simp: res_Inr_iffs)
    qed
  qed
qed

section \<open>Reading and writing well-typed descriptors\<close>

text \<open>Through the descriptor of a file of /tmp a read or write always succeeds, within its count.\<close>

lemma tmp_read_total:
  assumes "kernel_ok ks" and fl: "get_file fd ks = Some fl" "f_ops fl = Ramfs_Fops" and cnt: "unat cnt < 2 ^ 63"
  shows "\<exists>bs ks'. vfs_read fd cnt ks = Inr (int (length bs), bs, ks') \<and> length bs \<le> unat cnt"
proof -
  have ok: "file_ok fl"
    using assms(1) fl(1) by (simp add: kernel_ok_def fds_ok_def)
  then obtain i where h: "ramfs_handle fl i" "unat (f_pos fl) \<le> 4096"
    using fl(2) by (auto simp: file_ok_def ramfs_handle_def split: private_data.splits)
  have "unat (f_pos fl) + unat cnt < 2 ^ 64"
    using h(2) cnt by simp
  from vfs_read_tmp [OF fl ramfs_read_eq [OF kernel_okD(2) [OF assms(1)] h(1) this]] show ?thesis
    by (intro exI conjI) (assumption, simp)
qed

lemma ramfs_write_total:
  assumes h: "ramfs_handle fl i" and "length fs = MAX_FILES" and pos: "unat (f_pos fl) \<le> MAX_CONTENT"
    and cnt: "unat cnt < 2 ^ 63" and buf: "unat cnt \<le> length buf"
  shows "\<exists>n fl' fs'. ramfs_write fl buf cnt fs = Inr (int n, fl', fs') \<and> n \<le> unat cnt"
proof -
  define n where "n = (if f_pos fl + cnt > 4096 then 4096 - f_pos fl else cnt)"
  have "unat (f_pos fl) + unat cnt < 2 ^ 64"
    using pos cnt by simp
  then have n: "unat n \<le> unat cnt" "unat (f_pos fl) + unat n \<le> 4096"
    using pos unat_plus_64 [of "f_pos fl" cnt] unat_sub [of "f_pos fl" "0x1000"]
    by (auto simp: n_def word_less_nat_alt word_le_nat_alt)
  then have "ssize n = int (unat n)" "unat n \<le> length buf"
    using cnt buf by (simp_all add: ssize_small)
  moreover have "i < length fs"
    using h assms(2) by (simp add: ramfs_handle_def)
  moreover have "ramfs_write fl buf cnt fs =
      (if n > 0 then
         bind_res (guard_res (unat (f_pos fl) + unat n \<le> MAX_CONTENT \<and> unat n \<le> length buf) Out_Of_Bounds) (\<lambda>_.
           Inr (ssize n, fl\<lparr>f_pos := f_pos fl + n\<rparr>,
             fs[i := (fs ! i)\<lparr>rf_content := memcpy (rf_content (fs ! i)) (unat (f_pos fl)) (\<lambda>k. buf ! k) 0 (unat n),
               rf_size := (if f_pos fl + n > rf_size (fs ! i) then f_pos fl + n else rf_size (fs ! i))\<rparr>]))
       else Inr (ssize n, fl, fs))"
    using calculation(3) by (simp only: ramfs_write_def ramfs_handle_slot [OF h] Let_def n_def
        bind_res_simps guard_res_simps of_nat_numeral simp_thms)
  ultimately show ?thesis
    using n by (intro exI [of _ "unat n"]) simp
qed

lemma tmp_write_total:
  assumes "kernel_ok ks" and fl: "get_file fd ks = Some fl" "f_ops fl = Ramfs_Fops"
    and cnt: "unat cnt < 2 ^ 63" and buf: "unat cnt \<le> length buf"
  shows "\<exists>n ks'. vfs_write fd buf cnt ks = Inr (int n, ks') \<and> n \<le> unat cnt"
proof -
  have ok: "file_ok fl"
    using assms(1) fl(1) by (simp add: kernel_ok_def fds_ok_def)
  then obtain i where h: "ramfs_handle fl i" "unat (f_pos fl) \<le> MAX_CONTENT"
    using fl(2) by (auto simp: file_ok_def ramfs_handle_def split: private_data.splits)
  obtain n fl' fs' where "ramfs_write fl buf cnt (k_ramfs ks) = Inr (int n, fl', fs')" "n \<le> unat cnt"
    using ramfs_write_total [OF h(1) ramfs_ok_length [OF kernel_okD(2) [OF assms(1)]] h(2) cnt buf] by blast
  then show ?thesis
    using vfs_write_tmp [OF fl] by blast
qed

section \<open>Properties\<close>


section \<open>Concrete runs\<close>

text \<open>A booted AbyssFS image, /tmp/a open as descriptor 0.\<close>

definition ex_typed :: kstate where
  "ex_typed = ex_with_file\<lparr>k_abyss := ex_abyss, fd_table := (replicate 32 None)[0 := Some (tmp_handle ''/tmp/a'' 0)],
     next_fd := 1\<rparr>"

lemma ex_typed_ok: "kernel_ok ex_typed"
proof -
  have "cwds_ok (k_pt ex_typed)"
    by (simp add: cwds_ok_def buffer_ok_def ex_typed_def ex_with_file_def ex_kstate_def ex_boot_def init_process_def
        boot_ptable_def upd_proc_def zero_process_def Let_def)
  moreover have "fds_ok ex_typed"
    by (auto simp: fds_ok_def ex_typed_def get_file_def file_ok_def tmp_handle_def nth_list_update split: if_splits)
  moreover have "k_ramfs ex_typed = k_ramfs ex_with_file" "k_heap ex_typed = 0" "length (mount_points ex_typed) = 2"
    using ex_with_file_facts(1,5) by (auto simp: ex_typed_def booted_mounts_def)
  ultimately show ?thesis
    using ex_with_file_ok(1) abyss_invD(1) [OF ex_abyss_facts(2)]
    by (simp add: kernel_ok_def heap_ok_def ex_typed_def)
qed


end
