(* ===== verification/Spec2Isabelle.thy ===== *)
theory Spec2Isabelle
  imports Process_Test User_Asm Console Shell_Files Kernel_Types
begin

text \<open>
  OS-ARM is a small kernel for AArch64 in C: one address space, a cooperative and timer-driven
  scheduler, a virtual file system with two file systems below it, per-process bindings of paths, messages
  between processes, a shell in the kernel and one user program. This library is a shallow embedding of
  it: every function of the source is a HOL function on explicit state, and this header says which.

  Conventions. A machine integer is a word of its width (\<open>u8\<close>, \<open>u32\<close>, \<open>u64\<close>), an \<open>int\<close> of the code
  that cannot overflow is an \<open>int\<close>, a C string is the list of its characters, a buffer whose bytes
  matter is a \<open>char list\<close> or a memory \<open>nat \<Rightarrow> char\<close>. A run that leaves the defined behaviour of C, or
  does not end, is a fault: the result type \<open>'a res\<close> of Prelude is \<open>fault + 'a\<close>, with a null pointer
  (\<open>Null_Deref\<close>), an access past a buffer (\<open>Out_Of_Bounds\<close>, \<open>Buffer_Overflow\<close>), an endless loop
  (\<open>Hang\<close>) and a read of an uninitialised pointer (\<open>Indeterminate\<close>). Loops over linked lists, polling loops
  and the copy loop of \<open>cp\<close> are \<open>partial_function (option)\<close>: that they end is proved. There is no fuel;
  the bounds are those of the code (4 processes, 16 files of 4096 bytes, 64 blocks and 512 inodes, 32
  descriptors, 32 messages, lines and paths of 256 bytes). The diagnostics that functions print are not
  part of the state; what a command of the shell prints as its result is.

  The parts, from the bottom:

  \<^item> Prelude: faults and their combinators, strings, memory, linked lists, search in arrays.
  \<^item> CString: \<open>string.c\<close>. Each routine has a closed form; the \<open>strtok_r\<close> loop is \<open>tokens\<close>. Kmalloc:
    \<open>kmalloc.c\<close>, an interpretation of the interface \<open>bump_allocator\<close>. Library_Theorems: their properties.
  \<^item> Message_Queue: the ring buffer of \<open>message.h\<close>, an interpretation of \<open>bounded_fifo\<close>.
  \<^item> Context_Switch: \<open>context_switch.S\<close> on the words of \<open>context_t\<close>. Process: \<open>process.c\<close>, on a store of
    records (\<open>ptable\<close>); the processor is part of it. Scheduler: the invariant \<open>sched_inv\<close>, the step relation
    \<open>kstep\<close> of all operations on the table and its reachable states \<open>kreach\<close>, and the properties of
    scheduling, fork, exit and wait. A function that switches processes returns the state at the
    switch; what follows the call is its caller's when it runs again (\<open>wait_resumed\<close>, \<open>timer_resumed\<close>).
  \<^item> Vfs_Data: the structures of \<open>vfs.h\<close>. Directory: the interface \<open>directory\<close> of names that can be linked
    and removed, which both file systems provide.
  \<^item> Ramfs, Ramfs_Spec: \<open>ramfs.c\<close>. The array of files refines a finite map from paths to contents
    (\<open>ramfs_look\<close>); reading and writing are slices; any sequence of operations keeps the bounds.
  \<^item> Abyss_Disk, Abyssfs, Abyss_Dir, Abyss_Spec, Abyss_Theorems: \<open>abyssfs.c\<close> on the image of 64 blocks of
    4096 bytes, with inodes and directory entries as the bytes they are. \<open>abyss_inv\<close> says that the image is
    consistent: distinct names, an inode for each, no block used twice or free and used. Abyss_Nested:
    directories of the root (\<open>holds_dir\<close>), files created in them, paths through them, recursive removal.
  \<^item> Vfs, Vfs_Spec, Vfs_Boot: \<open>vfs.c\<close> on the state \<open>kstate\<close> of the whole kernel: heap, both file systems,
    mounts, descriptors, process table. Namespace: \<open>namespace.c\<close>; the two directions in which the code
    reads a list of bindings are two interpretations of \<open>path_bindings\<close>.
  \<^item> Messages: the dispatcher of \<open>message.c\<close>, and the loading of programs in \<open>process.c\<close>.
  \<^item> Shell, Shell_Spec, Shell_Copy: \<open>shell.c\<close>. The line editor refines a stack of characters, \<open>cd\<close> a walk
    over lists of names, \<open>cp\<close> the update of the map from paths to contents. Shell_Run: the loop of the shell
    on typed characters equals the batch interpreter \<open>batch\<close> on the edited lines. Shell_Files: a typed session
    with \<open>touch\<close>, \<open>ls\<close> and \<open>rm\<close> against the map from paths to contents, through all layers; a path that two
    slots hold (\<open>holders\<close>).
  \<^item> Kernel_Types: \<open>kernel_ok\<close>, what C's types leave open about the state of the whole kernel (open files, the
    descriptor table, working directories, bounds); every system call, every request of \<open>send_message\<close> and
    every command of the shell keeps it, and descriptors of /tmp in such a state can be read and written.
  \<^item> Uart, Mmu, Interrupts, Exceptions, User_Shell: the drivers \<open>uart.c\<close>, \<open>uart_debug.c\<close>, \<open>mmu.c\<close>, \<open>gic.c\<close>,
    \<open>timer.c\<close>, the tick \<open>handle_irq\<close>, system calls (\<open>exceptions.c\<close>, \<open>exceptions.S\<close>, \<open>enter_usermode.S\<close>) and
    the program \<open>user_shell.c\<close>. A driver extends a trace of register accesses; the device is a parameter,
    a function from the trace to the value a read gives. The only assumption about it is \<open>drains\<close>: a flag
    that is polled does not stay set for ever. \<open>ex_device\<close> is a device that drains.
  \<^item> Assembly: the instructions of \<open>exceptions.S\<close> and \<open>user_shell.S\<close> and the table of vectors as the
    assembler lays it out. Vectors: \<open>boot.S\<close>; the instructions at 0x400 compute \<open>sync_el0_64\<close>; what an
    interrupt does at this table. User_Asm: \<open>user_shell.S\<close>, the program in the kernel image, is equivalent
    to \<open>user_shell.c\<close>.
  \<^item> Console: what \<open>kernel_main\<close> prints itself, \<open>print_mmu_blocks\<close>, \<open>debug_dir_entry\<close>, \<open>_user_entry\<close> and
    \<open>user_stub.S\<close> as sequences of calls of the driver; \<open>data_only\<close> says that printing writes characters only.
  \<^item> Kernel, Process_Test: the boot sequence and the tests of \<open>kernel.c\<close>, the programs of \<open>process_test.c\<close>.

  Each theory that models code keeps its definitions in the order of the source; the properties are in the
  last sections of the theories named \<open>_Spec\<close> and \<open>_Theorems\<close> and of the small ones, each numbered, and a
  run on concrete data follows them.

  The model shows several places where the code does not do what it means to; those that concern the whole
  system are: \<open>process_init\<close> and \<open>vfs_init\<close> run before there is a process (\<open>kernel_main_faults\<close>), so
  \<open>kernel_start\<close> is stated from \<open>init_process\<close> on; a process from \<open>process_create\<close> starts at address 0; files of
  AbyssFS cannot be read back by their path; results of system calls are lost; no vector leads to
  \<open>handle_irq\<close> (\<open>irq_never_handled\<close>), so what Interrupts shows of the tick is about \<open>handle_irq\<close> as it would
  be called.

  Not modelled. Linker scripts and the Makefile, the declarations of the headers, the accessors \<open>read_sctlr\<close>
  and \<open>write_sctlr\<close> and the functions \<open>ramfs_find_dir\<close> and \<open>abyssfs_run_test\<close>, which nothing uses, and the
  diagnostics that functions other than those of Console print on their way. What runs between two operations of the kernel
  (the instructions of user programs, a nested interrupt inside an operation) is not modelled either: the
  operations are atomic, as they are on one processor with interrupts masked.
\<close>

end
